(* ===== verification/Prelude.thy ===== *)
theory Prelude
  imports Main "HOL-Library.List_Lexorder" "HOL-Library.Char_ord" "HOL-Library.Product_Lexorder"
    "HOL-Library.Multiset"
begin

text \<open>
  Shared vocabulary of the development: the error values that stand for the exceptions of
  \<open>core/exceptions.py\<close>, results as sums with a sequencing operation, dictionaries as
  association lists in insertion order, and the order-preserving list operations
  (\<open>dict.fromkeys\<close>, keyed sorts) that the Python code uses everywhere.
  The collection \<open>res_simps\<close> holds the facts that take a successful run apart.
\<close>

named_theorems res_simps "facts that decompose successful or failing results"
named_theorems dict_simps "facts about insertion-ordered dictionaries"

section \<open>Results\<close>

type_synonym ('e, 'a) res = "'e + 'a"

text \<open>Sequencing: the first error is the error of the whole, as an exception would be.\<close>

definition res_bind :: "'e + 'a \<Rightarrow> ('a \<Rightarrow> 'e + 'b) \<Rightarrow> 'e + 'b" where
  "res_bind m f = (case m of Inl e \<Rightarrow> Inl e | Inr x \<Rightarrow> f x)"

text \<open>An early raise: continue with \<open>k\<close> unless the guard holds.\<close>

definition raise_if :: "bool \<Rightarrow> 'e \<Rightarrow> 'e + 'a \<Rightarrow> 'e + 'a" where
  "raise_if bad e k = (if bad then Inl e else k)"

fun res_map :: "('a \<Rightarrow> 'e + 'b) \<Rightarrow> 'a list \<Rightarrow> 'e + 'b list" where
  "res_map f [] = Inr []"
| "res_map f (x # xs) = res_bind (f x) (\<lambda>y. res_bind (res_map f xs) (\<lambda>ys. Inr (y # ys)))"

fun res_fold :: "('a \<Rightarrow> 's \<Rightarrow> 'e + 's) \<Rightarrow> 'a list \<Rightarrow> 's \<Rightarrow> 'e + 's" where
  "res_fold f [] s = Inr s"
| "res_fold f (x # xs) s = res_bind (f x s) (res_fold f xs)"

lemma res_bind_Inl [simp]: "res_bind (Inl e) f = Inl e"
  by (simp add: res_bind_def)

lemma res_bind_Inr [simp]: "res_bind (Inr x) f = f x"
  by (simp add: res_bind_def)

lemma res_bind_eq_Inr [res_simps]:
  "res_bind m f = Inr y \<longleftrightarrow> (\<exists>x. m = Inr x \<and> f x = Inr y)"
  by (cases m) auto

lemma res_bind_eq_Inl [res_simps]:
  "res_bind m f = Inl e \<longleftrightarrow> m = Inl e \<or> (\<exists>x. m = Inr x \<and> f x = Inl e)"
  by (cases m) auto

lemma raise_if_eq_Inr [res_simps]: "raise_if b e k = Inr y \<longleftrightarrow> \<not> b \<and> k = Inr y"
  by (simp add: raise_if_def)

lemma raise_if_eq_Inl [res_simps]:
  "raise_if b e k = Inl e' \<longleftrightarrow> (b \<and> e' = e) \<or> (\<not> b \<and> k = Inl e')"
  by (auto simp: raise_if_def)

lemma raise_if_False [simp]: "raise_if False e k = k"
  by (simp add: raise_if_def)

lemma raise_if_True [simp]: "raise_if True e k = Inl e"
  by (simp add: raise_if_def)

lemma res_bind_cong [fundef_cong]:
  assumes "m = m'" and "\<And>x. m' = Inr x \<Longrightarrow> f x = f' x"
  shows "res_bind m f = res_bind m' f'"
  using assms by (cases m') auto

lemma raise_if_cong [fundef_cong]:
  assumes "b = b'" and "e = e'" and "\<not> b' \<Longrightarrow> k = k'"
  shows "raise_if b e k = raise_if b' e' k'"
  using assms by (auto simp: raise_if_def)

lemma res_map_cong [fundef_cong]:
  assumes "xs = ys" and "\<And>x. x \<in> set ys \<Longrightarrow> f x = g x"
  shows "res_map f xs = res_map g ys"
  using assms(2) unfolding assms(1) by (induction ys) auto

lemma res_map_eq_Inr:
  "res_map f xs = Inr ys \<longleftrightarrow> list_all2 (\<lambda>x y. f x = Inr y) xs ys"
proof (induction xs arbitrary: ys)
  case Nil
  then show ?case by auto
next
  case (Cons x xs)
  then show ?case by (cases ys) (auto simp: res_simps)
qed

lemma res_map_length: "res_map f xs = Inr ys \<Longrightarrow> length ys = length xs"
  by (auto simp: res_map_eq_Inr dest: list_all2_lengthD)

lemma res_map_output: "res_map f xs = Inr ys \<Longrightarrow> y \<in> set ys \<Longrightarrow> \<exists>x\<in>set xs. f x = Inr y"
  by (induction xs arbitrary: ys) (auto simp: res_simps)

lemma res_map_input: "res_map f xs = Inr ys \<Longrightarrow> x \<in> set xs \<Longrightarrow> \<exists>y\<in>set ys. f x = Inr y"
  by (induction xs arbitrary: ys) (auto simp: res_simps)

lemma res_map_total: "(\<And>x. x \<in> set xs \<Longrightarrow> \<exists>y. f x = Inr y) \<Longrightarrow> \<exists>ys. res_map f xs = Inr ys"
  by (induction xs) fastforce+

text \<open>A run that was evaluated: its value and what holds of it.\<close>

lemma res_evaluated: "(case m of Inl _ \<Rightarrow> False | Inr x \<Rightarrow> P x) \<Longrightarrow> \<exists>x. m = Inr x \<and> P x"
  by (cases m) simp_all

text \<open>An invariant of the accumulator of a successful loop.\<close>

lemma res_fold_invariant:
  assumes "res_fold f xs s = Inr t" and "P s"
    and "\<And>x u v. x \<in> set xs \<Longrightarrow> P u \<Longrightarrow> f x u = Inr v \<Longrightarrow> P v"
  shows "P t"
  using assms by (induction xs arbitrary: s) (auto simp: res_simps)

section \<open>Errors\<close>

text \<open>
  The exceptions of the modelled code. A \<open>SmokingDataError\<close> carries its machine-readable
  code; the human message and the diagnostic context are rendering and are not modelled. A
  plain Python exception is kept as its class with a short tag of the raising site.
\<close>

datatype py_error =
    ValidationError string
  | ValueError string
  | KeyError string
  | TypeError string
  | IndexError string
  | RuntimeError string
  | AttributeError string
  | OSError int

type_synonym 'a result = "py_error + 'a"

section \<open>Dictionaries in insertion order\<close>

fun dict_put :: "'k \<Rightarrow> 'v \<Rightarrow> ('k \<times> 'v) list \<Rightarrow> ('k \<times> 'v) list" where
  "dict_put k v [] = [(k, v)]"
| "dict_put k v ((a, b) # ps) = (if a = k then (a, v) # ps else (a, b) # dict_put k v ps)"

definition dict_setdefault :: "'k \<Rightarrow> 'v \<Rightarrow> ('k \<times> 'v) list \<Rightarrow> ('k \<times> 'v) list" where
  "dict_setdefault k v d = (case map_of d k of None \<Rightarrow> dict_put k v d | Some _ \<Rightarrow> d)"

definition dict_del :: "'k \<Rightarrow> ('k \<times> 'v) list \<Rightarrow> ('k \<times> 'v) list" where
  "dict_del k d = filter (\<lambda>p. fst p \<noteq> k) d"

definition dict_keys :: "('k \<times> 'v) list \<Rightarrow> 'k list" where
  "dict_keys d = map fst d"

text \<open>A list of pairs read as a Python dict: a later pair overwrites the value, not the place.\<close>

definition dict_of_pairs :: "('k \<times> 'v) list \<Rightarrow> ('k \<times> 'v) list" where
  "dict_of_pairs ps = fold (\<lambda>(k, v) d. dict_put k v d) ps []"

definition dict_wf :: "('k \<times> 'v) list \<Rightarrow> bool" where
  "dict_wf d = distinct (map fst d)"

lemma map_of_dict_put [dict_simps]: "map_of (dict_put k v d) = (map_of d)(k \<mapsto> v)"
  by (induction k v d rule: dict_put.induct) (auto simp: fun_eq_iff)

lemma keys_dict_put [dict_simps]: "set (map fst (dict_put k v d)) = insert k (set (map fst d))"
  by (induction k v d rule: dict_put.induct) auto

lemma fst_set_dict_put: "fst ` set (dict_put k v d) = insert k (fst ` set d)"
  using keys_dict_put [of k v d] by simp

lemma dict_wf_put [dict_simps]: "dict_wf d \<Longrightarrow> dict_wf (dict_put k v d)"
  unfolding dict_wf_def
proof (induction k v d rule: dict_put.induct)
  case (2 k v a b ps)
  then show ?case using keys_dict_put [of k v ps] by auto
qed simp

lemma dict_wf_Nil [simp]: "dict_wf []"
  by (simp add: dict_wf_def)

lemma map_of_dict_setdefault [dict_simps]:
  "map_of (dict_setdefault k v d) = (if map_of d k = None then (map_of d)(k \<mapsto> v) else map_of d)"
  by (auto simp: dict_setdefault_def dict_simps split: option.splits)

lemma dict_wf_setdefault [dict_simps]: "dict_wf d \<Longrightarrow> dict_wf (dict_setdefault k v d)"
  by (auto simp: dict_setdefault_def dict_simps split: option.splits)

lemma map_of_dict_del [dict_simps]: "map_of (dict_del k d) = (map_of d)(k := None)"
  by (induction d) (auto simp: dict_del_def fun_eq_iff)

lemma dict_wf_del [dict_simps]: "dict_wf d \<Longrightarrow> dict_wf (dict_del k d)"
  by (auto simp: dict_wf_def dict_del_def distinct_map inj_on_def)

lemma set_dict_put: "set (dict_put k v d) \<subseteq> insert (k, v) (set d)"
  by (induction k v d rule: dict_put.induct) auto

lemma dict_put_new: "k \<notin> fst ` set d \<Longrightarrow> dict_put k v d = d @ [(k, v)]"
  by (induction k v d rule: dict_put.induct) auto

lemma dict_wf_of_pairs [dict_simps]: "dict_wf (dict_of_pairs ps)"
proof -
  have "dict_wf d \<Longrightarrow> dict_wf (fold (\<lambda>(k, v) d. dict_put k v d) ps d)" for d
    by (induction ps arbitrary: d) (auto simp: dict_simps)
  then show ?thesis by (simp add: dict_of_pairs_def)
qed

lemma fst_set_dict_of_pairs: "fst ` set (dict_of_pairs ps) = fst ` set ps"
proof -
  have "fst ` set (fold (\<lambda>(k, v) d. dict_put k v d) ps d) = fst ` set d \<union> fst ` set ps" for d
  proof (induction ps arbitrary: d)
    case (Cons p ps)
    obtain k v where "p = (k, v)" by force
    with Cons [of "dict_put k v d"] show ?case by (simp add: fst_set_dict_put)
  qed simp
  then show ?thesis by (simp add: dict_of_pairs_def)
qed

text \<open>An invariant of the accumulator of a loop that cannot fail.\<close>

lemma fold_keeps: "P s \<Longrightarrow> (\<And>x s. x \<in> set xs \<Longrightarrow> P s \<Longrightarrow> P (f x s)) \<Longrightarrow> P (fold f xs s)"
  by (induction xs arbitrary: s) auto

section \<open>Order-preserving deduplication: dict.fromkeys\<close>

fun dict_fromkeys :: "'a list \<Rightarrow> 'a list" where
  "dict_fromkeys [] = []"
| "dict_fromkeys (x # xs) = x # filter (\<lambda>y. y \<noteq> x) (dict_fromkeys xs)"

lemma set_dict_fromkeys [simp]: "set (dict_fromkeys xs) = set xs"
  by (induction xs) auto

lemma distinct_dict_fromkeys [simp]: "distinct (dict_fromkeys xs)"
  by (induction xs) auto

lemma dict_fromkeys_distinct: "distinct xs \<Longrightarrow> dict_fromkeys xs = xs"
  by (induction xs) (auto simp: filter_id_conv)

lemma dict_fromkeys_eq_Nil [simp]: "dict_fromkeys xs = [] \<longleftrightarrow> xs = []"
  by (cases xs) auto

section \<open>Keyed sorts and selections\<close>

lemma set_sort_key [simp]: "set (sort_key f xs) = set xs"
  by (rule set_sort)

text \<open>Bounds on integer sums that several cost formulas share.\<close>

lemma sum_list_int_nonneg: "(\<And>x. x \<in> set xs \<Longrightarrow> (0::int) \<le> x) \<Longrightarrow> 0 \<le> sum_list xs"
  by (induction xs) auto

lemma sum_list_int_member_le:
  "(\<And>y. y \<in> set xs \<Longrightarrow> (0::int) \<le> y) \<Longrightarrow> x \<in> set xs \<Longrightarrow> x \<le> sum_list xs"
proof (induction xs)
  case (Cons a xs)
  have "0 \<le> sum_list xs" using Cons.prems(1) by (intro sum_list_int_nonneg) auto
  moreover have "0 \<le> a" using Cons.prems(1) by simp
  ultimately show ?case using Cons.IH Cons.prems by fastforce
qed simp

section \<open>The dictionary interface\<close>

text \<open>
  What the clients of a keyed table rely on. The association lists above provide it; the
  scheduler's tables and the lineage computation use it.
\<close>

locale keyed_table =
  fixes lookup :: "'t \<Rightarrow> 'k \<Rightarrow> 'v option"
    and store :: "'k \<Rightarrow> 'v \<Rightarrow> 't \<Rightarrow> 't"
    and invar :: "'t \<Rightarrow> bool"
  assumes lookup_store: "lookup (store k v t) j = (if j = k then Some v else lookup t j)"
    and invar_store: "invar t \<Longrightarrow> invar (store k v t)"
begin

lemma lookup_store_same: "lookup (store k v t) k = Some v"
  by (simp add: lookup_store)

lemma lookup_store_other: "j \<noteq> k \<Longrightarrow> lookup (store k v t) j = lookup t j"
  by (simp add: lookup_store)

lemma store_fold_frame:
  "j \<notin> fst ` set ps \<Longrightarrow> lookup (fold (\<lambda>(k, v). store k v) ps t) j = lookup t j"
  by (induction ps arbitrary: t) (auto simp: lookup_store)

lemma store_fold_invar: "invar t \<Longrightarrow> invar (fold (\<lambda>(k, v). store k v) ps t)"
  by (induction ps arbitrary: t) (auto simp: invar_store)

lemma store_fold_lookup:
  "lookup (fold (\<lambda>(k, v). store k v) ps t) j =
     (case map_of (rev ps) j of None \<Rightarrow> lookup t j | Some v \<Rightarrow> Some v)"
  by (induction ps arbitrary: t) (auto simp: lookup_store map_add_def split: option.splits)

end

interpretation dict: keyed_table map_of dict_put dict_wf
  by unfold_locales (auto simp: dict_simps)

text \<open>\<open>dict(pairs)\<close>: the last pair of a key wins.\<close>

lemma map_of_dict_of_pairs: "map_of (dict_of_pairs ps) k = map_of (rev ps) k"
  using dict.store_fold_lookup [of ps "[]" k] by (auto simp: dict_of_pairs_def split: option.splits)

section \<open>Lists and results\<close>

lemma res_bind_assoc: "res_bind (res_bind m f) g = res_bind m (\<lambda>x. res_bind (f x) g)"
  by (cases m) simp_all

lemma find_append: "find P xs = None \<Longrightarrow> find P (xs @ ys) = find P ys"
  by (induction xs) (auto split: if_splits)

lemma split_at_char: "a @ c # p = b @ c # q \<Longrightarrow> c \<notin> set a \<Longrightarrow> c \<notin> set b \<Longrightarrow> a = b \<and> p = q"
  by (induction a arbitrary: b) (case_tac b; auto)+

lemma res_map_all: "(\<And>x. x \<in> set xs \<Longrightarrow> f x = Inr (g x)) \<Longrightarrow> res_map f xs = Inr (map g xs)"
  by (induction xs) simp_all

end
