(* ===== verification/PyValue.thy ===== *)
theory PyValue
  imports Prelude
begin

text \<open>
  The Python values that YAML and JSON documents consist of, and the parts of Python's string
  and truth rules that the validators use. Dictionaries have string keys and keep insertion
  order. A float is kept as the text \<open>repr\<close> prints for it (that text determines the float).
  Strings are sequences of code points below 256, one \<open>char\<close> each; \<open>strip\<close>, \<open>lower\<close>,
  \<open>isspace\<close> and \<open>repr\<close> follow Python on that range.
\<close>

datatype pyval =
    VNone
  | VBool bool
  | VInt int
  | VFloat string
  | VStr string
  | VList "pyval list"
  | VTuple "pyval list"
  | VDict "(string \<times> pyval) list"

type_synonym pydict = "(string \<times> pyval) list"

section \<open>Strings\<close>

definition code_point :: "char \<Rightarrow> nat" where
  "code_point c = of_char c"

definition py_isspace :: "char \<Rightarrow> bool" where
  "py_isspace c = (let n = code_point c in
     (9 \<le> n \<and> n \<le> 13) \<or> (28 \<le> n \<and> n \<le> 32) \<or> n = 133 \<or> n = 160)"

definition lower_char :: "char \<Rightarrow> char" where
  "lower_char c = (let n = code_point c in
     if (65 \<le> n \<and> n \<le> 90) \<or> (192 \<le> n \<and> n \<le> 222 \<and> n \<noteq> 215) then char_of (n + 32) else c)"

definition upper_ascii_char :: "char \<Rightarrow> char" where
  "upper_ascii_char c = (let n = code_point c in if 97 \<le> n \<and> n \<le> 122 then char_of (n - 32) else c)"

definition py_lower :: "string \<Rightarrow> string" where
  "py_lower s = map lower_char s"

definition py_upper :: "string \<Rightarrow> string" where
  "py_upper s = map upper_ascii_char s"

definition py_lstrip :: "string \<Rightarrow> string" where
  "py_lstrip s = dropWhile py_isspace s"

definition py_strip :: "string \<Rightarrow> string" where
  "py_strip s = rev (dropWhile py_isspace (rev (dropWhile py_isspace s)))"

fun starts_with :: "string \<Rightarrow> string \<Rightarrow> bool" where
  "starts_with s [] = True"
| "starts_with [] (p # ps) = False"
| "starts_with (c # cs) (p # ps) = (c = p \<and> starts_with cs ps)"

fun contains_sub :: "string \<Rightarrow> string \<Rightarrow> bool" where
  "contains_sub [] p = (p = [])"
| "contains_sub (c # cs) p = (starts_with (c # cs) p \<or> contains_sub cs p)"

text \<open>\<open>s.split(sep)\<close> for a one-character separator: always at least one piece.\<close>

fun split_on :: "char \<Rightarrow> string \<Rightarrow> string list" where
  "split_on sep [] = [[]]"
| "split_on sep (c # cs) =
     (if c = sep then [] # split_on sep cs
      else (case split_on sep cs of [] \<Rightarrow> [[c]] | w # ws \<Rightarrow> (c # w) # ws))"

text \<open>\<open>s.split()\<close>: the maximal runs of characters that are not white space.\<close>

fun split_ws_aux :: "string \<Rightarrow> string \<Rightarrow> string list" where
  "split_ws_aux acc [] = (if acc = [] then [] else [rev acc])"
| "split_ws_aux acc (c # cs) =
     (if py_isspace c then (if acc = [] then split_ws_aux [] cs else rev acc # split_ws_aux [] cs)
      else split_ws_aux (c # acc) cs)"

definition split_ws :: "string \<Rightarrow> string list" where
  "split_ws s = split_ws_aux [] s"

text \<open>\<open>s.partition(c)\<close> without the separator: the text before, whether it was found, the text after.\<close>

fun partition_on :: "char \<Rightarrow> string \<Rightarrow> string \<times> bool \<times> string" where
  "partition_on sep [] = ([], False, [])"
| "partition_on sep (c # cs) =
     (if c = sep then ([], True, cs)
      else (case partition_on sep cs of (a, found, b) \<Rightarrow> (c # a, found, b)))"

fun join_with :: "string \<Rightarrow> string list \<Rightarrow> string" where
  "join_with sep [] = []"
| "join_with sep [x] = x"
| "join_with sep (x # xs) = x @ sep @ join_with sep xs"

section \<open>Decimal numbers\<close>

definition digit_char :: "nat \<Rightarrow> char" where
  "digit_char d = ''0123456789'' ! d"

fun nat_str :: "nat \<Rightarrow> string" where
  "nat_str n = (if n < 10 then [digit_char n] else nat_str (n div 10) @ [digit_char (n mod 10)])"

declare nat_str.simps [simp del]

definition int_str :: "int \<Rightarrow> string" where
  "int_str i = (if i < 0 then CHR ''-'' # nat_str (nat (- i)) else nat_str (nat i))"

definition is_digit :: "char \<Rightarrow> bool" where
  "is_digit c = (48 \<le> code_point c \<and> code_point c \<le> 57)"

definition digit_val :: "char \<Rightarrow> nat" where
  "digit_val c = code_point c - 48"

fun digits_val_aux :: "nat \<Rightarrow> string \<Rightarrow> nat" where
  "digits_val_aux acc [] = acc"
| "digits_val_aux acc (c # cs) = digits_val_aux (10 * acc + digit_val c) cs"

definition digits_val :: "string \<Rightarrow> nat" where
  "digits_val s = digits_val_aux 0 s"

section \<open>Truth, str and repr\<close>

fun py_truthy :: "pyval \<Rightarrow> bool" where
  "py_truthy VNone = False"
| "py_truthy (VBool b) = b"
| "py_truthy (VInt i) = (i \<noteq> 0)"
| "py_truthy (VFloat s) = (s \<noteq> ''0.0'' \<and> s \<noteq> ''-0.0'')"
| "py_truthy (VStr s) = (s \<noteq> [])"
| "py_truthy (VList xs) = (xs \<noteq> [])"
| "py_truthy (VTuple xs) = (xs \<noteq> [])"
| "py_truthy (VDict d) = (d \<noteq> [])"

text \<open>The value of \<open>v or d\<close>.\<close>

definition py_or :: "pyval \<Rightarrow> pyval \<Rightarrow> pyval" where
  "py_or v d = (if py_truthy v then v else d)"

definition hex_digit :: "nat \<Rightarrow> char" where
  "hex_digit d = ''0123456789abcdef'' ! d"

definition repr_char :: "char \<Rightarrow> char \<Rightarrow> string" where
  "repr_char q c = (let n = code_point c in
     if c = q \<or> n = 92 then [CHR 0x5C, c]
     else if n = 10 then [CHR 0x5C, CHR ''n'']
     else if n = 13 then [CHR 0x5C, CHR ''r'']
     else if n = 9 then [CHR 0x5C, CHR ''t'']
     else if n < 32 \<or> (127 \<le> n \<and> n \<le> 160) \<or> n = 173
       then [CHR 0x5C, CHR ''x'', hex_digit (n div 16), hex_digit (n mod 16)]
     else [c])"

definition repr_str :: "string \<Rightarrow> string" where
  "repr_str s =
     (let q = (if CHR 0x27 \<in> set s \<and> CHR 0x22 \<notin> set s then CHR 0x22 else CHR 0x27)
      in q # concat (map (repr_char q) s) @ [q])"

fun py_repr :: "pyval \<Rightarrow> string" where
  "py_repr VNone = ''None''"
| "py_repr (VBool b) = (if b then ''True'' else ''False'')"
| "py_repr (VInt i) = int_str i"
| "py_repr (VFloat s) = s"
| "py_repr (VStr s) = repr_str s"
| "py_repr (VList xs) = ''['' @ join_with '', '' (map py_repr xs) @ '']''"
| "py_repr (VTuple xs) =
     (case xs of [x] \<Rightarrow> ''('' @ py_repr x @ '',)''
      | _ \<Rightarrow> ''('' @ join_with '', '' (map py_repr xs) @ '')'')"
| "py_repr (VDict d) =
     ''{'' @ join_with '', '' (map (\<lambda>p. repr_str (fst p) @ '': '' @ py_repr (snd p)) d) @ ''}''"

fun py_str :: "pyval \<Rightarrow> string" where
  "py_str (VStr s) = s"
| "py_str v = py_repr v"

text \<open>\<open>str(v or d)\<close>, the idiom of every optional text field.\<close>

definition str_or :: "pyval \<Rightarrow> string \<Rightarrow> string" where
  "str_or v d = (if py_truthy v then py_str v else d)"

section \<open>Equality\<close>

text \<open>
  Python's \<open>==\<close>: booleans count as integers, an integral float (printed with a trailing
  \<open>.0\<close>, so below \<open>10^16\<close>) equals its integer, dictionaries compare without order, a list
  never equals a tuple.
\<close>

definition float_as_int :: "string \<Rightarrow> int option" where
  "float_as_int s =
     (let (neg, r) = (case s of c # cs \<Rightarrow> if c = CHR ''-'' then (True, cs) else (False, s) | [] \<Rightarrow> (False, []));
          ds = takeWhile is_digit r; rest = dropWhile is_digit r
      in if ds \<noteq> [] \<and> rest = ''.0'' then Some (if neg then - int (digits_val ds) else int (digits_val ds))
         else None)"

fun as_int :: "pyval \<Rightarrow> int option" where
  "as_int (VBool b) = Some (if b then 1 else 0)"
| "as_int (VInt i) = Some i"
| "as_int (VFloat s) = float_as_int s"
| "as_int v = None"

function py_eq :: "pyval \<Rightarrow> pyval \<Rightarrow> bool" where
  "py_eq VNone w = (w = VNone)"
| "py_eq (VStr s) w = (w = VStr s)"
| "py_eq (VList xs) w =
     (case w of VList ys \<Rightarrow> length xs = length ys \<and> list_all (\<lambda>(x, y). py_eq x y) (zip xs ys) | _ \<Rightarrow> False)"
| "py_eq (VTuple xs) w =
     (case w of VTuple ys \<Rightarrow> length xs = length ys \<and> list_all (\<lambda>(x, y). py_eq x y) (zip xs ys) | _ \<Rightarrow> False)"
| "py_eq (VDict d) w =
     (case w of
        VDict e \<Rightarrow> length d = length e \<and>
          list_all (\<lambda>(k, v). case map_of e k of None \<Rightarrow> False | Some u \<Rightarrow> py_eq v u) d
      | _ \<Rightarrow> False)"
| "py_eq (VFloat s) w = (case w of VFloat t \<Rightarrow> s = t \<or> (float_as_int s \<noteq> None \<and> float_as_int s = float_as_int t)
     | _ \<Rightarrow> float_as_int s \<noteq> None \<and> float_as_int s = as_int w)"
| "py_eq (VBool b) w = (as_int (VBool b) = as_int w)"
| "py_eq (VInt i) w = (as_int (VInt i) = as_int w)"
  by pat_completeness auto
termination
proof (relation "measure (size \<circ> fst)", simp_all, goal_cases)
  case (1 xs w ys z x y)
  then have "fst z \<in> set xs" by (metis fst_conv set_zip_leftD)
  then show ?case by (simp add: less_Suc_eq_le size_list_estimation')
next
  case (2 xs w ys z x y)
  then have "fst z \<in> set xs" by (metis fst_conv set_zip_leftD)
  then show ?case by (simp add: less_Suc_eq_le size_list_estimation')
next
  case (3 d w e z k v u)
  then have "size v \<le> size_list (size_prod (\<lambda>x. 0) size) d"
    by (intro size_list_estimation' [where x = "(k, v)"]) auto
  then show ?case by simp
qed

text \<open>\<open>x or y\<close> on an optional integer: zero is falsy.\<close>

definition int_or :: "int option \<Rightarrow> int \<Rightarrow> int" where
  "int_or v d = (case v of None \<Rightarrow> d | Some n \<Rightarrow> if n = 0 then d else n)"

section \<open>int(...)\<close>

text \<open>
  \<open>int(text)\<close>: surrounding white space, a sign, decimal digits with single underscores between
  digits. \<open>int(float)\<close> truncates; the float is given by its \<open>repr\<close>, which has an exponent
  below 1e-4 and from 1e16 on, where the value is integral.
\<close>

definition unsigned_int :: "string \<Rightarrow> int option" where
  "unsigned_int s =
     (let parts = split_on (CHR ''_'') s in
      if list_all (\<lambda>p. p \<noteq> [] \<and> list_all is_digit p) parts then Some (int (digits_val (concat parts)))
      else None)"

definition signed_int :: "string \<Rightarrow> int option" where
  "signed_int s =
     (case s of
        [] \<Rightarrow> None
      | c # cs \<Rightarrow> if c = CHR ''-'' then map_option uminus (unsigned_int cs)
                  else if c = CHR ''+'' then unsigned_int cs else unsigned_int s)"

definition float_trunc :: "string \<Rightarrow> int option" where
  "float_trunc s =
     (let neg = starts_with s ''-'';
          body = (if neg then tl s else s);
          (mantissa, esep, expo) = partition_on (CHR ''e'') body;
          (whole, dsep, frac) = partition_on (CHR ''.'') mantissa
      in if \<not> list_all is_digit whole \<or> whole = [] then None
         else let v = (if \<not> esep then digits_val whole
                       else if starts_with expo ''-'' then 0
                       else digits_val (whole @ frac) * 10 ^ (digits_val (filter is_digit expo) - length frac))
              in Some (if neg then - int v else int v))"

definition of_int_option :: "int option \<Rightarrow> int result" where
  "of_int_option v = (case v of None \<Rightarrow> Inl (ValueError ''int'') | Some i \<Rightarrow> Inr i)"

fun py_int :: "pyval \<Rightarrow> int result" where
  "py_int (VInt i) = Inr i"
| "py_int (VBool b) = Inr (if b then 1 else 0)"
| "py_int (VStr s) = of_int_option (signed_int (py_strip s))"
| "py_int (VFloat s) = of_int_option (float_trunc s)"
| "py_int _ = Inl (TypeError ''int'')"

section \<open>Dictionary access\<close>

text \<open>\<open>d.get(key)\<close>: None when the key is absent.\<close>

definition get_key :: "pydict \<Rightarrow> string \<Rightarrow> pyval" where
  "get_key d k = (case map_of d k of None \<Rightarrow> VNone | Some v \<Rightarrow> v)"

definition get_default :: "pydict \<Rightarrow> string \<Rightarrow> pyval \<Rightarrow> pyval" where
  "get_default d k v = (case map_of d k of None \<Rightarrow> v | Some u \<Rightarrow> u)"

definition has_key :: "pydict \<Rightarrow> string \<Rightarrow> bool" where
  "has_key d k = (map_of d k \<noteq> None)"

fun is_dict :: "pyval \<Rightarrow> bool" where
  "is_dict (VDict _) = True" | "is_dict _ = False"

fun is_list :: "pyval \<Rightarrow> bool" where
  "is_list (VList _) = True" | "is_list _ = False"

fun is_sequence :: "pyval \<Rightarrow> bool" where
  "is_sequence (VList _) = True" | "is_sequence (VTuple _) = True" | "is_sequence _ = False"

fun is_bool :: "pyval \<Rightarrow> bool" where
  "is_bool (VBool _) = True" | "is_bool _ = False"

text \<open>The items a \<open>for\<close> loop over the value visits; only sequences and dictionaries iterate.\<close>

fun items_of :: "pyval \<Rightarrow> pyval list" where
  "items_of (VList xs) = xs"
| "items_of (VTuple xs) = xs"
| "items_of (VDict d) = map (\<lambda>p. VStr (fst p)) d"
| "items_of (VStr s) = map (\<lambda>c. VStr [c]) s"
| "items_of _ = []"

text \<open>The same where other values raise.\<close>

fun py_iter :: "pyval \<Rightarrow> pyval list result" where
  "py_iter (VList xs) = Inr xs"
| "py_iter (VTuple xs) = Inr xs"
| "py_iter (VDict d) = Inr (map (\<lambda>p. VStr (fst p)) d)"
| "py_iter (VStr s) = Inr (map (\<lambda>c. VStr [c]) s)"
| "py_iter _ = Inl (TypeError ''object is not iterable'')"

fun dict_of :: "pyval \<Rightarrow> pydict" where
  "dict_of (VDict d) = d"
| "dict_of _ = []"

text \<open>Keys outside the allowed set, as \<open>sorted(set(value).difference(allowed))\<close> finds them.\<close>

definition unknown_keys :: "pydict \<Rightarrow> string list \<Rightarrow> string list" where
  "unknown_keys d allowed = sort (filter (\<lambda>k. k \<notin> set allowed) (dict_fromkeys (dict_keys d)))"

lemma unknown_keys_empty: "unknown_keys d allowed = [] \<longleftrightarrow> set (dict_keys d) \<subseteq> set allowed"
proof -
  have "unknown_keys d allowed = [] \<longleftrightarrow> set (unknown_keys d allowed) = {}" by simp
  also have "\<dots> \<longleftrightarrow> set (dict_keys d) \<subseteq> set allowed"
    by (auto simp: unknown_keys_def simp del: set_empty)
  finally show ?thesis .
qed

section \<open>Facts about the string functions\<close>

lemma py_strip_no_outer_space:
  assumes "py_strip s = c # cs"
  shows "\<not> py_isspace c"
proof
  assume c: "py_isspace c"
  let ?t = "dropWhile py_isspace s"
  have "\<exists>ws. ?t = py_strip s @ ws"
    unfolding py_strip_def
    by (metis rev_append rev_rev_ident takeWhile_dropWhile_id)
  then obtain ws where "?t = c # cs @ ws" using assms by auto
  then have "\<not> py_isspace (hd ?t)" by (metis hd_dropWhile list.distinct(1))
  with \<open>?t = c # cs @ ws\<close> c show False by simp
qed

lemma split_on_not_Nil [simp]: "split_on sep s \<noteq> []"
  by (induction sep s rule: split_on.induct) (auto split: list.splits)

lemma join_split_on: "join_with [sep] (split_on sep s) = s"
proof (induction sep s rule: split_on.induct)
  case (2 sep c cs)
  obtain w ws where w: "split_on sep cs = w # ws" by (cases "split_on sep cs") auto
  show ?case
  proof (cases "c = sep")
    case True
    with 2 w show ?thesis by simp
  next
    case False
    with 2 have "join_with [sep] (w # ws) = cs" by (simp add: w)
    with False w show ?thesis by (cases ws) auto
  qed
qed simp

lemma starts_with_append: "starts_with (p @ s) p"
  by (induction p) auto

lemma starts_with_iff: "starts_with s p \<longleftrightarrow> (\<exists>t. s = p @ t)"
  by (induction s p rule: starts_with.induct) auto

lemma py_eq_refl_simple [simp]: "py_eq VNone VNone" "py_eq (VStr s) (VStr s)" "py_eq (VInt i) (VInt i)"
  by auto

section \<open>Decimal rendering\<close>

lemma digit_char_val: "d < 10 \<Longrightarrow> is_digit (digit_char d) \<and> digit_val (digit_char d) = d"
proof -
  have "list_all (\<lambda>d. is_digit (digit_char d) \<and> digit_val (digit_char d) = d) [0..<10]" by code_simp
  then show "d < 10 \<Longrightarrow> is_digit (digit_char d) \<and> digit_val (digit_char d) = d"
    by (simp add: list_all_iff)
qed

lemma nat_str_digits: "list_all is_digit (nat_str n)"
  by (induction n rule: nat_str.induct) (subst nat_str.simps, simp add: digit_char_val)

lemma digits_val_aux_append: "digits_val_aux acc (a @ b) = digits_val_aux (digits_val_aux acc a) b"
  by (induction a arbitrary: acc) simp_all

lemma digits_val_nat_str: "digits_val (nat_str n) = n"
proof (induction n rule: nat_str.induct)
  case (1 n)
  then show ?case
    by (subst nat_str.simps) (simp add: digits_val_def digits_val_aux_append digit_char_val)
qed

text \<open>Zero-padded decimals (the format \<open>f"{n:06d}"\<close>) keep the number apart.\<close>

definition padded :: "nat \<Rightarrow> nat \<Rightarrow> string" where
  "padded width n = replicate (width - length (nat_str n)) (CHR ''0'') @ nat_str n"

lemma digits_val_zeros: "digits_val (replicate k (CHR ''0'') @ s) = digits_val s"
proof -
  have "digits_val_aux 0 (replicate k (CHR ''0'')) = 0"
    by (induction k) (simp_all add: digit_val_def code_point_def)
  then show ?thesis by (simp add: digits_val_def digits_val_aux_append)
qed

lemma padded_inj: "padded w i = padded w j \<Longrightarrow> i = j"
  using digits_val_zeros digits_val_nat_str unfolding padded_def by metis

lemma padded_digits: "list_all is_digit (padded w n)"
proof -
  have "is_digit (CHR ''0'')" by code_simp
  with nat_str_digits [of n] show ?thesis by (auto simp: padded_def list_all_iff)
qed

lemma digit_suffix_unique:
  assumes "a @ c # p = b @ c # q" and "list_all P p" and "list_all P q" and "\<not> P c"
  shows "a = b \<and> p = q"
proof -
  have "takeWhile P (rev (x @ c # p)) = rev p" if "list_all P p" for x p
    using that assms(4) by (simp, subst takeWhile_append2) (auto simp: list_all_iff)
  from this [OF assms(2), of a] this [OF assms(3), of b] assms(1) have "p = q" by simp
  with assms(1) show ?thesis by simp
qed

end
