(* ===== verification/Operations.thy ===== *)
theory Operations
  imports PyValue
begin

text \<open>
  \<open>core/operations.py\<close>: the kinds of logical operations, the column contracts, the property
  table of each kind, and the operation record that plans are made of.
\<close>

datatype operation_kind =
    FILTER | TYPE_CAST | ADD_CALC | REFERENCE_REPLACE | LIST_RESTORE | EXPAND_LIST_ROWS
  | COMPACT_LIST_ROWS | BUILD_SIDECAR | ACTIVE_ROW_SELECTION | MATERIALIZE | SORT_FIRST
  | PROJECTION | INCLUDE_COLUMNS | EXCLUDE_COLUMNS | RENAME_COLUMNS | DATA_ASSERTION
  | UNPIVOT | UNNEST | PIVOT | JOIN | WRITE_DATASET | PARTITION_WRITE

fun kind_value :: "operation_kind \<Rightarrow> string" where
  "kind_value FILTER = ''filter''"
| "kind_value TYPE_CAST = ''type_cast''"
| "kind_value ADD_CALC = ''add_calc''"
| "kind_value REFERENCE_REPLACE = ''reference_replace''"
| "kind_value LIST_RESTORE = ''list_restore''"
| "kind_value EXPAND_LIST_ROWS = ''expand_list_rows''"
| "kind_value COMPACT_LIST_ROWS = ''compact_list_rows''"
| "kind_value BUILD_SIDECAR = ''build_sidecar''"
| "kind_value ACTIVE_ROW_SELECTION = ''active_row_selection''"
| "kind_value MATERIALIZE = ''materialize''"
| "kind_value SORT_FIRST = ''sort_first''"
| "kind_value PROJECTION = ''projection''"
| "kind_value INCLUDE_COLUMNS = ''include_columns''"
| "kind_value EXCLUDE_COLUMNS = ''exclude_columns''"
| "kind_value RENAME_COLUMNS = ''rename_columns''"
| "kind_value DATA_ASSERTION = ''data_assertion''"
| "kind_value UNPIVOT = ''unpivot''"
| "kind_value UNNEST = ''unnest''"
| "kind_value PIVOT = ''pivot''"
| "kind_value JOIN = ''join''"
| "kind_value WRITE_DATASET = ''write_dataset''"
| "kind_value PARTITION_WRITE = ''partition_write''"

datatype cardinality_effect = PRESERVE | REDUCE | EXPAND_OR_REDUCE | MANY_TO_MANY

datatype missing_column_policy = MISSING_ERROR | INSERT_NULL

datatype null_semantics = PROPAGATE | THREE_VALUED_FILTER | GROUP_KEY | OP_DEFINED

record column_contract =
  col_name :: string
  col_dtype :: pyval
  col_nullable :: pyval
  col_missing_policy :: missing_column_policy

text \<open>The constructor with its \<open>__post_init__\<close> check.\<close>

definition ColumnContract :: "string \<Rightarrow> pyval \<Rightarrow> pyval \<Rightarrow> column_contract result" where
  "ColumnContract name dtype nullable =
     raise_if (py_strip name = []) (ValueError ''Column contract name must not be empty.'')
       (Inr \<lparr>col_name = name, col_dtype = dtype, col_nullable = nullable,
             col_missing_policy = MISSING_ERROR\<rparr>)"

record operation_properties =
  row_preserving :: bool
  prop_cardinality :: cardinality_effect
  deterministic :: bool
  order_sensitive :: bool
  schema_changing :: bool
  requires_complete_group :: bool
  side_effect :: bool
  pushdown_safe :: bool
  prop_total :: bool
  prop_nulls :: null_semantics
  error_semantics :: string
  backend_support :: "string list"
  pushdown_capabilities :: "string list"

text \<open>The dataclass defaults around the four required fields.\<close>

definition default_properties ::
  "bool \<Rightarrow> cardinality_effect \<Rightarrow> bool \<Rightarrow> bool \<Rightarrow> operation_properties" where
  "default_properties rp ce det ord =
     \<lparr>row_preserving = rp, prop_cardinality = ce, deterministic = det, order_sensitive = ord,
      schema_changing = False, requires_complete_group = False, side_effect = False,
      pushdown_safe = False, prop_total = True, prop_nulls = PROPAGATE,
      error_semantics = ''raise'', backend_support = [''rust''], pushdown_capabilities = []\<rparr>"

fun OPERATION_PROPERTIES :: "operation_kind \<Rightarrow> operation_properties" where
  "OPERATION_PROPERTIES FILTER =
     (default_properties False REDUCE True False)
       \<lparr>pushdown_safe := True, prop_nulls := THREE_VALUED_FILTER,
        pushdown_capabilities := [''source_projection'', ''predicate'']\<rparr>"
| "OPERATION_PROPERTIES TYPE_CAST =
     (default_properties True PRESERVE True False)
       \<lparr>schema_changing := True, prop_total := False,
        pushdown_capabilities := [''selector_expression'']\<rparr>"
| "OPERATION_PROPERTIES ADD_CALC =
     (default_properties True PRESERVE True False)
       \<lparr>schema_changing := True, pushdown_capabilities := [''selector_expression'']\<rparr>"
| "OPERATION_PROPERTIES REFERENCE_REPLACE =
     (default_properties True PRESERVE True False)
       \<lparr>schema_changing := True, prop_nulls := OP_DEFINED\<rparr>"
| "OPERATION_PROPERTIES LIST_RESTORE =
     (default_properties True PRESERVE True True)
       \<lparr>schema_changing := True, requires_complete_group := True\<rparr>"
| "OPERATION_PROPERTIES EXPAND_LIST_ROWS =
     (default_properties False EXPAND_OR_REDUCE True True)
       \<lparr>schema_changing := True, prop_nulls := OP_DEFINED\<rparr>"
| "OPERATION_PROPERTIES COMPACT_LIST_ROWS =
     (default_properties False EXPAND_OR_REDUCE True True)
       \<lparr>schema_changing := True, requires_complete_group := True, prop_nulls := OP_DEFINED\<rparr>"
| "OPERATION_PROPERTIES BUILD_SIDECAR =
     (default_properties True PRESERVE True False)
       \<lparr>side_effect := True,
        pushdown_capabilities := [''source_projection'', ''coordinate_index'']\<rparr>"
| "OPERATION_PROPERTIES SORT_FIRST =
     (default_properties False REDUCE True True)
       \<lparr>requires_complete_group := True, prop_nulls := GROUP_KEY\<rparr>"
| "OPERATION_PROPERTIES ACTIVE_ROW_SELECTION =
     (default_properties False REDUCE True True)
       \<lparr>requires_complete_group := True, prop_nulls := GROUP_KEY,
        pushdown_capabilities := [''selector_expression'', ''coordinate_snapshot'']\<rparr>"
| "OPERATION_PROPERTIES MATERIALIZE =
     (default_properties True PRESERVE True True)
       \<lparr>requires_complete_group := True, side_effect := True,
        pushdown_capabilities := [''coordinate_snapshot'', ''selective_payload_read'']\<rparr>"
| "OPERATION_PROPERTIES PROJECTION =
     (default_properties True PRESERVE True False)
       \<lparr>schema_changing := True, pushdown_safe := True,
        pushdown_capabilities := [''source_projection'']\<rparr>"
| "OPERATION_PROPERTIES INCLUDE_COLUMNS =
     (default_properties True PRESERVE True False)
       \<lparr>schema_changing := True, pushdown_safe := True,
        pushdown_capabilities := [''source_projection'']\<rparr>"
| "OPERATION_PROPERTIES EXCLUDE_COLUMNS =
     (default_properties True PRESERVE True False)
       \<lparr>schema_changing := True, pushdown_safe := True,
        pushdown_capabilities := [''source_projection'']\<rparr>"
| "OPERATION_PROPERTIES RENAME_COLUMNS =
     (default_properties True PRESERVE True False)\<lparr>schema_changing := True\<rparr>"
| "OPERATION_PROPERTIES DATA_ASSERTION =
     (default_properties True PRESERVE True False)
       \<lparr>requires_complete_group := True, prop_nulls := OP_DEFINED\<rparr>"
| "OPERATION_PROPERTIES UNPIVOT =
     (default_properties False EXPAND_OR_REDUCE True True)
       \<lparr>schema_changing := True, requires_complete_group := False, prop_nulls := OP_DEFINED\<rparr>"
| "OPERATION_PROPERTIES UNNEST =
     (default_properties False EXPAND_OR_REDUCE True True)
       \<lparr>schema_changing := True, prop_nulls := OP_DEFINED\<rparr>"
| "OPERATION_PROPERTIES PIVOT =
     (default_properties False EXPAND_OR_REDUCE True True)
       \<lparr>schema_changing := True, requires_complete_group := True, prop_nulls := OP_DEFINED\<rparr>"
| "OPERATION_PROPERTIES JOIN =
     (default_properties False MANY_TO_MANY True False)
       \<lparr>schema_changing := True, requires_complete_group := True, prop_nulls := OP_DEFINED\<rparr>"
| "OPERATION_PROPERTIES PARTITION_WRITE =
     (default_properties True PRESERVE True False)\<lparr>side_effect := True\<rparr>"
| "OPERATION_PROPERTIES WRITE_DATASET =
     (default_properties True PRESERVE True False)\<lparr>side_effect := True\<rparr>"

text \<open>
  \<open>alias_lineage\<close> is a dictionary from an alias to its direct source columns; the configuration
  is the operation's part of the YAML document.
\<close>

record operation_spec =
  op_id :: string
  op_kind :: operation_kind
  op_config :: pydict
  op_inputs :: "string list"
  op_input_contracts :: "column_contract list"
  op_outputs :: "column_contract list"
  op_lineage :: "(string \<times> string list) list"
  op_group_keys :: "string list"
  op_partition_keys :: "string list"
  op_ordering :: "(string \<times> string) list"
  op_props :: operation_properties

definition strs :: "string list \<Rightarrow> pyval" where
  "strs xs = VTuple (map VStr xs)"

fun cardinality_value :: "cardinality_effect \<Rightarrow> string" where
  "cardinality_value PRESERVE = ''preserve''"
| "cardinality_value REDUCE = ''reduce''"
| "cardinality_value EXPAND_OR_REDUCE = ''expand_or_reduce''"
| "cardinality_value MANY_TO_MANY = ''many_to_many''"

fun missing_policy_value :: "missing_column_policy \<Rightarrow> string" where
  "missing_policy_value MISSING_ERROR = ''error''"
| "missing_policy_value INSERT_NULL = ''insert_null''"

fun null_semantics_value :: "null_semantics \<Rightarrow> string" where
  "null_semantics_value PROPAGATE = ''propagate''"
| "null_semantics_value THREE_VALUED_FILTER = ''three_valued_filter''"
| "null_semantics_value GROUP_KEY = ''group_key''"
| "null_semantics_value OP_DEFINED = ''op_defined''"

definition contract_to_dict :: "column_contract \<Rightarrow> pyval" where
  "contract_to_dict c = VDict
     [(''name'', VStr (col_name c)), (''dtype'', col_dtype c), (''nullable'', col_nullable c),
      (''missing_policy'', VStr (missing_policy_value (col_missing_policy c)))]"

definition properties_to_dict :: "operation_properties \<Rightarrow> pyval" where
  "properties_to_dict p = VDict
     [(''row_preserving'', VBool (row_preserving p)),
      (''cardinality_effect'', VStr (cardinality_value (prop_cardinality p))),
      (''deterministic'', VBool (deterministic p)),
      (''order_sensitive'', VBool (order_sensitive p)),
      (''schema_changing'', VBool (schema_changing p)),
      (''requires_complete_group'', VBool (requires_complete_group p)),
      (''side_effect'', VBool (side_effect p)),
      (''pushdown_safe'', VBool (pushdown_safe p)),
      (''total'', VBool (prop_total p)),
      (''null_semantics'', VStr (null_semantics_value (prop_nulls p))),
      (''error_semantics'', VStr (error_semantics p)),
      (''backend_support'', strs (backend_support p)),
      (''pushdown_capabilities'', strs (pushdown_capabilities p))]"

text \<open>\<open>asdict\<close> of the operation; an enum member is represented by its string value.\<close>

definition operation_to_dict :: "operation_spec \<Rightarrow> pyval" where
  "operation_to_dict op = VDict
     [(''operation_id'', VStr (op_id op)),
      (''kind'', VStr (kind_value (op_kind op))),
      (''config'', VDict (op_config op)),
      (''input_columns'', strs (op_inputs op)),
      (''input_contracts'', VTuple (map contract_to_dict (op_input_contracts op))),
      (''output_columns'', VTuple (map contract_to_dict (op_outputs op))),
      (''alias_lineage'', VDict (map (\<lambda>(a, cs). (a, strs cs)) (op_lineage op))),
      (''group_keys'', strs (op_group_keys op)),
      (''partition_keys'', strs (op_partition_keys op)),
      (''ordering'', VTuple (map (\<lambda>(c, d). strs [c, d]) (op_ordering op))),
      (''properties'', properties_to_dict (op_props op))]"

definition output_names :: "operation_spec \<Rightarrow> string list" where
  "output_names op = map col_name (op_outputs op)"

lemma kind_value_inj: "kind_value a = kind_value b \<Longrightarrow> a = b"
  by (cases a; cases b) simp_all

lemma strs_inj [simp]: "strs xs = strs ys \<longleftrightarrow> xs = ys"
  by (auto simp: strs_def inj_map_eq_map inj_on_def)

lemma contract_to_dict_inj: "contract_to_dict a = contract_to_dict b \<Longrightarrow> a = b"
  by (cases a; cases b; cases "col_missing_policy a"; cases "col_missing_policy b")
    (auto simp: contract_to_dict_def)

lemma map_contract_to_dict_inj: "map contract_to_dict xs = map contract_to_dict ys \<Longrightarrow> xs = ys"
  by (rule map_injective [where f = contract_to_dict]) (auto intro: injI contract_to_dict_inj)

text \<open>The rendering of an operation determines it up to its property record.\<close>

lemma operation_to_dict_fields:
  assumes "operation_to_dict a = operation_to_dict b"
  shows "op_id a = op_id b" "op_kind a = op_kind b" "op_config a = op_config b"
    "op_inputs a = op_inputs b" "op_outputs a = op_outputs b"
  using assms
  by (auto simp: operation_to_dict_def intro: kind_value_inj map_contract_to_dict_inj)

text \<open>
  The property table is consistent: what preserves its rows never changes the cardinality, no
  kind is nondeterministic, and only the write kinds and the two phase barriers have effects.
\<close>

lemma properties_row_preserving:
  "row_preserving (OPERATION_PROPERTIES k) \<longleftrightarrow> prop_cardinality (OPERATION_PROPERTIES k) = PRESERVE"
  by (cases k) (simp_all add: default_properties_def)

lemma properties_deterministic [simp]: "deterministic (OPERATION_PROPERTIES k)"
  by (cases k) (simp_all add: default_properties_def)

lemma properties_side_effect:
  "side_effect (OPERATION_PROPERTIES k) \<longleftrightarrow>
     k \<in> {BUILD_SIDECAR, MATERIALIZE, PARTITION_WRITE, WRITE_DATASET}"
  by (cases k) (simp_all add: default_properties_def)

lemma properties_not_total: "\<not> prop_total (OPERATION_PROPERTIES k) \<longleftrightarrow> k = TYPE_CAST"
  by (cases k) (simp_all add: default_properties_def)

end
