(* ===== verification/YamlShape.thy ===== *)
theory YamlShape
  imports Operations
begin

text \<open>
  The document validators of \<open>core/logical_plan.py\<close>: typed access to YAML values and the shape
  checks of the 0201 and 0301 documents. The path arguments of the Python functions only feed
  messages and are dropped. A loop over a value that Python cannot iterate is a TypeError.
\<close>

section \<open>Typed access\<close>

definition lp_mapping :: "pyval \<Rightarrow> bool \<Rightarrow> pydict result" where
  "lp_mapping value allow_missing =
     (if value = VNone \<and> allow_missing then Inr []
      else case value of VDict d \<Rightarrow> Inr d | _ \<Rightarrow> Inl (ValidationError ''yaml.invalid_type''))"

definition lp_string_tuple :: "pyval \<Rightarrow> string list result" where
  "lp_string_tuple value =
     (if \<not> is_sequence value \<or> items_of value = []
         \<or> \<not> list_all (\<lambda>item. py_strip (py_str item) \<noteq> []) (items_of value)
      then Inl (ValidationError ''yaml.invalid_type'')
      else Inr (map py_str (items_of value)))"

definition lp_optional_string_tuple :: "pyval \<Rightarrow> string list result" where
  "lp_optional_string_tuple value =
     (if value = VNone then Inr []
      else if \<not> is_sequence value
         \<or> \<not> list_all (\<lambda>item. py_strip (py_str item) \<noteq> []) (items_of value)
      then Inl (ValidationError ''yaml.invalid_type'')
      else Inr (map py_str (items_of value)))"

definition sort_directions :: "string list" where
  "sort_directions = [''asc'', ''desc'']"

definition lp_ordering_item :: "pyval \<Rightarrow> (string \<times> string) result" where
  "lp_ordering_item item =
     res_bind (lp_mapping item False) (\<lambda>mapping.
       let column = py_strip (str_or (get_key mapping ''column'') []);
           direction = py_lower (str_or (get_key mapping ''direction'') ''asc'')
       in raise_if (column = [] \<or> direction \<notin> set sort_directions)
            (ValidationError ''yaml.invalid_sort'') (Inr (column, direction)))"

definition lp_ordering :: "pyval \<Rightarrow> (string \<times> string) list result" where
  "lp_ordering value =
     raise_if (\<not> is_list value \<or> items_of value = []) (ValidationError ''yaml.invalid_type'')
       (res_map lp_ordering_item (items_of value))"

definition lp_reject_unknown :: "pydict \<Rightarrow> string list \<Rightarrow> unit result" where
  "lp_reject_unknown d allowed =
     raise_if (unknown_keys d allowed \<noteq> []) (ValidationError ''yaml.unknown_key'') (Inr ())"

definition lp_validate_mapping_items :: "pyval \<Rightarrow> string list \<Rightarrow> unit result" where
  "lp_validate_mapping_items value allowed =
     (if value = VNone then Inr ()
      else raise_if (\<not> is_list value) (ValidationError ''yaml.invalid_type'')
        (res_bind
           (res_map (\<lambda>item. res_bind (lp_mapping item False) (\<lambda>m. lp_reject_unknown m allowed))
              (items_of value))
           (\<lambda>_. Inr ())))"

definition lp_require_bool :: "pyval \<Rightarrow> bool result" where
  "lp_require_bool value =
     (case value of VBool b \<Rightarrow> Inr b | _ \<Rightarrow> Inl (ValidationError ''yaml.invalid_type''))"

text \<open>\<open>isinstance(v, int) and not isinstance(v, bool) and v >= 1\<close>.\<close>

fun is_positive_int :: "pyval \<Rightarrow> bool" where
  "is_positive_int (VInt i) = (1 \<le> i)"
| "is_positive_int _ = False"

section \<open>Sections common to both documents\<close>

definition execution_keys :: "string list" where
  "execution_keys =
     [''workers'', ''max_tasks_per_child'', ''target_rows_per_part'', ''target_key_groups_per_part'',
      ''memory'', ''max_source_files_per_task'', ''max_source_row_groups_per_task'',
      ''optimizer_enabled'', ''output_row_group_rows'', ''reset_before_run'', ''test_run'',
      ''sidecar_workers'', ''candidate_workers'', ''bucketize_workers'',
      ''active_selection_workers'', ''sidecar_worker_recycle_mode'',
      ''sidecar_max_source_files'', ''sidecar_max_projected_bytes_mb'']"

definition validate_common_sections :: "pydict \<Rightarrow> unit result" where
  "validate_common_sections raw =
     res_bind (lp_mapping (get_key raw ''job'') False) (\<lambda>job.
     res_bind (lp_reject_unknown job [''name'']) (\<lambda>_.
     res_bind (lp_mapping (get_key raw ''execution'') True) (\<lambda>execution.
     res_bind (lp_reject_unknown execution execution_keys) (\<lambda>_.
       (let test_run = get_key execution ''test_run'' in
        if test_run = VNone then Inr ()
        else res_bind (lp_mapping test_run False) (\<lambda>tr.
             res_bind (lp_reject_unknown tr [''final_task_limit'']) (\<lambda>_.
               raise_if (\<not> is_positive_int (get_key tr ''final_task_limit''))
                 (ValidationError ''yaml.invalid_type'') (Inr ()))))))))"

definition validate_upstream :: "pyval \<Rightarrow> unit result" where
  "validate_upstream value =
     res_bind (lp_mapping value False) (\<lambda>upstream.
     res_bind (lp_reject_unknown upstream
                 [''paths'', ''recursive'', ''metadata_paths'', ''probe_manifest'', ''remote'']) (\<lambda>_.
     res_bind (lp_mapping (get_key upstream ''remote'') True) (\<lambda>remote.
       lp_reject_unknown remote [''target'', ''dataset_prefix'', ''relative_paths'', ''recursive''])))"

definition validate_join_source :: "pyval \<Rightarrow> bool \<Rightarrow> unit result" where
  "validate_join_source value require_name =
     res_bind (lp_mapping value False) (\<lambda>source.
     res_bind (lp_reject_unknown source
                 ([''upstream'', ''columns'', ''join'', ''suffix'', ''keyspace'']
                  @ (if require_name then [''name''] else []))) (\<lambda>_.
     res_bind (validate_upstream (get_key source ''upstream'')) (\<lambda>_.
     res_bind (lp_mapping (get_key source ''columns'') True) (\<lambda>columns.
     res_bind (lp_reject_unknown columns [''include'', ''exclude'', ''regex'', ''exclude_regex'']) (\<lambda>_.
     res_bind (lp_mapping (get_key source ''join'') True) (\<lambda>source_join.
       lp_reject_unknown source_join [''left_on'', ''right_on'', ''how'']))))))"

section \<open>The 0201 document\<close>

definition validate_0201_source :: "pydict \<Rightarrow> unit result" where
  "validate_0201_source raw =
     res_bind (lp_mapping (get_key raw ''source'') False) (\<lambda>source.
     res_bind (lp_reject_unknown source [''upstream'', ''payload'']) (\<lambda>_.
     res_bind (validate_upstream (get_key source ''upstream'')) (\<lambda>_.
     res_bind (lp_mapping (get_key source ''payload'') True) (\<lambda>payload.
     res_bind (lp_reject_unknown payload
                 [''filter_sql'', ''type_casts'', ''add_calc'', ''reference_replace'',
                  ''include_columns'', ''exclude_columns'', ''pre_pivot_operations'',
                  ''post_operations'', ''final_post_projection'', ''dataset_assertions'']) (\<lambda>_.
     res_bind (lp_validate_mapping_items (get_key payload ''type_casts'')
                 [''name'', ''type'', ''failure_policy'']) (\<lambda>_.
     res_bind (lp_validate_mapping_items (get_key payload ''add_calc'')
                 [''name'', ''sql'', ''spotfire_expression'']) (\<lambda>_.
       (let rr = get_key payload ''reference_replace'';
            reference_replace = (if is_dict rr then VList [rr] else rr)
        in lp_validate_mapping_items reference_replace
             [''enabled'', ''reference_parquet'', ''source_column'', ''reference_input_column'',
              ''reference_output_column'', ''output_column'', ''missing_policy'',
              ''duplicate_policy'']))))))))"

definition validate_0201_row_selection :: "pydict \<Rightarrow> unit result" where
  "validate_0201_row_selection raw =
     res_bind (lp_mapping (get_key raw ''row_selection'') True) (\<lambda>row_selection.
     res_bind (lp_reject_unknown row_selection [''sort_first'']) (\<lambda>_.
     res_bind (lp_mapping (get_key row_selection ''sort_first'') True) (\<lambda>sort_first.
     res_bind (lp_reject_unknown sort_first
                 [''enabled'', ''operation_id'', ''group_keys'', ''sort'', ''expression_ir'',
                  ''payload'', ''tie_policy'']) (\<lambda>_.
     res_bind
       (let group_keys = get_key sort_first ''group_keys'' in
        if py_truthy group_keys
        then res_bind (py_iter group_keys) (\<lambda>items.
               if list_all is_dict items
               then lp_validate_mapping_items group_keys
                      [''name'', ''column'', ''sql'', ''spotfire_expression'']
               else Inr ())
        else Inr ()) (\<lambda>_.
       lp_validate_mapping_items (get_key sort_first ''sort'') [''column'', ''direction'', ''nulls''])))))"

definition validate_0201_list_restore :: "pydict \<Rightarrow> unit result" where
  "validate_0201_list_restore raw =
     res_bind (lp_mapping (get_key raw ''list_restore'') True) (\<lambda>list_restore.
     res_bind (lp_reject_unknown list_restore
                 [''enabled'', ''lookup_path'', ''schema'', ''config'', ''batch_size'',
                  ''drop_cache_hint'', ''print_timing'']) (\<lambda>_.
       if list_restore = [] then Inr ()
       else res_bind (lp_mapping (get_key list_restore ''config'') True) (\<lambda>config.
              lp_reject_unknown config
                [''key_column'', ''order_column'', ''value_columns'', ''source_coord_columns'',
                 ''lookup_coord_columns''])))"

definition pivot_value_key_fields :: "string list" where
  "pivot_value_key_fields =
     [''name'', ''source_column'', ''aggregation'', ''output_dtype'', ''column_name_rule'']"

definition validate_0201_pivot :: "pydict \<Rightarrow> unit result" where
  "validate_0201_pivot raw =
     res_bind (lp_mapping (get_key raw ''pivot'') True) (\<lambda>pivot.
     res_bind (lp_reject_unknown pivot
                 [''enabled'', ''row_keys'', ''column_keys'', ''value_keys'',
                  ''value_keys_without_column'', ''column_name_rule'', ''first_duplicate_policy'',
                  ''null_column_key_policy'', ''column_key_separator'']) (\<lambda>_.
     res_bind (if has_key pivot ''enabled''
               then lp_require_bool (get_key pivot ''enabled'') else Inr True) (\<lambda>_.
     res_bind (lp_validate_mapping_items (get_key pivot ''value_keys'') pivot_value_key_fields) (\<lambda>_.
       lp_validate_mapping_items (get_key pivot ''value_keys_without_column'')
         pivot_value_key_fields))))"

definition root_keys_0201 :: "string list" where
  "root_keys_0201 =
     [''preset'', ''job'', ''execution'', ''source'', ''row_selection'', ''pivot'',
      ''list_restore'', ''output'', ''__pipeline'']"

definition validate_0201_yaml_shape :: "pydict \<Rightarrow> unit result" where
  "validate_0201_yaml_shape raw =
     res_bind (lp_reject_unknown raw root_keys_0201) (\<lambda>_.
     res_bind (validate_common_sections raw) (\<lambda>_.
     res_bind (validate_0201_source raw) (\<lambda>_.
     res_bind (validate_0201_row_selection raw) (\<lambda>_.
     res_bind (validate_0201_list_restore raw) (\<lambda>_.
     res_bind (validate_0201_pivot raw) (\<lambda>_.
     res_bind (lp_mapping (get_key raw ''output'') False) (\<lambda>output.
       lp_reject_unknown output
         [''output_dir'', ''partition_column'', ''overwrite'', ''compression'', ''format'',
          ''sbdf'', ''physical_layout''])))))))"

section \<open>The 0301 document\<close>

definition validate_0301_yaml_shape :: "pydict \<Rightarrow> unit result" where
  "validate_0301_yaml_shape raw =
     res_bind (lp_reject_unknown raw
                 [''preset'', ''job'', ''execution'', ''left'', ''right'', ''right_sources'',
                  ''join'', ''output'', ''__pipeline'']) (\<lambda>_.
     res_bind (validate_common_sections raw) (\<lambda>_.
     res_bind (validate_join_source (get_key raw ''left'') False) (\<lambda>_.
       (let sources = get_key raw ''right_sources''; right = get_key raw ''right'' in
        raise_if (sources \<noteq> VNone \<and> right \<noteq> VNone) (ValidationError ''yaml.mutually_exclusive_keys'')
          (res_bind
             (if sources = VNone then validate_join_source right False
              else raise_if (\<not> is_list sources \<or> items_of sources = [])
                     (ValidationError ''yaml.invalid_type'')
                     (res_bind (res_map (\<lambda>s. validate_join_source s True) (items_of sources))
                        (\<lambda>_. Inr ()))) (\<lambda>_.
           res_bind (lp_mapping (get_key raw ''join'') False) (\<lambda>join.
           res_bind (lp_reject_unknown join
                       [''left_on'', ''right_on'', ''how'', ''suffix'',
                        ''left_partition_key_column'', ''right_partition_key_column'']) (\<lambda>_.
           res_bind (lp_mapping (get_key raw ''output'') False) (\<lambda>output.
             lp_reject_unknown output
               [''output_dir'', ''partition_column'', ''overwrite'', ''compression'',
                ''physical_layout''])))))))))"

section \<open>What a successful validation guarantees\<close>

lemma lp_mapping_Inr [res_simps]:
  "lp_mapping v allow = Inr d \<longleftrightarrow> (allow \<and> v = VNone \<and> d = []) \<or> v = VDict d"
  by (cases v) (auto simp: lp_mapping_def)

lemma lp_reject_unknown_Inr [res_simps]:
  "lp_reject_unknown d allowed = Inr u \<longleftrightarrow> set (dict_keys d) \<subseteq> set allowed"
  by (auto simp: lp_reject_unknown_def res_simps unknown_keys_empty)

lemma lp_string_tuple_Inr:
  "lp_string_tuple v = Inr ss \<Longrightarrow>
     ss \<noteq> [] \<and> (\<forall>s\<in>set ss. py_strip s \<noteq> []) \<and> ss = map py_str (items_of v)"
  by (auto simp: lp_string_tuple_def list_all_iff split: if_splits)

lemma lp_ordering_item_Inr:
  "lp_ordering_item x = Inr (c, d) \<Longrightarrow> c \<noteq> [] \<and> d \<in> set sort_directions"
  unfolding lp_ordering_item_def Let_def
  by (simp only: res_bind_eq_Inr raise_if_eq_Inr sum.inject prod.inject) blast

lemma lp_ordering_Inr:
  assumes "lp_ordering v = Inr os"
  shows "os \<noteq> [] \<and> (\<forall>(c, d)\<in>set os. c \<noteq> [] \<and> d \<in> set sort_directions)"
proof -
  from assms have "items_of v \<noteq> []" and os: "res_map lp_ordering_item (items_of v) = Inr os"
    by (simp_all add: lp_ordering_def raise_if_eq_Inr)
  then show ?thesis
    by (auto dest: res_map_output [OF os] lp_ordering_item_Inr res_map_length)
qed

lemma validate_mapping_items_Inr:
  assumes "lp_validate_mapping_items v allowed = Inr u"
  shows "v = VNone \<or> (\<exists>xs. v = VList xs \<and> (\<forall>x\<in>set xs. \<exists>d. x = VDict d \<and> set (dict_keys d) \<subseteq> set allowed))"
proof (cases "v = VNone")
  case False
  with assms obtain xs us where v: "v = VList xs"
    and us: "res_map (\<lambda>x. res_bind (lp_mapping x False) (\<lambda>m. lp_reject_unknown m allowed)) xs = Inr us"
    by (cases v) (auto simp: lp_validate_mapping_items_def res_bind_eq_Inr raise_if_eq_Inr)
  have "\<exists>d. x = VDict d \<and> set (dict_keys d) \<subseteq> set allowed" if "x \<in> set xs" for x
    using res_map_input [OF us that] by (auto simp: res_bind_eq_Inr lp_mapping_Inr lp_reject_unknown_Inr)
  with v show ?thesis by blast
qed simp

lemma validate_0201_keys:
  "validate_0201_yaml_shape raw = Inr u \<Longrightarrow> set (dict_keys raw) \<subseteq> set root_keys_0201"
  unfolding validate_0201_yaml_shape_def
  by (simp only: res_bind_eq_Inr lp_reject_unknown_Inr) blast

end
