(* ===== verification/LogicalPlan.thy ===== *)
theory LogicalPlan
  imports YamlShape
begin

text \<open>
  \<open>core/logical_plan.py\<close>: the logical plan record, the constructors of operations and plans,
  the columns an expression IR document and a SQL predicate mention, and the column lineage.
\<close>

record logical_operation_plan =
  lp_preset :: string
  lp_operations :: "operation_spec list"
  lp_lineage :: "(string \<times> string list) list"

section \<open>Columns of an expression IR document\<close>

text \<open>The visit order of the closures is the document order; the result is a set in the code.\<close>

fun ir_columns :: "pyval \<Rightarrow> string list" where
  "ir_columns (VDict d) =
     (if get_key d ''kind'' = VStr ''column'' \<and> py_truthy (get_key d ''name'')
      then [py_str (get_key d ''name'')] else [])
     @ concat (map (\<lambda>p. ir_columns (snd p)) d)"
| "ir_columns (VList xs) = concat (map ir_columns xs)"
| "ir_columns _ = []"

definition ir_input_columns :: "pyval \<Rightarrow> string list" where
  "ir_input_columns doc = sort (remdups (ir_columns doc))"

fun ir_contains_kind :: "pyval \<Rightarrow> string \<Rightarrow> bool" where
  "ir_contains_kind (VDict d) k =
     (get_key d ''kind'' = VStr k \<or> list_ex (\<lambda>p. ir_contains_kind (snd p) k) d)"
| "ir_contains_kind (VList xs) k = list_ex (\<lambda>x. ir_contains_kind x k) xs"
| "ir_contains_kind _ k = False"

definition lineage_of_expressions ::
  "pyval list \<Rightarrow> (string \<times> string list) list \<Rightarrow> (string \<times> string list) list" where
  "lineage_of_expressions exprs acc =
     fold (\<lambda>e acc. case e of
         VDict d \<Rightarrow>
           (let name = py_strip (str_or (get_key d ''name'') [])
            in if name = [] then acc
               else dict_put name (ir_input_columns (get_key d ''expr'')) acc)
       | _ \<Rightarrow> acc) exprs acc"

definition ir_expression_lineage :: "pyval \<Rightarrow> (string \<times> string list) list result" where
  "ir_expression_lineage doc =
     (case doc of
        VDict d \<Rightarrow>
          res_bind (py_iter (py_or (get_key d ''layers'') (VList []))) (\<lambda>layers.
            res_fold (\<lambda>layer acc. case layer of
                VDict l \<Rightarrow>
                  res_bind (py_iter (py_or (get_key l ''expressions'') (VList []))) (\<lambda>exprs.
                    Inr (lineage_of_expressions exprs acc))
              | _ \<Rightarrow> Inr acc) layers [])
      | _ \<Rightarrow> Inr [])"

section \<open>Columns of a SQL predicate\<close>

definition sql_keywords :: "string list" where
  "sql_keywords =
     [''and'', ''as'', ''between'', ''case'', ''cast'', ''else'', ''end'', ''false'', ''bigint'',
      ''boolean'', ''date'', ''double'', ''float'', ''in'', ''int'', ''integer'', ''is'', ''like'',
      ''not'', ''null'', ''or'', ''string'', ''text'', ''then'', ''timestamp'', ''true'',
      ''varchar'', ''when'']"

definition ident_start :: "char \<Rightarrow> bool" where
  "ident_start c = (let n = code_point c in
     (65 \<le> n \<and> n \<le> 90) \<or> (97 \<le> n \<and> n \<le> 122) \<or> n = 95)"

definition ident_char :: "char \<Rightarrow> bool" where
  "ident_char c = (ident_start c \<or> is_digit c)"

text \<open>The word characters of \<open>re\<close> (\<open>\w\<close>) below code point 256, for the word boundary.\<close>

definition py_isword :: "char \<Rightarrow> bool" where
  "py_isword c = (let n = code_point c in
     ident_char c \<or> n \<in> {170, 178, 179, 181, 185, 186, 188, 189, 190}
     \<or> (192 \<le> n \<and> n \<noteq> 215 \<and> n \<noteq> 247))"

text \<open>\<open>re.findall\<close> of a double quote, one or more other characters, a double quote.\<close>

function quoted_identifiers :: "string \<Rightarrow> string list" where
  "quoted_identifiers [] = []"
| "quoted_identifiers (c # cs) =
     (if c = CHR 0x22 \<and> takeWhile (\<lambda>x. x \<noteq> CHR 0x22) cs \<noteq> []
         \<and> dropWhile (\<lambda>x. x \<noteq> CHR 0x22) cs \<noteq> []
      then takeWhile (\<lambda>x. x \<noteq> CHR 0x22) cs
             # quoted_identifiers (tl (dropWhile (\<lambda>x. x \<noteq> CHR 0x22) cs))
      else quoted_identifiers cs)"
  by pat_completeness auto
termination
proof (relation "measure length", goal_cases)
  case (2 c cs)
  have "length (tl (dropWhile (\<lambda>x. x \<noteq> CHR 0x22) cs)) \<le> length cs"
    using length_dropWhile_le [of "\<lambda>x. x \<noteq> CHR 0x22" cs] by simp
  then show ?case by simp
qed simp_all

text \<open>\<open>re.sub\<close> of such quoted names by one space.\<close>

function blank_quoted :: "string \<Rightarrow> string" where
  "blank_quoted [] = []"
| "blank_quoted (c # cs) =
     (if c = CHR 0x22 \<and> takeWhile (\<lambda>x. x \<noteq> CHR 0x22) cs \<noteq> []
         \<and> dropWhile (\<lambda>x. x \<noteq> CHR 0x22) cs \<noteq> []
      then CHR '' '' # blank_quoted (tl (dropWhile (\<lambda>x. x \<noteq> CHR 0x22) cs))
      else c # blank_quoted cs)"
  by pat_completeness auto
termination
proof (relation "measure length", goal_cases)
  case (2 c cs)
  have "length (tl (dropWhile (\<lambda>x. x \<noteq> CHR 0x22) cs)) \<le> length cs"
    using length_dropWhile_le [of "\<lambda>x. x \<noteq> CHR 0x22" cs] by simp
  then show ?case by simp
qed simp_all

text \<open>
  The text after a single-quoted SQL string whose opening quote has been read: a doubled quote
  continues the string, and when the string then never closes the match backs up to close at
  the first quote of the last doubled pair, as the backtracking regex does.
\<close>

fun sql_string_rest :: "string \<Rightarrow> string option" where
  "sql_string_rest [] = None"
| "sql_string_rest (c # cs) =
     (if c \<noteq> CHR 0x27 then sql_string_rest cs
      else (case cs of
              [] \<Rightarrow> Some []
            | d # ds \<Rightarrow>
                if d = CHR 0x27
                then (case sql_string_rest ds of Some r \<Rightarrow> Some r | None \<Rightarrow> Some cs)
                else Some cs))"

lemma sql_string_rest_length: "sql_string_rest s = Some r \<Longrightarrow> length r < length s"
  by (induction s arbitrary: r rule: sql_string_rest.induct)
    (fastforce split: if_splits list.splits option.splits)+

function blank_sql_strings :: "string \<Rightarrow> string" where
  "blank_sql_strings [] = []"
| "blank_sql_strings (c # cs) =
     (if c = CHR 0x27
      then (case sql_string_rest cs of
              Some r \<Rightarrow> CHR '' '' # blank_sql_strings r
            | None \<Rightarrow> c # blank_sql_strings cs)
      else c # blank_sql_strings cs)"
  by pat_completeness auto
termination
  by (relation "measure length") (auto dest: sql_string_rest_length)

text \<open>The bare identifiers, each between word boundaries, that are no keyword and no call.\<close>

function bare_identifiers :: "bool \<Rightarrow> string \<Rightarrow> string list" where
  "bare_identifiers after_word [] = []"
| "bare_identifiers after_word (c # cs) =
     (let token = c # takeWhile ident_char cs; rest = dropWhile ident_char cs in
      if \<not> after_word \<and> ident_start c \<and> (rest = [] \<or> \<not> py_isword (hd rest))
      then (if py_lower token \<in> set sql_keywords \<or> starts_with (py_lstrip rest) ''(''
            then bare_identifiers True rest
            else token # bare_identifiers True rest)
      else bare_identifiers (py_isword c) cs)"
  by pat_completeness auto
termination
  by (relation "measure (length \<circ> snd)") (auto simp: less_Suc_eq_le length_dropWhile_le)

definition sql_identifier_columns :: "string \<Rightarrow> string list" where
  "sql_identifier_columns e =
     dict_fromkeys (quoted_identifiers e
       @ bare_identifiers False (blank_quoted (blank_sql_strings e)))"

section \<open>Operations and plans\<close>

definition plain_contracts :: "string list \<Rightarrow> column_contract list result" where
  "plain_contracts names = res_map (\<lambda>n. ColumnContract n VNone VNone) names"

definition mk_operation ::
  "string \<Rightarrow> operation_kind \<Rightarrow> pydict \<Rightarrow> string list \<Rightarrow> column_contract list
   \<Rightarrow> (string \<times> string list) list \<Rightarrow> string list \<Rightarrow> string list \<Rightarrow> (string \<times> string) list
   \<Rightarrow> operation_properties option \<Rightarrow> operation_spec result" where
  "mk_operation oid k cfg input_columns output_columns lineage group_keys partition_keys ord props =
     (let normalized_inputs = filter (\<lambda>n. n \<noteq> []) input_columns in
      res_bind (plain_contracts normalized_inputs) (\<lambda>contracts.
        Inr \<lparr>op_id = oid, op_kind = k, op_config = cfg, op_inputs = normalized_inputs,
             op_input_contracts = contracts, op_outputs = output_columns, op_lineage = lineage,
             op_group_keys = group_keys, op_partition_keys = partition_keys, op_ordering = ord,
             op_props = (case props of None \<Rightarrow> OPERATION_PROPERTIES k | Some p \<Rightarrow> p)\<rparr>))"

section \<open>Column lineage\<close>

text \<open>The roots of the direct sources, each once, in order of first appearance.\<close>

definition lineage_roots :: "(string \<times> string list) list \<Rightarrow> string list \<Rightarrow> string list" where
  "lineage_roots lineage direct =
     fold (\<lambda>source roots.
         fold (\<lambda>root roots. if root \<in> set roots then roots else roots @ [root])
           (case map_of lineage source of None \<Rightarrow> [source] | Some rs \<Rightarrow> rs) roots)
       direct []"

definition config_strings :: "pydict \<Rightarrow> string \<Rightarrow> string list" where
  "config_strings cfg k = map py_str (items_of (py_or (get_key cfg k) (VTuple [])))"

definition op_include :: "operation_spec \<Rightarrow> string list" where
  "op_include op = config_strings (op_config op) ''include''"

definition op_exclude :: "operation_spec \<Rightarrow> string list" where
  "op_exclude op = config_strings (op_config op) ''exclude''"

definition lineage_inputs :: "operation_spec \<Rightarrow> (string \<times> string list) list \<Rightarrow> (string \<times> string list) list" where
  "lineage_inputs op lineage = fold (\<lambda>n l. dict_setdefault n [n] l) (op_inputs op) lineage"

definition lineage_aliases :: "operation_spec \<Rightarrow> (string \<times> string list) list \<Rightarrow> (string \<times> string list) list" where
  "lineage_aliases op lineage =
     fold (\<lambda>(alias, direct) l. dict_put alias (lineage_roots l direct) l) (op_lineage op) lineage"

definition lineage_outputs :: "operation_spec \<Rightarrow> (string \<times> string list) list \<Rightarrow> (string \<times> string list) list" where
  "lineage_outputs op lineage =
     fold (\<lambda>out l.
         let direct = (case map_of (op_lineage op) (col_name out) of
                         Some d \<Rightarrow> d
                       | None \<Rightarrow> if map_of l (col_name out) \<noteq> None then [col_name out] else op_inputs op)
         in dict_put (col_name out) (lineage_roots l direct) l)
       (op_outputs op) lineage"

definition lineage_projection :: "operation_spec \<Rightarrow> (string \<times> string list) list \<Rightarrow> (string \<times> string list) list" where
  "lineage_projection op lineage =
     (if op_kind op = PROJECTION
      then (let inc = op_include op;
                exc = op_exclude op
            in if inc \<noteq> []
               then dict_of_pairs
                      (map (\<lambda>n. (n, case map_of lineage n of None \<Rightarrow> [n] | Some r \<Rightarrow> r))
                         (filter (\<lambda>n. n \<notin> set exc) inc))
               else if exc \<noteq> [] then filter (\<lambda>p. fst p \<notin> set exc) lineage
               else lineage)
      else lineage)"

definition lineage_step :: "operation_spec \<Rightarrow> (string \<times> string list) list \<Rightarrow> (string \<times> string list) list" where
  "lineage_step op lineage =
     lineage_projection op (lineage_outputs op (lineage_aliases op (lineage_inputs op lineage)))"

definition resolve_column_lineage :: "operation_spec list \<Rightarrow> (string \<times> string list) list" where
  "resolve_column_lineage operations = fold lineage_step operations []"

definition mk_plan :: "string \<Rightarrow> operation_spec list \<Rightarrow> logical_operation_plan result" where
  "mk_plan preset operations =
     raise_if (\<not> distinct (map op_id operations))
       (ValidationError ''logical_plan.duplicate_operation_id'')
       (Inr \<lparr>lp_preset = preset, lp_operations = operations,
             lp_lineage = resolve_column_lineage operations\<rparr>)"

section \<open>Facts about lineage\<close>

text \<open>Adding roots keeps the order, adds nothing twice and loses nothing.\<close>

lemma append_new_roots:
  "distinct acc \<Longrightarrow>
     distinct (fold (\<lambda>r rs. if r \<in> set rs then rs else rs @ [r]) new acc) \<and>
     set (fold (\<lambda>r rs. if r \<in> set rs then rs else rs @ [r]) new acc) = set acc \<union> set new"
  by (induction new arbitrary: acc) auto

definition roots_of :: "(string \<times> string list) list \<Rightarrow> string \<Rightarrow> string list" where
  "roots_of lineage source = (case map_of lineage source of None \<Rightarrow> [source] | Some rs \<Rightarrow> rs)"

lemma lineage_roots_props:
  "distinct (lineage_roots lineage direct) \<and>
   set (lineage_roots lineage direct) = (\<Union>s\<in>set direct. set (roots_of lineage s))"
proof -
  let ?f = "\<lambda>source roots. fold (\<lambda>r rs. if r \<in> set rs then rs else rs @ [r])
      (roots_of lineage source) roots"
  have "distinct acc \<Longrightarrow> distinct (fold ?f direct acc) \<and> set (fold ?f direct acc) = set acc \<union>
      (\<Union>s\<in>set direct. set (roots_of lineage s))" for acc
  proof (induction direct arbitrary: acc)
    case (Cons s direct)
    have "distinct (?f s acc)" and "set (?f s acc) = set acc \<union> set (roots_of lineage s)"
      using append_new_roots [OF Cons.prems] by blast+
    with Cons.IH [of "?f s acc"] show ?case by (simp add: Un_assoc)
  qed simp
  from this [of "[]"] show ?thesis by (simp add: lineage_roots_def roots_of_def)
qed

text \<open>
  The lineage invariant: a dictionary whose values list each root once, and every root is an
  input column or a declared source of some operation seen so far.
\<close>

definition lineage_ok :: "string set \<Rightarrow> (string \<times> string list) list \<Rightarrow> bool" where
  "lineage_ok R lineage =
     (dict_wf lineage \<and> (\<forall>p\<in>set lineage. distinct (snd p) \<and> set (snd p) \<subseteq> R))"

definition op_sources :: "operation_spec \<Rightarrow> string set" where
  "op_sources op = set (op_inputs op) \<union> (\<Union>(a, d)\<in>set (op_lineage op). set d)
     \<union> (if op_kind op = PROJECTION then set (op_include op) else {})"

lemma lineage_ok_put:
  "lineage_ok R l \<Longrightarrow> distinct rs \<Longrightarrow> set rs \<subseteq> R \<Longrightarrow> lineage_ok R (dict_put n rs l)"
  using set_dict_put [of n rs l] dict_wf_put [of l n rs] unfolding lineage_ok_def by fastforce

lemma lineage_ok_lookup: "lineage_ok R l \<Longrightarrow> map_of l n = Some rs \<Longrightarrow> distinct rs \<and> set rs \<subseteq> R"
  unfolding lineage_ok_def by (drule map_of_SomeD) fastforce

lemma lineage_ok_roots_of:
  assumes "lineage_ok R l"
  shows "set (roots_of l s) \<subseteq> insert s R \<and> distinct (roots_of l s)"
  using lineage_ok_lookup [OF assms, of s] by (cases "map_of l s") (auto simp: roots_of_def)

lemma lineage_ok_put_roots:
  assumes "lineage_ok R l" and "set direct \<subseteq> R"
  shows "lineage_ok R (dict_put n (lineage_roots l direct) l)"
proof (rule lineage_ok_put [OF assms(1)])
  show "distinct (lineage_roots l direct)" using lineage_roots_props by blast
  show "set (lineage_roots l direct) \<subseteq> R"
    using lineage_roots_props [of l direct] lineage_ok_roots_of [OF assms(1)] assms(2) by blast
qed

lemma lineage_ok_inputs:
  assumes "lineage_ok R l" and "set (op_inputs op) \<subseteq> R"
  shows "lineage_ok R (lineage_inputs op l)"
  unfolding lineage_inputs_def
proof (rule fold_keeps [where P = "lineage_ok R", OF assms(1)])
  fix n s assume "n \<in> set (op_inputs op)" and ok: "lineage_ok R s"
  then have "n \<in> R" using assms(2) by blast
  with ok show "lineage_ok R (dict_setdefault n [n] s)"
    by (cases "map_of s n") (simp_all add: dict_setdefault_def lineage_ok_put)
qed

lemma lineage_ok_aliases:
  assumes "lineage_ok R l" and src: "\<And>a d. (a, d) \<in> set (op_lineage op) \<Longrightarrow> set d \<subseteq> R"
  shows "lineage_ok R (lineage_aliases op l)"
  unfolding lineage_aliases_def
proof (rule fold_keeps [where P = "lineage_ok R", OF assms(1)])
  fix x s assume "x \<in> set (op_lineage op)" and "lineage_ok R s"
  then show "lineage_ok R ((case x of (alias, direct) \<Rightarrow> \<lambda>l. dict_put alias (lineage_roots l direct) l) s)"
    using src [of "fst x" "snd x"] by (simp add: case_prod_beta lineage_ok_put_roots)
qed

lemma lineage_ok_self:
  assumes "lineage_ok R s" and "map_of s n = Some rs"
  shows "lineage_ok R (dict_put n (lineage_roots s [n]) s)"
proof (rule lineage_ok_put [OF assms(1)])
  have "set (lineage_roots s [n]) = set rs"
    using lineage_roots_props [of s "[n]"] assms(2) by (simp add: roots_of_def)
  then show "set (lineage_roots s [n]) \<subseteq> R" using lineage_ok_lookup [OF assms] by simp
  show "distinct (lineage_roots s [n])" using lineage_roots_props by blast
qed

lemma lineage_ok_outputs:
  assumes "lineage_ok R l" and ins: "set (op_inputs op) \<subseteq> R"
    and src: "\<And>a d. (a, d) \<in> set (op_lineage op) \<Longrightarrow> set d \<subseteq> R"
  shows "lineage_ok R (lineage_outputs op l)"
  unfolding lineage_outputs_def Let_def
proof (rule fold_keeps [where P = "lineage_ok R", OF assms(1)])
  fix out s assume ok: "lineage_ok R s"
  show "lineage_ok R (dict_put (col_name out) (lineage_roots s
      (case map_of (op_lineage op) (col_name out) of
         None \<Rightarrow> if map_of s (col_name out) \<noteq> None then [col_name out] else op_inputs op
       | Some d \<Rightarrow> d)) s)"
  proof (cases "map_of (op_lineage op) (col_name out)")
    case None
    with ok ins show ?thesis
      by (cases "map_of s (col_name out)") (simp_all add: lineage_ok_self lineage_ok_put_roots)
  next
    case (Some d)
    then have "set d \<subseteq> R" using src map_of_SomeD by metis
    with Some ok show ?thesis by (simp add: lineage_ok_put_roots)
  qed
qed

lemma lineage_ok_restrict: "lineage_ok R l \<Longrightarrow> lineage_ok R (filter (\<lambda>p. fst p \<notin> E) l)"
  by (simp add: lineage_ok_def dict_wf_def distinct_map_filter)

lemma lineage_ok_select:
  assumes "lineage_ok R l" and "set ns \<subseteq> R"
  shows "lineage_ok R (dict_of_pairs (map (\<lambda>n. (n, case map_of l n of None \<Rightarrow> [n] | Some r \<Rightarrow> r)) ns))"
  unfolding dict_of_pairs_def
proof (rule fold_keeps [where P = "lineage_ok R"])
  show "lineage_ok R []" by (simp add: lineage_ok_def)
next
  fix x s
  assume "x \<in> set (map (\<lambda>n. (n, case map_of l n of None \<Rightarrow> [n] | Some r \<Rightarrow> r)) ns)"
    and ok: "lineage_ok R s"
  then obtain n where "n \<in> set ns" and x: "x = (n, roots_of l n)" by (auto simp: roots_of_def)
  with assms(2) have "n \<in> R" by blast
  then have "set (roots_of l n) \<subseteq> R" "distinct (roots_of l n)"
    using lineage_ok_roots_of [OF assms(1), of n] by blast+
  with ok x show "lineage_ok R ((case x of (k, v) \<Rightarrow> dict_put k v) s)"
    by (simp add: lineage_ok_put)
qed

lemma lineage_ok_projection:
  assumes "lineage_ok R l"
    and "op_kind op = PROJECTION \<Longrightarrow> set (op_include op) \<subseteq> R"
  shows "lineage_ok R (lineage_projection op l)"
proof -
  have "lineage_ok R (dict_of_pairs (map (\<lambda>n. (n, case map_of l n of None \<Rightarrow> [n] | Some r \<Rightarrow> r))
      (filter (\<lambda>n. n \<notin> set (op_exclude op)) (op_include op))))"
    if "op_kind op = PROJECTION"
    using assms(2) [OF that] by (intro lineage_ok_select [OF assms(1)]) auto
  then show ?thesis
    unfolding lineage_projection_def Let_def using assms(1) lineage_ok_restrict by presburger
qed

lemma lineage_ok_step:
  assumes "lineage_ok R l" and "op_sources op \<subseteq> R"
  shows "lineage_ok R (lineage_step op l)"
proof -
  have "set (op_inputs op) \<subseteq> R" "\<And>a d. (a, d) \<in> set (op_lineage op) \<Longrightarrow> set d \<subseteq> R"
    "op_kind op = PROJECTION \<Longrightarrow> set (op_include op) \<subseteq> R"
    using assms(2) unfolding op_sources_def by (blast, blast, simp)
  with assms(1) show ?thesis
    unfolding lineage_step_def
    by (intro lineage_ok_projection lineage_ok_outputs lineage_ok_aliases lineage_ok_inputs)
qed

lemma resolve_lineage_ok:
  "lineage_ok (\<Union>op\<in>set ops. op_sources op) (resolve_column_lineage ops)"
  unfolding resolve_column_lineage_def
  by (rule fold_keeps [where P = "lineage_ok _"]) (auto simp: lineage_ok_def [of _ "[]"] intro!: lineage_ok_step)

lemma mk_plan_Inr:
  "mk_plan preset ops = Inr p \<longleftrightarrow>
     distinct (map op_id ops) \<and>
     p = \<lparr>lp_preset = preset, lp_operations = ops, lp_lineage = resolve_column_lineage ops\<rparr>"
  unfolding mk_plan_def raise_if_eq_Inr by auto

lemma mk_operation_Inr:
  assumes "mk_operation oid k cfg ins outs lin gks pks ord props = Inr op"
  shows "op_id op = oid" "op_kind op = k" "op_config op = cfg" "op_outputs op = outs"
    "op_inputs op = filter (\<lambda>n. n \<noteq> []) ins" "op_lineage op = lin" "op_group_keys op = gks"
    "op_partition_keys op = pks" "op_ordering op = ord"
    "op_props op = (case props of None \<Rightarrow> OPERATION_PROPERTIES k | Some p \<Rightarrow> p)"
proof -
  from assms obtain contracts where op: "op = \<lparr>op_id = oid, op_kind = k, op_config = cfg,
      op_inputs = filter (\<lambda>n. n \<noteq> []) ins, op_input_contracts = contracts, op_outputs = outs,
      op_lineage = lin, op_group_keys = gks, op_partition_keys = pks, op_ordering = ord,
      op_props = (case props of None \<Rightarrow> OPERATION_PROPERTIES k | Some p \<Rightarrow> p)\<rparr>"
    unfolding mk_operation_def Let_def res_bind_eq_Inr sum.inject by blast
  show "op_id op = oid" "op_kind op = k" "op_config op = cfg" "op_outputs op = outs"
    "op_inputs op = filter (\<lambda>n. n \<noteq> []) ins" "op_lineage op = lin" "op_group_keys op = gks"
    "op_partition_keys op = pks" "op_ordering op = ord"
    "op_props op = (case props of None \<Rightarrow> OPERATION_PROPERTIES k | Some p \<Rightarrow> p)"
    unfolding op by simp_all
qed

end
