(* ===== verification/PlanCompiler.thy ===== *)
theory PlanCompiler
  imports LogicalPlan "HOL-Library.Sublist"
begin

text \<open>
  \<open>core/logical_plan.py\<close>: the compilers from a validated 0201 (curated) or 0301 (join) document
  to a logical operation plan. Each stage of the 0201 compiler is one function that returns no
  operation or one; the compiler runs them in the source's order.
\<close>

definition one_operation :: "operation_spec result \<Rightarrow> operation_spec list result" where
  "one_operation m = res_bind m (\<lambda>op. Inr [op])"

definition strings_at :: "pydict \<Rightarrow> string \<Rightarrow> string list result" where
  "strings_at d k =
     res_bind (py_iter (py_or (get_key d k) (VList []))) (\<lambda>xs. Inr (map py_str xs))"

section \<open>The stages of a 0201 plan\<close>

definition stage_filter :: "pydict \<Rightarrow> operation_spec list result" where
  "stage_filter payload =
     (let filter_sql = py_strip (str_or (get_key payload ''filter_sql'') []) in
      if filter_sql = [] then Inr []
      else one_operation (mk_operation ''filter'' FILTER [(''sql'', VStr filter_sql)]
             (sql_identifier_columns filter_sql) [] [] [] [] [] None))"

definition cast_contract :: "pydict \<Rightarrow> column_contract result" where
  "cast_contract item =
     (let t = str_or (get_key item ''type'') [] in
      ColumnContract (str_or (py_or (get_key item ''name'') (get_key item ''column'')) [])
        (if t = [] then VNone else VStr t) (VBool True))"

definition stage_casts :: "pydict \<Rightarrow> operation_spec list result" where
  "stage_casts payload =
     (let casts = py_or (get_key payload ''type_casts'') (VList []) in
      if \<not> py_truthy casts then Inr []
      else res_bind (py_iter casts) (\<lambda>items.
           res_bind (res_map cast_contract (map dict_of (filter is_dict items))) (\<lambda>outputs.
             one_operation (mk_operation ''type_cast'' TYPE_CAST [(''columns'', casts)]
               (map col_name outputs) outputs [] [] [] [] None))))"

definition window_calc_properties :: operation_properties where
  "window_calc_properties =
     (OPERATION_PROPERTIES ADD_CALC)
       \<lparr>order_sensitive := True, requires_complete_group := True, pushdown_safe := False,
        pushdown_capabilities := []\<rparr>"

definition stage_add_calc :: "pydict \<Rightarrow> pyval \<Rightarrow> operation_spec list result" where
  "stage_add_calc payload expression_ir =
     (let add_calc = py_or (get_key payload ''add_calc'') (VList []) in
      if \<not> py_truthy add_calc then Inr []
      else let expression_columns = ir_input_columns expression_ir in
           res_bind (ir_expression_lineage expression_ir) (\<lambda>expression_lineage.
           res_bind (py_iter add_calc) (\<lambda>items.
           res_bind (res_map (\<lambda>item. ColumnContract (str_or (get_key item ''name'') []) VNone (VBool True))
                       (map dict_of (filter is_dict items))) (\<lambda>outputs.
             one_operation (mk_operation ''add_calc'' ADD_CALC
               [(''expressions'', add_calc), (''expression_ir'', expression_ir)]
               expression_columns outputs
               (dict_of_pairs (map (\<lambda>c. (col_name c,
                  case map_of expression_lineage (col_name c) of
                    None \<Rightarrow> expression_columns | Some l \<Rightarrow> l)) outputs))
               [] [] []
               (if ir_contains_kind expression_ir ''window'' then Some window_calc_properties
                else None))))))"

definition reference_item ::
  "pyval \<Rightarrow> string list \<times> column_contract list \<times> (string \<times> string list) list
   \<Rightarrow> (string list \<times> column_contract list \<times> (string \<times> string list) list) result" where
  "reference_item item acc =
     (case acc of (inputs, outputs, lineage) \<Rightarrow>
      (case item of
         VDict d \<Rightarrow>
           if \<not> py_truthy (get_default d ''enabled'' (VBool True)) then Inr acc
           else let source_column = str_or (get_key d ''source_column'') [];
                    output_column = str_or (get_key d ''output_column'') source_column
                in res_bind (ColumnContract output_column VNone (VBool True)) (\<lambda>c.
                     Inr (inputs @ [source_column], outputs @ [c],
                          dict_put output_column [source_column] lineage))
       | _ \<Rightarrow> Inr acc))"

definition stage_reference_replace :: "pydict \<Rightarrow> operation_spec list result" where
  "stage_reference_replace payload =
     (let reference_replace = py_or (get_key payload ''reference_replace'') (VList []) in
      if \<not> py_truthy reference_replace then Inr []
      else let configs = (if is_list reference_replace then items_of reference_replace
                          else [reference_replace])
           in res_bind (res_fold reference_item configs ([], [], [])) (\<lambda>(inputs, outputs, lineage).
                if outputs = [] then Inr []
                else one_operation (mk_operation ''reference_replace'' REFERENCE_REPLACE
                       [(''items'', VList configs)] inputs outputs lineage [] [] [] None)))"

definition group_key_name :: "pyval \<Rightarrow> string" where
  "group_key_name item = py_str (case item of VDict d \<Rightarrow> get_key d ''name'' | _ \<Rightarrow> item)"

definition stage_sort_first :: "pydict \<Rightarrow> operation_spec list result" where
  "stage_sort_first sort_first =
     (if \<not> py_truthy (get_default sort_first ''enabled'' (VBool False)) then Inr []
      else let items = py_or (get_key sort_first ''group_keys'') (VList []) in
           raise_if (\<not> is_list items \<or> items_of items = []) (ValidationError ''yaml.invalid_type'')
             (let group_keys = map group_key_name (items_of items) in
              res_bind (lp_ordering (get_key sort_first ''sort'')) (\<lambda>ordering.
                one_operation (mk_operation ''sort_first'' SORT_FIRST sort_first
                  (dict_fromkeys (group_keys @ map fst ordering)) [] [] group_keys [] ordering None))))"

definition stage_list_restore :: "pydict \<Rightarrow> operation_spec list result" where
  "stage_list_restore list_restore =
     (if \<not> py_truthy (get_default list_restore ''enabled'' (VBool False)) then Inr []
      else res_bind (lp_mapping (get_key list_restore ''config'') False) (\<lambda>config.
           let restore_schema = dict_of (get_key list_restore ''schema'') in
           res_bind (strings_at config ''value_columns'') (\<lambda>value_columns.
           res_bind (strings_at config ''source_coord_columns'') (\<lambda>coord_columns.
           let key_column = str_or (get_key config ''key_column'') [] in
           res_bind (res_map (\<lambda>n. ColumnContract n (get_key restore_schema n) (VBool True))
                       (value_columns @ coord_columns)) (\<lambda>outputs.
             one_operation (mk_operation ''list_restore'' LIST_RESTORE list_restore
               (dict_fromkeys (key_column # value_columns @ coord_columns)) outputs []
               (if key_column = [] then [] else [key_column]) [] [] None))))))"

definition stage_projection :: "pydict \<Rightarrow> operation_spec list result" where
  "stage_projection payload =
     res_bind (strings_at payload ''include_columns'') (\<lambda>inc.
     res_bind (strings_at payload ''exclude_columns'') (\<lambda>exc.
       if inc = [] \<and> exc = [] then Inr []
       else res_bind (plain_contracts inc) (\<lambda>outputs.
              one_operation (mk_operation ''projection'' PROJECTION
                [(''include'', strs inc), (''exclude'', strs exc)] inc outputs [] [] [] [] None))))"

section \<open>The pivot operation\<close>

definition pivot_aggregations :: "string list" where
  "pivot_aggregations =
     [''first'', ''count'', ''sum'', ''avg'', ''mean'', ''min'', ''max'', ''unique_concatenate'']"

definition pivot_output_dtypes :: "string list" where
  "pivot_output_dtypes =
     [''TEXT'', ''STRING'', ''INT32'', ''INTEGER'', ''INT64'', ''BIGINT'', ''FLOAT'', ''FLOAT32'',
      ''DOUBLE'', ''FLOAT64'', ''BOOL'', ''BOOLEAN'']"

definition validate_pivot_value_key :: "bool \<Rightarrow> pyval \<Rightarrow> unit result" where
  "validate_pivot_value_key has_column item =
     res_bind (lp_mapping item False) (\<lambda>value.
       let source_column = py_strip (str_or (get_key value ''source_column'') []);
           aggregation = py_lower (py_strip (str_or (get_key value ''aggregation'') []));
           output_dtype = py_upper (py_strip (str_or (get_key value ''output_dtype'') []));
           rule = str_or (get_key value ''column_name_rule'') []
       in raise_if (source_column = []) (ValidationError ''pivot.missing_source_column'')
         (raise_if (aggregation \<notin> set pivot_aggregations)
            (ValidationError ''pivot.unsupported_aggregation'')
         (raise_if (output_dtype \<noteq> [] \<and> output_dtype \<notin> set pivot_output_dtypes)
            (ValidationError ''pivot.unsupported_output_dtype'')
         (raise_if (\<not> has_column \<and>
              (contains_sub rule ''<column_key_value>'' \<or> contains_sub rule ''{column_key_value}''))
            (ValidationError ''pivot.invalid_column_name_rule'') (Inr ())))))"

definition validate_pivot_value_keys :: "bool \<Rightarrow> pyval list \<Rightarrow> unit result" where
  "validate_pivot_value_keys has_column items =
     res_bind (res_map (validate_pivot_value_key has_column) items) (\<lambda>_. Inr ())"

definition pivot_source_columns :: "pyval list \<Rightarrow> string list" where
  "pivot_source_columns items =
     map (\<lambda>item. str_or (get_key (dict_of item) ''source_column'') [])
       (filter (\<lambda>item. is_dict item \<and> py_truthy (get_key (dict_of item) ''source_column'')) items)"

definition duplicate_policies :: "string list" where
  "duplicate_policies = [''allow'', ''warn'', ''error'']"

definition null_policies :: "string list" where
  "null_policies = [''error'', ''label'']"

definition compile_pivot_operation :: "pydict \<Rightarrow> operation_spec result" where
  "compile_pivot_operation pivot =
     res_bind (lp_string_tuple (get_key pivot ''row_keys'')) (\<lambda>row_keys.
       let value_keys = py_or (get_key pivot ''value_keys'') (VList []);
           without = py_or (get_key pivot ''value_keys_without_column'') (VList [])
       in raise_if (\<not> is_list value_keys \<or> \<not> is_list without)
            (ValidationError ''yaml.invalid_type'')
         (raise_if (items_of value_keys = [] \<and> items_of without = [])
            (ValidationError ''yaml.required_key'')
         (res_bind (if items_of value_keys \<noteq> []
                    then lp_optional_string_tuple (get_key pivot ''column_keys'') else Inr [])
            (\<lambda>column_keys.
          res_bind (validate_pivot_value_keys (column_keys \<noteq> []) (items_of value_keys)) (\<lambda>_.
          res_bind (validate_pivot_value_keys False (items_of without)) (\<lambda>_.
          raise_if (py_lower (str_or (get_key pivot ''first_duplicate_policy'') ''warn'')
                      \<notin> set duplicate_policies)
            (ValidationError ''pivot.invalid_duplicate_policy'')
         (raise_if (py_lower (str_or (get_key pivot ''null_column_key_policy'') ''error'')
                      \<notin> set null_policies)
            (ValidationError ''pivot.invalid_null_column_key_policy'')
         (mk_operation ''pivot'' PIVOT pivot
            (dict_fromkeys (row_keys @ column_keys
               @ pivot_source_columns (items_of value_keys @ items_of without)))
            [] [] row_keys [] [] None))))))))"

definition stage_pivot :: "pydict \<Rightarrow> operation_spec list result" where
  "stage_pivot pivot =
     (if \<not> py_truthy (get_default pivot ''enabled'' (VBool False)) then Inr []
      else one_operation (compile_pivot_operation pivot))"

definition stage_write :: "pydict \<Rightarrow> operation_spec list result" where
  "stage_write output =
     (let column = py_strip (str_or (get_key output ''partition_column'') []);
          columns = (if column = [] then [] else [column])
      in one_operation (mk_operation ''partition_write'' PARTITION_WRITE
           [(''partition_column'', VStr column)] columns [] [] [] columns [] None))"

section \<open>The 0201 compiler\<close>

definition compile_0201_logical_plan :: "pydict \<Rightarrow> pyval \<Rightarrow> logical_operation_plan result" where
  "compile_0201_logical_plan raw expression_ir =
     res_bind (validate_0201_yaml_shape raw) (\<lambda>_.
     res_bind (lp_mapping (get_key raw ''source'') False) (\<lambda>source.
     res_bind (lp_mapping (get_key source ''payload'') True) (\<lambda>payload.
     res_bind (lp_mapping (get_key raw ''row_selection'') True) (\<lambda>row_selection.
     res_bind (lp_mapping (get_key row_selection ''sort_first'') True) (\<lambda>sort_first.
     res_bind (lp_mapping (get_key raw ''pivot'') True) (\<lambda>pivot.
     res_bind (lp_mapping (get_key raw ''list_restore'') True) (\<lambda>list_restore.
     res_bind (lp_mapping (get_key raw ''output'') False) (\<lambda>output.
     res_bind (stage_filter payload) (\<lambda>filters.
     res_bind (stage_casts payload) (\<lambda>casts.
     res_bind (stage_add_calc payload expression_ir) (\<lambda>calcs.
     res_bind (stage_reference_replace payload) (\<lambda>refs.
     res_bind (stage_sort_first sort_first) (\<lambda>sorts.
     res_bind (stage_list_restore list_restore) (\<lambda>restores.
     res_bind (stage_projection payload) (\<lambda>projections.
     res_bind (stage_pivot pivot) (\<lambda>pivots.
     res_bind (stage_write output) (\<lambda>writes.
       mk_plan (str_or (get_key raw ''preset'') ''0201'')
         (filters @ casts @ calcs @ refs @ sorts @ restores @ projections @ pivots @ writes))))))))))))))))))"

section \<open>The 0301 compiler\<close>

definition join_types :: "string list" where
  "join_types = [''inner'', ''left'', ''right'', ''full'', ''cross'']"

definition join_type :: "pyval \<Rightarrow> string result" where
  "join_type value =
     (let how = py_lower (py_strip (py_str value)) in
      raise_if (how \<notin> set join_types) (ValidationError ''join.invalid_type'') (Inr how))"

definition join_keys :: "pyval \<Rightarrow> pyval \<Rightarrow> string \<Rightarrow> (string list \<times> string list) result" where
  "join_keys left_value right_value how =
     (if how = ''cross''
      then raise_if (py_truthy left_value \<or> py_truthy right_value)
             (ValidationError ''join.cross_keys_forbidden'') (Inr ([], []))
      else res_bind (lp_string_tuple left_value) (\<lambda>left_on.
           res_bind (lp_string_tuple right_value) (\<lambda>right_on.
             raise_if (length left_on \<noteq> length right_on)
               (ValidationError ''join.key_length_mismatch'') (Inr (left_on, right_on)))))"

record join_defaults =
  jd_how :: string
  jd_left_on :: "string list"
  jd_right_on :: "string list"
  jd_left_partition :: string
  jd_right_partition :: string
  jd_suffix :: pyval

definition outer_joins :: "string list" where
  "outer_joins = [''right'', ''full'']"

text \<open>One right source: its operation, unless its name was already used.\<close>

definition compile_join_source ::
  "join_defaults \<Rightarrow> nat \<Rightarrow> pyval \<Rightarrow> string list \<Rightarrow> (string \<times> operation_spec) result" where
  "compile_join_source jd index source used =
     res_bind (lp_mapping source False) (\<lambda>cfg.
     res_bind (lp_mapping (get_key cfg ''join'') True) (\<lambda>source_join.
     res_bind (join_type (py_or (get_key source_join ''how'') (VStr (jd_how jd)))) (\<lambda>how.
     res_bind (join_keys (get_default source_join ''left_on'' (strs (jd_left_on jd)))
                 (get_default source_join ''right_on'' (strs (jd_right_on jd))) how) (\<lambda>(left_on, right_on).
       let name = py_strip (str_or (get_key cfg ''name'') []) in
       raise_if (name = []) (ValidationError ''yaml.required_key'')
      (raise_if (name \<in> set used) (ValidationError ''join.duplicate_source_name'')
      (res_bind
         (mk_operation (''join_'' @ nat_str (index + 1) @ ''_'' @ name) JOIN
            [(''source_name'', VStr name), (''how'', VStr how), (''left_on'', strs left_on),
             (''right_on'', strs right_on),
             (''suffix'', VStr (str_or (py_or (get_key cfg ''suffix'') (jd_suffix jd)) (''_'' @ name))),
             (''columns'', py_or (get_key cfg ''columns'') (VDict []))]
            (dict_fromkeys (left_on @ right_on)) [] [] left_on
            (filter (\<lambda>k. k \<noteq> []) [jd_left_partition jd, jd_right_partition jd]) [] None)
         (\<lambda>op. raise_if (how \<in> set outer_joins \<and> jd_right_partition jd = [])
                 (ValidationError ''join.partition_mapping_required'') (Inr (name, op)))))))))"

fun compile_join_sources ::
  "join_defaults \<Rightarrow> nat \<Rightarrow> pyval list \<Rightarrow> string list \<Rightarrow> operation_spec list result" where
  "compile_join_sources jd index [] used = Inr []"
| "compile_join_sources jd index (source # rest) used =
     res_bind (compile_join_source jd index source used) (\<lambda>(name, op).
     res_bind (compile_join_sources jd (index + 1) rest (name # used)) (\<lambda>ops. Inr (op # ops)))"

definition compile_0301_logical_plan :: "pydict \<Rightarrow> logical_operation_plan result" where
  "compile_0301_logical_plan raw =
     res_bind (validate_0301_yaml_shape raw) (\<lambda>_.
     res_bind (lp_mapping (get_key raw ''join'') False) (\<lambda>join.
     res_bind (lp_mapping (get_key raw ''output'') False) (\<lambda>output.
     res_bind (if get_key raw ''right_sources'' = VNone
               then res_bind (lp_mapping (get_key raw ''right'') False) (\<lambda>right.
                      Inr (VList [VDict (fold (\<lambda>(k, v) d. dict_put k v d) right
                                           [(''name'', VStr ''right'')])]))
               else Inr (get_key raw ''right_sources'')) (\<lambda>right_sources.
       raise_if (\<not> is_list right_sources \<or> items_of right_sources = [])
         (ValidationError ''yaml.invalid_type'')
      (res_bind (join_type (py_or (get_key join ''how'') (VStr ''left''))) (\<lambda>default_how.
         let left_partition = py_strip (str_or (get_key join ''left_partition_key_column'') []);
             right_partition = py_strip (str_or (get_key join ''right_partition_key_column'') [])
         in raise_if (right_partition \<noteq> [] \<and> left_partition = [])
              (ValidationError ''join.left_partition_key_required'')
           (res_bind (join_keys (get_key join ''left_on'') (get_key join ''right_on'') default_how)
              (\<lambda>(left_on, right_on).
            res_bind (compile_join_sources
                        \<lparr>jd_how = default_how, jd_left_on = left_on, jd_right_on = right_on,
                         jd_left_partition = left_partition, jd_right_partition = right_partition,
                         jd_suffix = get_key join ''suffix''\<rparr>
                        0 (items_of right_sources) []) (\<lambda>joins.
            res_bind (stage_write output) (\<lambda>writes.
              mk_plan (str_or (get_key raw ''preset'') ''0301'') (joins @ writes)))))))))))"

section \<open>What the stages produce\<close>

definition at_most_one :: "operation_kind \<Rightarrow> operation_spec list result \<Rightarrow> bool" where
  "at_most_one k r = (\<forall>ops. r = Inr ops \<longrightarrow> ops = [] \<or> (\<exists>op. ops = [op] \<and> op_kind op = k))"

named_theorems stage_simps "each stage of the 0201 compiler emits at most one operation of its kind"

lemma at_most_one_basic [stage_simps]:
  "at_most_one k (Inl e)" "at_most_one k (Inr [])"
  by (simp_all add: at_most_one_def)

lemma at_most_one_raise [stage_simps]: "at_most_one k r \<Longrightarrow> at_most_one k (raise_if b e r)"
  by (simp add: at_most_one_def raise_if_def)

lemma at_most_one_bind [stage_simps]:
  "(\<And>x. at_most_one k (f x)) \<Longrightarrow> at_most_one k (res_bind m f)"
  by (cases m) (simp_all add: at_most_one_def)

lemma one_operation_Inr: "one_operation m = Inr ops \<longleftrightarrow> (\<exists>op. m = Inr op \<and> ops = [op])"
  by (cases m) (auto simp: one_operation_def)

lemma at_most_one_operation [stage_simps]:
  "at_most_one k (one_operation (mk_operation i k c x o' l g p r q))"
  unfolding at_most_one_def one_operation_Inr by (blast dest: mk_operation_Inr(2))

lemma at_most_one_if [stage_simps]:
  "at_most_one k a \<Longrightarrow> at_most_one k b \<Longrightarrow> at_most_one k (if c then a else b)"
  by simp

lemma at_most_one_prod [stage_simps]:
  "(\<And>x y z. at_most_one k (f x y z)) \<Longrightarrow> at_most_one k (case t of (x, y, z) \<Rightarrow> f x y z)"
  by (cases t) simp

lemma stages_at_most_one:
  "at_most_one FILTER (stage_filter d)"
  "at_most_one TYPE_CAST (stage_casts d)"
  "at_most_one ADD_CALC (stage_add_calc d ir)"
  "at_most_one REFERENCE_REPLACE (stage_reference_replace d)"
  "at_most_one SORT_FIRST (stage_sort_first d)"
  "at_most_one LIST_RESTORE (stage_list_restore d)"
  "at_most_one PROJECTION (stage_projection d)"
  unfolding stage_filter_def stage_casts_def stage_add_calc_def stage_reference_replace_def
    stage_sort_first_def stage_list_restore_def stage_projection_def Let_def
  by (intro stage_simps)+

lemma compile_pivot_kind: "compile_pivot_operation d = Inr op \<Longrightarrow> op_kind op = PIVOT"
  unfolding compile_pivot_operation_def Let_def
  by (simp only: res_bind_eq_Inr raise_if_eq_Inr) (blast dest: mk_operation_Inr(2))

lemma stage_pivot_at_most_one: "at_most_one PIVOT (stage_pivot d)"
  unfolding stage_pivot_def at_most_one_def
  by (auto simp del: not_not simp: one_operation_Inr compile_pivot_kind split: if_splits)

lemma stage_write_one:
  assumes "stage_write output = Inr ops"
  shows "\<exists>op. ops = [op] \<and> op_kind op = PARTITION_WRITE"
  using assms unfolding stage_write_def Let_def one_operation_Inr
  by (blast dest: mk_operation_Inr(2))

definition pipeline_0201 :: "operation_kind list" where
  "pipeline_0201 = [FILTER, TYPE_CAST, ADD_CALC, REFERENCE_REPLACE, SORT_FIRST, LIST_RESTORE,
     PROJECTION, PIVOT]"

lemma at_most_oneD: "r = Inr ops \<Longrightarrow> at_most_one k r \<Longrightarrow> subseq (map op_kind ops) [k]"
  by (auto simp: at_most_one_def)

lemma subseq_stages:
  "subseq as [a] \<Longrightarrow> subseq bs ks \<Longrightarrow> subseq (as @ bs) (a # ks)"
  using list_emb_append_mono [of "(=)" as "[a]" bs ks] by simp

lemma compile_0201_stages:
  assumes "compile_0201_logical_plan raw ir = Inr p"
  obtains d1 d2 d3 d4 d5 d6 d7 d8 d9 o1 o2 o3 o4 o5 o6 o7 o8 o9
  where "stage_filter d1 = Inr o1" "stage_casts d2 = Inr o2" "stage_add_calc d3 ir = Inr o3"
    "stage_reference_replace d4 = Inr o4" "stage_sort_first d5 = Inr o5"
    "stage_list_restore d6 = Inr o6" "stage_projection d7 = Inr o7" "stage_pivot d8 = Inr o8"
    "stage_write d9 = Inr o9"
    "lp_operations p = o1 @ o2 @ o3 @ o4 @ o5 @ o6 @ o7 @ o8 @ o9"
    "distinct (map op_id (lp_operations p))"
    "lp_lineage p = resolve_column_lineage (lp_operations p)"
  using assms unfolding compile_0201_logical_plan_def
  by (simp only: res_bind_eq_Inr mk_plan_Inr) fastforce

lemma compile_0201_kinds:
  assumes "compile_0201_logical_plan raw ir = Inr p"
  shows "distinct (map op_id (lp_operations p)) \<and>
    (\<exists>ops w. lp_operations p = ops @ [w] \<and> op_kind w = PARTITION_WRITE \<and>
       subseq (map op_kind ops) pipeline_0201)"
proof -
  from assms obtain d1 d2 d3 d4 d5 d6 d7 d8 d9 o1 o2 o3 o4 o5 o6 o7 o8 o9 where
    st: "stage_filter d1 = Inr o1" "stage_casts d2 = Inr o2" "stage_add_calc d3 ir = Inr o3"
      "stage_reference_replace d4 = Inr o4" "stage_sort_first d5 = Inr o5"
      "stage_list_restore d6 = Inr o6" "stage_projection d7 = Inr o7" "stage_pivot d8 = Inr o8"
    and w: "stage_write d9 = Inr o9"
    and ops: "lp_operations p = o1 @ o2 @ o3 @ o4 @ o5 @ o6 @ o7 @ o8 @ o9"
    and ids: "distinct (map op_id (lp_operations p))"
    by (rule compile_0201_stages)
  have kinds: "subseq (map op_kind (o1 @ o2 @ o3 @ o4 @ o5 @ o6 @ o7 @ o8)) pipeline_0201"
    unfolding pipeline_0201_def map_append
    by (intro subseq_stages st [THEN at_most_oneD] stages_at_most_one stage_pivot_at_most_one)
  from stage_write_one [OF w] obtain op where op: "o9 = [op]" "op_kind op = PARTITION_WRITE" by blast
  show ?thesis
    by (rule conjI [OF ids], rule exI [of _ "o1 @ o2 @ o3 @ o4 @ o5 @ o6 @ o7 @ o8"],
        rule exI [of _ op]) (use kinds op ops in simp)
qed

text \<open>
  C2: A compiled 0201 plan runs its stages in the fixed order of the preset: the kinds of its
  operations are a subsequence of filter, cast, calculation, reference lookup, sort-first, list
  restore, projection, pivot, followed by exactly one partition write, which is last; operation
  identifiers are unique.
\<close>

theorem compile_0201_stage_order:
  assumes "compile_0201_logical_plan raw ir = Inr p"
  shows "distinct (map op_id (lp_operations p)) \<and>
    (\<exists>ops w. lp_operations p = ops @ [w] \<and> op_kind w = PARTITION_WRITE \<and>
       subseq (map op_kind ops) pipeline_0201)"
  using assms by (rule compile_0201_kinds)

definition sample_0201 :: pydict where
  "sample_0201 =
     [(''preset'', VStr ''0201''), (''job'', VDict [(''name'', VStr ''orders'')]),
      (''source'', VDict
         [(''upstream'', VDict [(''paths'', VList [VStr ''a.parquet''])]),
          (''payload'', VDict
             [(''filter_sql'', VStr ''qty > 0''),
              (''type_casts'', VList [VDict [(''name'', VStr ''qty''), (''type'', VStr ''INT64'')]]),
              (''include_columns'', VList [VStr ''id'', VStr ''qty''])])]),
      (''output'', VDict [(''partition_column'', VStr ''day'')])]"

lemma sample_0201_compiles:
  "\<exists>p. compile_0201_logical_plan sample_0201 (VDict []) = Inr p \<and>
     map op_kind (lp_operations p) = [FILTER, TYPE_CAST, PROJECTION, PARTITION_WRITE]"
proof -
  have "case compile_0201_logical_plan sample_0201 (VDict []) of Inl e \<Rightarrow> False
    | Inr p \<Rightarrow> map op_kind (lp_operations p) = [FILTER, TYPE_CAST, PROJECTION, PARTITION_WRITE]"
    by code_simp
  then show ?thesis by (cases "compile_0201_logical_plan sample_0201 (VDict [])") auto
qed

theorem compile_0201_stage_order_witness:
  "\<exists>p. compile_0201_logical_plan sample_0201 (VDict []) = Inr p \<and> distinct (map op_id (lp_operations p))"
  using sample_0201_compiles compile_0201_stage_order [of sample_0201 "VDict []"] by blast




section \<open>What a compiled join guarantees\<close>

lemma join_type_Inr: "join_type v = Inr how \<Longrightarrow> how \<in> set join_types"
  unfolding join_type_def Let_def by (simp only: raise_if_eq_Inr sum.inject) blast

lemma join_keys_Inr:
  assumes "join_keys l r how = Inr (lo, ro)"
  shows "length lo = length ro \<and> (lo = [] \<longleftrightarrow> how = ''cross'')"
proof (cases "how = ''cross''")
  case True
  with assms have "raise_if (py_truthy l \<or> py_truthy r)
      (ValidationError ''join.cross_keys_forbidden'') (Inr ([], [])) = Inr (lo, ro)"
    unfolding join_keys_def by (simp only: simp_thms if_True)
  with True show ?thesis by (simp only: raise_if_eq_Inr sum.inject prod.inject) simp
next
  case False
  with assms have "lp_string_tuple l = Inr lo" "length lo = length ro"
    unfolding join_keys_def by (auto simp only: if_False res_bind_eq_Inr raise_if_eq_Inr sum.inject)
  with False show ?thesis using lp_string_tuple_Inr by blast
qed

text \<open>
  The contract of one join operation: a supported join type, keys of equal length that are
  present exactly when the join is not a cross join, and for right and full joins a partition
  key on both sides.
\<close>

definition join_config ::
  "operation_spec \<Rightarrow> string \<Rightarrow> string \<Rightarrow> string list \<Rightarrow> string list \<Rightarrow> pyval \<Rightarrow> pyval \<Rightarrow> bool" where
  "join_config op name how left_on right_on sfx columns =
     (op_config op = [(''source_name'', VStr name), (''how'', VStr how), (''left_on'', strs left_on),
        (''right_on'', strs right_on), (''suffix'', sfx), (''columns'', columns)])"

definition join_op_ok :: "operation_spec \<Rightarrow> string \<Rightarrow> bool" where
  "join_op_ok op name =
     (op_kind op = JOIN \<and> name \<noteq> [] \<and>
      (\<exists>how left_on right_on sfx columns.
         join_config op name how left_on right_on sfx columns \<and> how \<in> set join_types
         \<and> length left_on = length right_on \<and> (left_on = [] \<longleftrightarrow> how = ''cross'')
         \<and> op_group_keys op = left_on
         \<and> (how \<in> set outer_joins \<longrightarrow> length (op_partition_keys op) = 2)))"

lemma compile_join_source_Inr:
  assumes "compile_join_source jd i source used = Inr (name, op)"
    and part: "jd_right_partition jd \<noteq> [] \<longrightarrow> jd_left_partition jd \<noteq> []"
  shows "join_op_ok op name \<and> name \<notin> set used"
proof -
  from assms(1) obtain l r how lo ro oid sfx columns ins where
    how: "how \<in> set join_types" and keys: "join_keys l r how = Inr (lo, ro)"
    and name: "name \<noteq> []" "name \<notin> set used"
    and mk: "mk_operation oid JOIN
        [(''source_name'', VStr name), (''how'', VStr how), (''left_on'', strs lo),
             (''right_on'', strs ro), (''suffix'', sfx), (''columns'', columns)] ins [] [] lo
          (filter (\<lambda>k. k \<noteq> []) [jd_left_partition jd, jd_right_partition jd]) [] None = Inr op"
    and outer: "\<not> (how \<in> set outer_joins \<and> jd_right_partition jd = [])"
    unfolding compile_join_source_def Let_def
    by (clarsimp simp only: res_bind_eq_Inr raise_if_eq_Inr sum.inject prod.inject split_paired_all
          split_paired_Ex case_prod_conv) (blast dest: join_type_Inr)
  have two: "length (op_partition_keys op) = 2" if "how \<in> set outer_joins"
    using that outer part mk_operation_Inr(8) [OF mk] by simp
  have "join_config op name how lo ro sfx columns"
    unfolding join_config_def by (rule mk_operation_Inr(3) [OF mk])
  then show ?thesis
    unfolding join_op_ok_def
    using how join_keys_Inr [OF keys] name two mk_operation_Inr(2,7) [OF mk] by blast
qed

lemma compile_join_sources_Inr:
  assumes "compile_join_sources jd i sources used = Inr ops"
    and "jd_right_partition jd \<noteq> [] \<longrightarrow> jd_left_partition jd \<noteq> []"
  shows "\<exists>names. list_all2 join_op_ok ops names \<and> distinct names \<and> set names \<inter> set used = {}
    \<and> length names = length sources"
  using assms
proof (induction jd i sources used arbitrary: ops rule: compile_join_sources.induct)
  case (1 jd i used)
  then show ?case by simp
next
  case (2 jd i source rest used)
  from "2.prems"(1) obtain name op ops' where
    one: "compile_join_source jd i source used = Inr (name, op)"
    and more: "compile_join_sources jd (i + 1) rest (name # used) = Inr ops'"
    and ops: "ops = op # ops'"
    by (auto simp: res_bind_eq_Inr)
  from "2.IH" [OF one refl more "2.prems"(2)] obtain names where
    "list_all2 join_op_ok ops' names" "distinct names" "set names \<inter> set (name # used) = {}"
    "length names = length rest" by blast
  with compile_join_source_Inr [OF one "2.prems"(2)] ops show ?case
    by (intro exI [of _ "name # names"]) auto
qed

lemma compile_0301_parts:
  assumes "compile_0301_logical_plan raw = Inr p"
  obtains jd sources joins outp writes
  where "compile_join_sources jd 0 sources [] = Inr joins" "sources \<noteq> []"
    "jd_right_partition jd \<noteq> [] \<longrightarrow> jd_left_partition jd \<noteq> []"
    "stage_write outp = Inr writes" "lp_operations p = joins @ writes"
    "distinct (map op_id (lp_operations p))"
    "lp_lineage p = resolve_column_lineage (lp_operations p)"
proof -
  from assms obtain how lo ro lpk rpk sfx sources joins outp writes where
    "compile_join_sources \<lparr>jd_how = how, jd_left_on = lo, jd_right_on = ro,
       jd_left_partition = lpk, jd_right_partition = rpk, jd_suffix = sfx\<rparr> 0 (items_of sources) []
     = Inr joins" "items_of sources \<noteq> []" "\<not> (rpk \<noteq> [] \<and> lpk = [])"
    "stage_write outp = Inr writes" "distinct (map op_id (joins @ writes))"
    "p = \<lparr>lp_preset = str_or (get_key raw ''preset'') ''0301'', lp_operations = joins @ writes,
          lp_lineage = resolve_column_lineage (joins @ writes)\<rparr>"
    unfolding compile_0301_logical_plan_def Let_def
    by (clarsimp simp only: res_bind_eq_Inr raise_if_eq_Inr mk_plan_Inr split_paired_all
          split_paired_Ex case_prod_conv) blast
  then show ?thesis by (intro that) auto
qed

text \<open>
  C3: A compiled 0301 plan is a non-empty sequence of joins followed by one partition write. The
  source names of the joins are pairwise distinct; every join has a supported type, as many left
  as right keys, keys exactly when it is not a cross join, and a partition key on both sides when
  it is a right or full join.
\<close>

theorem compile_0301_joins:
  assumes "compile_0301_logical_plan raw = Inr p"
  shows "\<exists>joins w names. lp_operations p = joins @ [w] \<and> joins \<noteq> [] \<and> op_kind w = PARTITION_WRITE
    \<and> list_all2 join_op_ok joins names \<and> distinct names"
proof -
  from assms obtain jd sources joins outp writes where
    j: "compile_join_sources jd 0 sources [] = Inr joins" "sources \<noteq> []"
      "jd_right_partition jd \<noteq> [] \<longrightarrow> jd_left_partition jd \<noteq> []"
    and w: "stage_write outp = Inr writes" and p: "lp_operations p = joins @ writes"
    by (rule compile_0301_parts)
  from compile_join_sources_Inr [OF j(1,3)] obtain names where
    "list_all2 join_op_ok joins names" "distinct names" "length names = length sources" by blast
  moreover from this j(2) have "joins \<noteq> []" by (auto dest: list_all2_lengthD)
  ultimately show ?thesis using stage_write_one [OF w] p by blast
qed

definition sample_0301 :: pydict where
  "sample_0301 =
     [(''preset'', VStr ''0301''), (''job'', VDict [(''name'', VStr ''enrich'')]),
      (''left'', VDict [(''upstream'', VDict [(''paths'', VList [VStr ''a.parquet''])])]),
      (''right_sources'', VList
         [VDict [(''name'', VStr ''items''), (''upstream'', VDict [(''paths'', VList [VStr ''b.parquet''])])],
          VDict [(''name'', VStr ''users''), (''upstream'', VDict [(''paths'', VList [VStr ''c.parquet''])]),
                 (''join'', VDict [(''how'', VStr ''full'')])]]),
      (''join'', VDict
         [(''left_on'', VList [VStr ''id'']), (''right_on'', VList [VStr ''id'']),
          (''left_partition_key_column'', VStr ''day''), (''right_partition_key_column'', VStr ''day'')]),
      (''output'', VDict [(''partition_column'', VStr ''day'')])]"

theorem compile_0301_joins_witness:
  "\<exists>p joins w names. compile_0301_logical_plan sample_0301 = Inr p \<and> lp_operations p = joins @ [w] \<and>
     list_all2 join_op_ok joins names \<and> distinct names"
proof -
  have "\<not> isl (compile_0301_logical_plan sample_0301)" by code_simp
  then obtain p where "compile_0301_logical_plan sample_0301 = Inr p"
    by (cases "compile_0301_logical_plan sample_0301") auto
  with compile_0301_joins [OF this] show ?thesis by blast
qed

end
