(* ===== verification/Optimizer.thy ===== *)
theory Optimizer
  imports PlanCompiler
begin

text \<open>
  \<open>core/optimizer.py\<close>: the rewrite rules over logical operations, the fixed barriers, the guard
  on every rewrite and the bounded rewrite loop. A rule returns no rewrite, a rewritten operation
  list with its reason, or the exception its code would raise. The signature of a plan is the
  tuple of the operations' dictionaries; the code compares the \<open>repr\<close> of the same dictionaries.
\<close>

section \<open>Data\<close>

record rewrite_decision =
  rd_rule :: string
  rd_applied :: bool
  rd_reason :: string
  rd_before :: "string list"
  rd_after :: "string list"

record optimization_result =
  canonical_plan :: logical_operation_plan
  optimized_plan :: logical_operation_plan
  candidate_plans :: "logical_operation_plan list"
  opt_trace :: "rewrite_decision list"
  explored_plans :: nat

type_synonym rewrite = "operation_spec list \<times> string"
type_synonym rule = "operation_spec list \<Rightarrow> rewrite option result"
type_synonym pair_rule = "operation_spec \<Rightarrow> operation_spec \<Rightarrow> rewrite option result"

record rule_info =
  ri_id :: string
  ri_tier :: string
  ri_status :: string
  ri_required :: "string list"
  ri_counterexample :: string

definition RULE_CATALOG :: "rule_info list" where
  "RULE_CATALOG =
     [\<lparr>ri_id = ''tier_a.remove_identity_projection'', ri_tier = ''A'', ri_status = ''supported'',
       ri_required = [''row_preserving''],
       ri_counterexample = ''projection removes or reorders a column''\<rparr>,
      \<lparr>ri_id = ''tier_a.merge_adjacent_filters'', ri_tier = ''A'', ri_status = ''supported'',
       ri_required = [''deterministic'', ''total'', ''same_schema''],
       ri_counterexample = ''a predicate raises before the other filters its bad row''\<rparr>,
      \<lparr>ri_id = ''tier_a.merge_independent_add_calc'', ri_tier = ''A'', ri_status = ''supported'',
       ri_required = [''row_local'', ''independent_aliases''],
       ri_counterexample = ''one expression reads the other expression alias''\<rparr>,
      \<lparr>ri_id = ''tier_a.remove_duplicate_cast'', ri_tier = ''A'', ri_status = ''supported'',
       ri_required = [''deterministic'', ''identical_target''],
       ri_counterexample = ''the first cast changes the second cast input type''\<rparr>,
      \<lparr>ri_id = ''tier_b.filter_before_projection'', ri_tier = ''B'', ri_status = ''conditional'',
       ri_required = [''predicate_columns_preserved''],
       ri_counterexample = ''projection removes a predicate column''\<rparr>,
      \<lparr>ri_id = ''tier_b.filter_before_independent_add_calc'', ri_tier = ''B'',
       ri_status = ''conditional'', ri_required = [''predicate_alias_independent''],
       ri_counterexample = ''predicate reads the calculated alias''\<rparr>,
      \<lparr>ri_id = ''tier_b.filter_before_independent_cast'', ri_tier = ''B'',
       ri_status = ''conditional'',
       ri_required = [''predicate_cast_independent'', ''total'', ''order_preserving''],
       ri_counterexample = ''cast can fail or predicate reads the casted column''\<rparr>,
      \<lparr>ri_id = ''barrier.outer_join'', ri_tier = ''barrier'', ri_status = ''blocked'',
       ri_required = [''explicit_equivalence_proof''],
       ri_counterexample = ''outer join preserves unmatched rows''\<rparr>,
      \<lparr>ri_id = ''barrier.list_shape'', ri_tier = ''barrier'', ri_status = ''blocked'',
       ri_required = [''explicit_equivalence_proof''],
       ri_counterexample = ''restore/explode/nest changes element cardinality''\<rparr>,
      \<lparr>ri_id = ''barrier.group_order'', ri_tier = ''barrier'', ri_status = ''blocked'',
       ri_required = [''complete_group'', ''stable_tie_break''],
       ri_counterexample = ''sort-first/window/pivot depends on full ordered groups''\<rparr>,
      \<lparr>ri_id = ''barrier.side_effect'', ri_tier = ''barrier'', ri_status = ''blocked'',
       ri_required = [''never_reorder''],
       ri_counterexample = ''write or sync is externally observable''\<rparr>,
      \<lparr>ri_id = ''barrier.unknown'', ri_tier = ''barrier'', ri_status = ''blocked'',
       ri_required = [''registered_properties''],
       ri_counterexample = ''unknown null/cardinality semantics''\<rparr>]"

definition rule_row :: "rule_info \<Rightarrow> string" where
  "rule_row i =
     ''| '' @ join_with '' | ''
       [ri_id i, ri_tier i, ri_status i, join_with '', '' (ri_required i), ri_counterexample i]
     @ '' |''"

definition render_rule_matrix_markdown :: string where
  "render_rule_matrix_markdown =
     join_with ''\<newline>''
       ([''| rule_id | tier | status | required properties | counterexample |'',
         ''| --- | --- | --- | --- | --- |''] @ map rule_row RULE_CATALOG) @ ''\<newline>''"

section \<open>Barriers and the guard on a rewrite\<close>

definition barrier_kinds :: "operation_kind list" where
  "barrier_kinds = [REFERENCE_REPLACE, LIST_RESTORE, SORT_FIRST, PIVOT, JOIN, PARTITION_WRITE]"

definition is_fixed_barrier :: "operation_spec \<Rightarrow> bool" where
  "is_fixed_barrier op =
     (side_effect (op_props op) \<or> requires_complete_group (op_props op)
      \<or> order_sensitive (op_props op) \<or> \<not> deterministic (op_props op)
      \<or> op_kind op \<in> set barrier_kinds)"

definition write_ids :: "operation_spec list \<Rightarrow> string list" where
  "write_ids ops = map op_id (filter (\<lambda>op. side_effect (op_props op)) ops)"

definition produced_columns :: "operation_spec list \<Rightarrow> string set" where
  "produced_columns ops = set (concat (map output_names ops))"

definition barrier_ids :: "operation_spec list \<Rightarrow> string list" where
  "barrier_ids ops = map op_id (filter is_fixed_barrier ops)"

definition validate_rewrite :: "operation_spec list \<Rightarrow> operation_spec list \<Rightarrow> unit result" where
  "validate_rewrite before after =
     raise_if (write_ids before \<noteq> write_ids after) (ValueError ''rewrite.side_effects'')
       (raise_if (produced_columns before \<noteq> produced_columns after) (ValueError ''rewrite.outputs'')
         (raise_if (barrier_ids before \<noteq> barrier_ids after) (ValueError ''rewrite.barriers'')
           (Inr ())))"

definition operation_signature :: "operation_spec list \<Rightarrow> pyval list" where
  "operation_signature ops = map operation_to_dict ops"

section \<open>The rules\<close>

fun remove_identity_projection :: "operation_spec list \<Rightarrow> rewrite option result" where
  "remove_identity_projection [] = Inr None"
| "remove_identity_projection (op # ops) =
     (if op_kind op = PROJECTION \<and> \<not> py_truthy (get_key (op_config op) ''include'')
         \<and> \<not> py_truthy (get_key (op_config op) ''exclude'')
      then Inr (Some (ops, ''empty projection is an identity''))
      else res_bind (remove_identity_projection ops) (\<lambda>m.
             Inr (map_option (\<lambda>(new, reason). (op # new, reason)) m)))"

text \<open>
  The rules on two neighbours share one scan: the first position where the pair rule fires is
  replaced by its operations.
\<close>

fun scan_pairs :: "pair_rule \<Rightarrow> operation_spec list \<Rightarrow> rewrite option result" where
  "scan_pairs f (l # r # ops) =
     res_bind (f l r) (\<lambda>m. case m of
         Some (new, reason) \<Rightarrow> Inr (Some (new @ ops, reason))
       | None \<Rightarrow> res_bind (scan_pairs f (r # ops)) (\<lambda>m.
           Inr (map_option (\<lambda>(new, reason). (l # new, reason)) m)))"
| "scan_pairs f _ = Inr None"

definition config_item :: "pydict \<Rightarrow> string \<Rightarrow> pyval result" where
  "config_item cfg k = (case map_of cfg k of None \<Rightarrow> Inl (KeyError k) | Some v \<Rightarrow> Inr v)"

definition merged_id :: "operation_spec \<Rightarrow> operation_spec \<Rightarrow> string" where
  "merged_id l r = op_id l @ ''__'' @ op_id r"

definition and_sql :: "string \<Rightarrow> string \<Rightarrow> string" where
  "and_sql a b = ''('' @ a @ '') AND ('' @ b @ '')''"

definition merge_filters :: pair_rule where
  "merge_filters l r =
     (if op_kind l = FILTER \<and> op_kind r = FILTER \<and> prop_total (op_props l) \<and> prop_total (op_props r)
      then res_bind (config_item (op_config l) ''sql'') (\<lambda>a.
           res_bind (config_item (op_config r) ''sql'') (\<lambda>b.
             Inr (Some ([l\<lparr>op_id := merged_id l r,
                           op_config := [(''sql'', VStr (and_sql (py_str a) (py_str b)))],
                           op_inputs := dict_fromkeys (op_inputs l @ op_inputs r)\<rparr>],
                        ''deterministic total filters share a schema''))))
      else Inr None)"

definition expressions_of :: "operation_spec \<Rightarrow> pyval list result" where
  "expressions_of op = py_iter (py_or (get_key (op_config op) ''expressions'') (VList []))"

definition merge_calcs :: pair_rule where
  "merge_calcs l r =
     (if op_kind l = ADD_CALC \<and> op_kind r = ADD_CALC
         \<and> set (output_names l) \<inter> set (op_inputs r) = {}
         \<and> set (output_names r) \<inter> set (op_inputs l) = {}
      then res_bind (expressions_of l) (\<lambda>a. res_bind (expressions_of r) (\<lambda>b.
             Inr (Some ([l\<lparr>op_id := merged_id l r,
                           op_config := [(''expressions'', VList (a @ b))],
                           op_inputs := dict_fromkeys (op_inputs l @ op_inputs r),
                           op_outputs := op_outputs l @ op_outputs r,
                           op_lineage := fold (\<lambda>(k, v) d. dict_put k v d) (op_lineage r) (op_lineage l)\<rparr>],
                        ''independent row-local expressions''))))
      else Inr None)"

definition duplicate_cast :: pair_rule where
  "duplicate_cast l r =
     (if op_kind l = TYPE_CAST \<and> op_kind r = TYPE_CAST \<and> py_eq (VDict (op_config l)) (VDict (op_config r))
      then Inr (Some ([l], ''identical deterministic cast'')) else Inr None)"

text \<open>\<open>set(value or [])\<close>: an unhashable element is a TypeError.\<close>

fun hashable :: "pyval \<Rightarrow> bool" where
  "hashable (VList _) = False"
| "hashable (VDict _) = False"
| "hashable (VTuple xs) = list_all hashable xs"
| "hashable _ = True"

definition config_set :: "operation_spec \<Rightarrow> string \<Rightarrow> pyval list result" where
  "config_set op k =
     res_bind (py_iter (py_or (get_key (op_config op) k) (VList []))) (\<lambda>xs.
       raise_if (\<not> list_all hashable xs) (TypeError ''unhashable type'') (Inr xs))"

definition filter_over_projection :: pair_rule where
  "filter_over_projection p f =
     (if op_kind p = PROJECTION \<and> op_kind f = FILTER
      then res_bind (config_set p ''include'') (\<lambda>inc. res_bind (config_set p ''exclude'') (\<lambda>exc.
             if (inc \<noteq> [] \<and> \<not> VStr ` set (op_inputs f) \<subseteq> set inc)
                \<or> VStr ` set (op_inputs f) \<inter> set exc \<noteq> {}
             then Inr None
             else Inr (Some ([f, p], ''predicate columns survive projection''))))
      else Inr None)"

definition filter_over_calc :: pair_rule where
  "filter_over_calc c f =
     (if op_kind c = ADD_CALC \<and> op_kind f = FILTER \<and> set (output_names c) \<inter> set (op_inputs f) = {}
      then Inr (Some ([f, c], ''predicate does not depend on calculated aliases''))
      else Inr None)"

definition filter_over_cast :: pair_rule where
  "filter_over_cast c f =
     (if op_kind c = TYPE_CAST \<and> op_kind f = FILTER
         \<and> prop_total (op_props c)
         \<and> py_truthy (get_default (op_config c) ''order_preserving'' (VBool False))
         \<and> set (output_names c) \<inter> set (op_inputs f) = {}
      then Inr (Some ([f, c], ''predicate does not read casted columns''))
      else Inr None)"

definition rewrite_rules :: "(string \<times> rule) list" where
  "rewrite_rules =
     [(''tier_a.remove_identity_projection'', remove_identity_projection),
      (''tier_a.merge_adjacent_filters'', scan_pairs merge_filters),
      (''tier_a.merge_independent_add_calc'', scan_pairs merge_calcs),
      (''tier_a.remove_duplicate_cast'', scan_pairs duplicate_cast),
      (''tier_b.filter_before_projection'', scan_pairs filter_over_projection),
      (''tier_b.filter_before_independent_add_calc'', scan_pairs filter_over_calc),
      (''tier_b.filter_before_independent_cast'', scan_pairs filter_over_cast)]"

section \<open>The bounded loop\<close>

text \<open>
  The loop state: the current operations, the signatures seen, the candidates and the trace, both
  in order of discovery.
\<close>

record search_state =
  st_current :: "operation_spec list"
  st_seen :: "pyval list list"
  st_candidates :: "operation_spec list list"
  st_trace :: "rewrite_decision list"

datatype pass = Stuck search_state | Rewritten search_state | PlanLimit search_state

definition record_decision ::
  "string \<Rightarrow> bool \<Rightarrow> string \<Rightarrow> operation_spec list \<Rightarrow> operation_spec list \<Rightarrow> search_state \<Rightarrow> search_state" where
  "record_decision rid ok reason before after s =
     s\<lparr>st_trace := st_trace s @ [\<lparr>rd_rule = rid, rd_applied = ok, rd_reason = reason,
                                     rd_before = map op_id before, rd_after = map op_id after\<rparr>]\<rparr>"

definition accept :: "string \<Rightarrow> operation_spec list \<Rightarrow> string \<Rightarrow> search_state \<Rightarrow> search_state" where
  "accept rid candidate reason s =
     (record_decision rid True reason (st_current s) candidate s)
       \<lparr>st_current := candidate, st_seen := st_seen s @ [operation_signature candidate],
        st_candidates := st_candidates s @ [candidate]\<rparr>"

text \<open>One pass over the rules: it ends at the first rule that applies.\<close>

fun rule_pass :: "int \<Rightarrow> (string \<times> rule) list \<Rightarrow> search_state \<Rightarrow> pass result" where
  "rule_pass max_plans [] s = Inr (Stuck s)"
| "rule_pass max_plans ((rid, rule) # rules) s =
     res_bind (rule (st_current s)) (\<lambda>m. case m of
         None \<Rightarrow> rule_pass max_plans rules s
       | Some (candidate, reason) \<Rightarrow>
           if operation_signature candidate \<in> set (st_seen s)
           then rule_pass max_plans rules
                  (record_decision rid False ''memoized_plan'' (st_current s) candidate s)
           else if int (length (st_seen s)) \<ge> max_plans
           then Inr (PlanLimit (record_decision rid False ''plan_count_limit''
                                  (st_current s) (st_current s) s))
           else res_bind (validate_rewrite (st_current s) candidate) (\<lambda>_.
                  Inr (Rewritten (accept rid candidate reason s))))"

fun search :: "nat \<Rightarrow> int \<Rightarrow> search_state \<Rightarrow> search_state result" where
  "search 0 max_plans s = Inr s"
| "search (Suc n) max_plans s =
     res_bind (rule_pass max_plans rewrite_rules s) (\<lambda>p. case p of
         Stuck s' \<Rightarrow> Inr s'
       | PlanLimit s' \<Rightarrow> Inr s'
       | Rewritten s' \<Rightarrow> search n max_plans s')"

definition plan_from_operations ::
  "logical_operation_plan \<Rightarrow> operation_spec list \<Rightarrow> logical_operation_plan" where
  "plan_from_operations template ops =
     (if operation_signature ops = operation_signature (lp_operations template) then template
      else \<lparr>lp_preset = lp_preset template, lp_operations = ops,
            lp_lineage = resolve_column_lineage ops\<rparr>)"

definition optimization_of :: "logical_operation_plan \<Rightarrow> search_state \<Rightarrow> optimization_result" where
  "optimization_of plan s =
     \<lparr>canonical_plan = plan, optimized_plan = plan_from_operations plan (st_current s),
      candidate_plans = map (plan_from_operations plan) (st_candidates s),
      opt_trace = st_trace s, explored_plans = length (st_seen s)\<rparr>"

definition start_search :: "operation_spec list \<Rightarrow> search_state" where
  "start_search ops =
     \<lparr>st_current = ops, st_seen = [operation_signature ops], st_candidates = [ops], st_trace = []\<rparr>"

definition optimize_logical_plan ::
  "logical_operation_plan \<Rightarrow> bool \<Rightarrow> int \<Rightarrow> int \<Rightarrow> optimization_result result" where
  "optimize_logical_plan plan enabled max_iterations max_plans =
     (if \<not> enabled
      then Inr \<lparr>canonical_plan = plan, optimized_plan = plan, candidate_plans = [plan],
                opt_trace = [], explored_plans = 1\<rparr>
      else res_bind (search (nat (max 1 max_iterations)) max_plans (start_search (lp_operations plan)))
             (\<lambda>s. Inr (optimization_of plan s)))"

section \<open>The search loop\<close>

fun pass_state :: "pass \<Rightarrow> search_state" where
  "pass_state (Stuck s) = s"
| "pass_state (Rewritten s) = s"
| "pass_state (PlanLimit s) = s"

lemma record_decision_fields [simp]:
  "st_current (record_decision i b r x y s) = st_current s"
  "st_seen (record_decision i b r x y s) = st_seen s"
  "st_candidates (record_decision i b r x y s) = st_candidates s"
  "filter rd_applied (st_trace (record_decision i False r x y s)) = filter rd_applied (st_trace s)"
  by (simp_all add: record_decision_def)

lemma accept_fields [simp]:
  "st_current (accept i c r s) = c"
  "st_seen (accept i c r s) = st_seen s @ [operation_signature c]"
  "st_candidates (accept i c r s) = st_candidates s @ [c]"
  "length (filter rd_applied (st_trace (accept i c r s))) = Suc (length (filter rd_applied (st_trace s)))"
  by (simp_all add: accept_def record_decision_def)

text \<open>
  A property of the search state is kept by the loop when it survives a rejected decision and an
  accepted rewrite of one of the rules.
\<close>

definition keeps_rejected :: "(search_state \<Rightarrow> bool) \<Rightarrow> bool" where
  "keeps_rejected P = (\<forall>s i r x y. P s \<longrightarrow> P (record_decision i False r x y s))"

definition keeps_accepted :: "int \<Rightarrow> (search_state \<Rightarrow> bool) \<Rightarrow> bool" where
  "keeps_accepted mp P =
     (\<forall>s i rule c r. P s \<longrightarrow> (i, rule) \<in> set rewrite_rules \<longrightarrow> rule (st_current s) = Inr (Some (c, r))
        \<longrightarrow> operation_signature c \<notin> set (st_seen s) \<longrightarrow> int (length (st_seen s)) < mp
        \<longrightarrow> validate_rewrite (st_current s) c = Inr () \<longrightarrow> P (accept i c r s))"

lemma rule_pass_keeps:
  assumes rej: "keeps_rejected P" and acc: "keeps_accepted mp P"
    and "rule_pass mp rules s = Inr p" and "set rules \<subseteq> set rewrite_rules" and "P s"
  shows "P (pass_state p)"
  using acc assms(3-5)
proof (induction mp rules s rule: rule_pass.induct)
  case (1 mp s)
  then show ?case by auto
next
  case (2 mp i rule rules s)
  from "2.prems"(2) obtain m where m: "rule (st_current s) = Inr m"
    by (auto simp: res_bind_eq_Inr)
  show ?case
  proof (cases m)
    case None
    with 2 m show ?thesis by simp
  next
    case (Some cr)
    obtain c r where cr: "cr = (c, r)" by force
    have rejected: "P (record_decision i False r' x y s)" for r' x y
      using rej "2.prems"(4) unfolding keeps_rejected_def by blast
    show ?thesis
    proof (cases "operation_signature c \<in> set (st_seen s)")
      case True
      with 2 m Some cr rejected show ?thesis by simp
    next
      case new: False
      show ?thesis
      proof (cases "mp \<le> int (length (st_seen s))")
        case True
        with new "2.prems"(2) m Some cr rejected show ?thesis by auto
      next
        case False
        with new "2.prems"(2) m Some cr have valid: "validate_rewrite (st_current s) c = Inr ()"
          and p: "p = Rewritten (accept i c r s)" by (auto simp: res_bind_eq_Inr)
        have rule: "(i, rule) \<in> set rewrite_rules" using "2.prems"(3) by simp
        have fired: "rule (st_current s) = Inr (Some (c, r))" using m Some cr by simp
        have "int (length (st_seen s)) < mp" using False by simp
        from "2.prems"(1) [unfolded keeps_accepted_def, rule_format, OF "2.prems"(4) rule fired new this valid]
        have "P (accept i c r s)" .
        with p show ?thesis by simp
      qed
    qed
  qed
qed

lemma search_keeps:
  assumes "keeps_rejected P" and "keeps_accepted mp P" and "search n mp s = Inr t" and "P s"
  shows "P t"
  using assms(3,4)
proof (induction n arbitrary: s)
  case (Suc n)
  from Suc.prems(1) obtain p where p: "rule_pass mp rewrite_rules s = Inr p"
    by (auto simp: res_bind_eq_Inr)
  have "P (pass_state p)" using rule_pass_keeps [OF assms(1,2) p order_refl Suc.prems(2)] .
  with Suc p show ?case by (cases p) auto
qed simp

text \<open>The bookkeeping of the search.\<close>

definition search_ok :: "int \<Rightarrow> operation_spec list \<Rightarrow> search_state \<Rightarrow> bool" where
  "search_ok mp ops s =
     (st_seen s = map operation_signature (st_candidates s) \<and> distinct (map operation_signature (st_candidates s))
      \<and> st_candidates s \<noteq> [] \<and> hd (st_candidates s) = ops \<and> last (st_candidates s) = st_current s
      \<and> int (length (st_candidates s)) \<le> max 1 mp
      \<and> length (st_candidates s) = Suc (length (filter rd_applied (st_trace s))))"

lemma search_ok_start: "search_ok mp ops (start_search ops)"
  by (simp add: search_ok_def start_search_def)

lemma search_ok_rejected: "keeps_rejected (search_ok mp ops)"
  unfolding keeps_rejected_def search_ok_def by simp

lemma search_ok_accepted: "keeps_accepted mp (search_ok mp ops)"
  unfolding keeps_accepted_def search_ok_def by auto

text \<open>What the guard on each rewrite keeps, over the whole search.\<close>

definition observables :: "operation_spec list \<Rightarrow> string list \<times> string set \<times> string list" where
  "observables ops = (write_ids ops, produced_columns ops, barrier_ids ops)"

lemma validate_rewrite_Inr:
  "validate_rewrite a b = Inr u \<longleftrightarrow> observables a = observables b"
  by (auto simp: validate_rewrite_def observables_def raise_if_eq_Inr)

definition same_observables :: "operation_spec list \<Rightarrow> search_state \<Rightarrow> bool" where
  "same_observables ops s =
     (observables (st_current s) = observables ops \<and>
      (\<forall>c\<in>set (st_candidates s). observables c = observables ops))"

lemma same_observables_kept:
  "keeps_rejected (same_observables ops)" "keeps_accepted mp (same_observables ops)"
  by (auto simp: keeps_rejected_def keeps_accepted_def same_observables_def validate_rewrite_Inr)

text \<open>Reading an enabled optimization as a search.\<close>

lemma optimize_search:
  assumes "optimize_logical_plan plan True mi mp = Inr r"
  obtains s n where "search n mp (start_search (lp_operations plan)) = Inr s" "r = optimization_of plan s"
  using assms by (auto simp: optimize_logical_plan_def res_bind_eq_Inr)

lemma plan_from_operations_signature:
  "operation_signature (lp_operations (plan_from_operations plan ops)) = operation_signature ops"
  by (simp add: plan_from_operations_def)

text \<open>
  C13: The rewrite loop explores pairwise different plans: the candidates start with the canonical
  plan, end with the optimized one, have pairwise distinct signatures, are as many as the explored
  plans and as the applied decisions of the trace plus one, and never exceed the plan limit.
\<close>

theorem optimize_explores_distinct_plans:
  assumes "optimize_logical_plan plan True mi mp = Inr r"
  shows "distinct (map (operation_signature \<circ> lp_operations) (candidate_plans r)) \<and>
    hd (candidate_plans r) = plan \<and> last (candidate_plans r) = optimized_plan r \<and>
    explored_plans r = length (candidate_plans r) \<and> int (explored_plans r) \<le> max 1 mp \<and>
    explored_plans r = Suc (length (filter rd_applied (opt_trace r)))"
proof -
  from assms obtain s n where run: "search n mp (start_search (lp_operations plan)) = Inr s"
    and r: "r = optimization_of plan s" by (rule optimize_search)
  have ok: "search_ok mp (lp_operations plan) s"
    using search_keeps [OF search_ok_rejected search_ok_accepted run search_ok_start] .
  have sig: "map (operation_signature \<circ> lp_operations) (candidate_plans r) = st_seen s"
    using ok by (simp add: r optimization_of_def search_ok_def comp_def plan_from_operations_signature)
  have "hd (candidate_plans r) = plan" "last (candidate_plans r) = optimized_plan r"
    using ok by (simp_all add: r optimization_of_def search_ok_def hd_map last_map plan_from_operations_def)
  then show ?thesis
    using ok sig by (simp add: search_ok_def) (simp add: r optimization_of_def search_ok_def)
qed

text \<open>Equal signatures mean equal observables up to the barriers, which read the property record.\<close>

lemma operation_to_dict_props:
  assumes "operation_to_dict a = operation_to_dict b"
  shows "op_id a = op_id b" "side_effect (op_props a) = side_effect (op_props b)"
    "output_names a = output_names b" "is_fixed_barrier a = is_fixed_barrier b"
  using assms operation_to_dict_fields [OF assms]
  by (simp_all add: operation_to_dict_def properties_to_dict_def output_names_def is_fixed_barrier_def)

lemma observables_signature:
  assumes "operation_signature a = operation_signature b"
  shows "observables a = observables b"
proof -
  have "list_all2 (\<lambda>x y. operation_to_dict x = operation_to_dict y) a b"
    using assms unfolding operation_signature_def
    by (simp add: list_all2_conv_all_nth list_eq_iff_nth_eq)
  then show ?thesis
  proof (induction rule: list_all2_induct)
    case (Cons x xs y ys)
    from operation_to_dict_props [OF Cons.hyps(1)] Cons.IH show ?case
      by (simp add: observables_def write_ids_def produced_columns_def barrier_ids_def)
  qed simp
qed

text \<open>
  C12: Every candidate of the optimizer keeps the observable shape of the canonical plan: the
  identifiers and the order of its side effects and of its fixed barriers, and its set of produced
  columns.
\<close>

theorem optimize_preserves_observables:
  assumes "optimize_logical_plan plan enabled mi mp = Inr r"
  shows "list_all (\<lambda>c. observables (lp_operations c) = observables (lp_operations plan))
    (optimized_plan r # candidate_plans r)"
proof (cases enabled)
  case True
  with assms have "optimize_logical_plan plan True mi mp = Inr r" by simp
  then obtain s n where run: "search n mp (start_search (lp_operations plan)) = Inr s"
    and r: "r = optimization_of plan s" by (rule optimize_search)
  have "same_observables (lp_operations plan) s"
    by (rule search_keeps [OF same_observables_kept run])
      (simp add: same_observables_def start_search_def)
  moreover have "observables (lp_operations (plan_from_operations plan ops)) = observables ops" for ops
    by (rule observables_signature) (rule plan_from_operations_signature)
  ultimately show ?thesis by (simp add: r optimization_of_def same_observables_def list_all_iff)
next
  case False
  with assms have "r = \<lparr>canonical_plan = plan, optimized_plan = plan, candidate_plans = [plan],
      opt_trace = [], explored_plans = 1\<rparr>" by (simp add: optimize_logical_plan_def)
  then show ?thesis by simp
qed

end
