(* ===== verification/OptimizerMeaning.thy ===== *)
theory OptimizerMeaning
  imports Optimizer
begin

text \<open>
  The meaning of the optimizer's rewrites: a row semantics of logical operations over an engine
  given as a parameter, the soundness of every rule of \<open>core/optimizer.py\<close> with respect to it, the
  plans on which a rule goes wrong, and the plans that no rule touches.
\<close>

section \<open>A row semantics for plans\<close>

text \<open>
  What executes a plan is a query engine outside this repository; it is a record of functions:
  whether a predicate holds in a row, the value of one calculated expression, the result of a
  cast (None: it fails) and the effect of every other operation on a table. A calculation reads
  the row before it, as a SELECT list does.
\<close>

type_synonym 'v row = "string \<Rightarrow> 'v option"

record 'v engine =
  eng_holds :: "string \<Rightarrow> 'v row \<Rightarrow> bool"
  eng_value :: "pyval \<Rightarrow> 'v row \<Rightarrow> 'v option"
  eng_cast :: "pydict \<Rightarrow> 'v row \<Rightarrow> 'v row option"
  eng_table :: "operation_spec \<Rightarrow> 'v row list \<Rightarrow> 'v row list option"

definition expr_name :: "pyval \<Rightarrow> string" where
  "expr_name e = str_or (get_key (dict_of e) ''name'') []"

definition calc_row :: "'v engine \<Rightarrow> pyval list \<Rightarrow> 'v row \<Rightarrow> 'v row" where
  "calc_row eng es r = fold (\<lambda>e acc. acc(expr_name e := eng_value eng e r)) (filter is_dict es) r"

definition projected :: "operation_spec \<Rightarrow> string \<Rightarrow> bool" where
  "projected op c = ((op_include op = [] \<or> c \<in> set (op_include op)) \<and> c \<notin> set (op_exclude op))"

definition project_row :: "operation_spec \<Rightarrow> 'v row \<Rightarrow> 'v row" where
  "project_row op r = (\<lambda>c. if projected op c then r c else None)"

definition filter_sql :: "operation_spec \<Rightarrow> string" where
  "filter_sql op = py_str (get_key (op_config op) ''sql'')"

definition run_op :: "'v engine \<Rightarrow> operation_spec \<Rightarrow> 'v row list \<Rightarrow> 'v row list option" where
  "run_op eng op rows =
     (if op_kind op = FILTER then Some (filter (eng_holds eng (filter_sql op)) rows)
      else if op_kind op = PROJECTION then Some (map (project_row op) rows)
      else if op_kind op = TYPE_CAST then those (map (eng_cast eng (op_config op)) rows)
      else if op_kind op = ADD_CALC \<and> \<not> is_fixed_barrier op
      then (case expressions_of op of Inl _ \<Rightarrow> None | Inr es \<Rightarrow> Some (map (calc_row eng es) rows))
      else eng_table eng op rows)"

fun run_ops :: "'v engine \<Rightarrow> operation_spec list \<Rightarrow> 'v row list \<Rightarrow> 'v row list option" where
  "run_ops eng [] rows = Some rows"
| "run_ops eng (op # ops) rows = Option.bind (run_op eng op rows) (run_ops eng ops)"

text \<open>
  What a plan relies on. The declared input columns of a filter and of a calculation are the only
  ones it reads, the declared outputs the only ones a calculation or a cast writes, a cast that is
  declared total never fails, projections list their columns, and calculations are row-local
  (not window expressions).
\<close>

definition agree_on :: "string set \<Rightarrow> 'v row \<Rightarrow> 'v row \<Rightarrow> bool" where
  "agree_on C r r' = (\<forall>c\<in>C. r c = r' c)"

definition filter_wf :: "'v engine \<Rightarrow> operation_spec \<Rightarrow> bool" where
  "filter_wf eng op =
     (has_key (op_config op) ''sql'' \<and>
      (\<forall>r r'. agree_on (set (op_inputs op)) r r' \<longrightarrow>
         eng_holds eng (filter_sql op) r = eng_holds eng (filter_sql op) r'))"

definition calc_wf :: "'v engine \<Rightarrow> operation_spec \<Rightarrow> bool" where
  "calc_wf eng op =
     (\<not> is_fixed_barrier op \<and>
      (\<exists>es. expressions_of op = Inr es \<and> expr_name ` set (filter is_dict es) \<subseteq> set (output_names op) \<and>
        (\<forall>e\<in>set es. \<forall>r r'. agree_on (set (op_inputs op)) r r' \<longrightarrow> eng_value eng e r = eng_value eng e r')))"

definition cast_wf :: "'v engine \<Rightarrow> operation_spec \<Rightarrow> bool" where
  "cast_wf eng op =
     ((prop_total (op_props op) \<longrightarrow> (\<forall>r. eng_cast eng (op_config op) r \<noteq> None)) \<and>
      (\<forall>r r'. eng_cast eng (op_config op) r = Some r' \<longrightarrow> agree_on (- set (output_names op)) r r'))"

definition projection_wf :: "operation_spec \<Rightarrow> bool" where
  "projection_wf op =
     (\<exists>inc exc. get_key (op_config op) ''include'' = strs inc \<and> get_key (op_config op) ''exclude'' = strs exc)"

definition op_wf :: "'v engine \<Rightarrow> operation_spec \<Rightarrow> bool" where
  "op_wf eng op =
     ((op_kind op = FILTER \<longrightarrow> filter_wf eng op) \<and> (op_kind op = ADD_CALC \<longrightarrow> calc_wf eng op) \<and>
      (op_kind op = TYPE_CAST \<longrightarrow> cast_wf eng op) \<and> (op_kind op = PROJECTION \<longrightarrow> projection_wf op))"

text \<open>What every SQL engine gives: conjunction, and that casting twice to the same type is casting once.\<close>

definition engine_wf :: "'v engine \<Rightarrow> bool" where
  "engine_wf eng =
     ((\<forall>a b r. eng_holds eng (and_sql a b) r = (eng_holds eng a r \<and> eng_holds eng b r)) \<and>
      (\<forall>a b r r'. py_eq (VDict a) (VDict b) \<longrightarrow> eng_cast eng a r = Some r' \<longrightarrow> eng_cast eng b r' = Some r'))"

section \<open>Each rule keeps the meaning of a plan\<close>

lemma run_ops_append: "run_ops eng (a @ b) rows = Option.bind (run_ops eng a rows) (run_ops eng b)"
proof (induction a arbitrary: rows)
  case (Cons x a)
  then show ?case by (cases "run_op eng x rows") simp_all
qed simp

lemma run_ops_Nil: "run_ops eng [] = Some"
  by (rule ext) simp

lemma run_ops_two: "run_ops eng [a, b] rows = Option.bind (run_op eng a rows) (run_op eng b)"
  by (cases "run_op eng a rows") (simp_all add: run_ops_Nil)

definition sound_pair :: "'v engine \<Rightarrow> pair_rule \<Rightarrow> bool" where
  "sound_pair eng f =
     (\<forall>l r new reason. op_wf eng l \<longrightarrow> op_wf eng r \<longrightarrow> f l r = Inr (Some (new, reason)) \<longrightarrow>
        list_all (op_wf eng) new \<and> run_ops eng new = run_ops eng [l, r])"

definition sound_rule :: "'v engine \<Rightarrow> rule \<Rightarrow> bool" where
  "sound_rule eng f =
     (\<forall>ops new reason. list_all (op_wf eng) ops \<longrightarrow> f ops = Inr (Some (new, reason)) \<longrightarrow>
        list_all (op_wf eng) new \<and> run_ops eng new = run_ops eng ops)"

lemma run_ops_Cons_cong: "run_ops eng a = run_ops eng b \<Longrightarrow> run_ops eng (x # a) = run_ops eng (x # b)"
  by (rule ext) simp

lemma scan_pairs_sound:
  assumes sound: "sound_pair eng f"
  shows "sound_rule eng (scan_pairs f)"
proof -
  have "list_all (op_wf eng) new \<and> run_ops eng new = run_ops eng ops"
    if "list_all (op_wf eng) ops" "scan_pairs f ops = Inr (Some (new, reason))" for ops new reason
    using sound that
  proof (induction f ops arbitrary: new reason rule: scan_pairs.induct [case_names step nil one])
    case (step f' l r ops)
    from step.prems(3) obtain m where m: "f' l r = Inr m" by (auto simp: res_bind_eq_Inr)
    have wf: "op_wf eng l" "op_wf eng r" "list_all (op_wf eng) ops" using step.prems(2) by simp_all
    show ?case
    proof (cases m)
      case None
      with step.prems(3) m obtain new' where
        more: "scan_pairs f' (r # ops) = Inr (Some (new', reason))" and new: "new = l # new'"
        by (auto simp: res_bind_eq_Inr)
      from step.IH [OF m None step.prems(1) _ more] wf new
        run_ops_Cons_cong [of eng new' "r # ops" l] show ?thesis
        by (simp del: run_ops.simps)
    next
      case (Some nr)
      with step.prems(3) m obtain new' where new: "new = new' @ ops" "m = Some (new', reason)"
        by (cases nr) auto
      with step.prems(1) wf m have "list_all (op_wf eng) new'" "run_ops eng new' = run_ops eng [l, r]"
        unfolding sound_pair_def by blast+
      moreover from this(2) have "run_ops eng new = run_ops eng ([l, r] @ ops)"
        unfolding new(1) by (intro ext) (simp only: run_ops_append)
      ultimately show ?thesis using wf new by simp
    qed
  qed simp_all
  then show ?thesis unfolding sound_rule_def by blast
qed

lemma agree_on_refl [simp]: "agree_on C r r"
  by (simp add: agree_on_def)

lemma agree_on_subset: "agree_on D r r' \<Longrightarrow> C \<subseteq> D \<Longrightarrow> agree_on C r r'"
  by (auto simp: agree_on_def)

lemma run_filter: "op_kind op = FILTER \<Longrightarrow> run_op eng op rows = Some (filter (eng_holds eng (filter_sql op)) rows)"
  by (simp add: run_op_def)

lemma run_projection: "op_kind op = PROJECTION \<Longrightarrow> run_op eng op rows = Some (map (project_row op) rows)"
  by (simp add: run_op_def)

lemma run_cast: "op_kind op = TYPE_CAST \<Longrightarrow> run_op eng op rows = those (map (eng_cast eng (op_config op)) rows)"
  by (simp add: run_op_def)

lemma run_calc:
  "op_kind op = ADD_CALC \<Longrightarrow> \<not> is_fixed_barrier op \<Longrightarrow> expressions_of op = Inr es \<Longrightarrow>
     run_op eng op rows = Some (map (calc_row eng es) rows)"
  by (simp add: run_op_def)

text \<open>A filter commutes with a row map that keeps what the filter reads.\<close>

lemma filter_map_commute:
  assumes "filter_wf eng f" and "\<And>r. agree_on (set (op_inputs f)) (g r) r"
  shows "filter (eng_holds eng (filter_sql f)) (map g rows) = map g (filter (eng_holds eng (filter_sql f)) rows)"
proof -
  have "eng_holds eng (filter_sql f) (g r) = eng_holds eng (filter_sql f) r" for r
    using assms unfolding filter_wf_def by blast
  then show ?thesis by (simp add: filter_map comp_def)
qed

lemma calc_row_other: "c \<notin> expr_name ` set (filter is_dict es) \<Longrightarrow> calc_row eng es r c = r c"
proof -
  have "c \<notin> expr_name ` set xs \<Longrightarrow> fold (\<lambda>e acc. acc(expr_name e := eng_value eng e r)) xs s c = s c" for xs s
    by (induction xs arbitrary: s) auto
  then show "c \<notin> expr_name ` set (filter is_dict es) \<Longrightarrow> calc_row eng es r c = r c"
    by (simp add: calc_row_def)
qed

lemma calc_row_agree:
  assumes "calc_wf eng op" and "expressions_of op = Inr es" and "C \<inter> set (output_names op) = {}"
  shows "agree_on C (calc_row eng es r) r"
  unfolding agree_on_def
proof
  fix c assume "c \<in> C"
  with assms have "c \<notin> expr_name ` set (filter is_dict es)" unfolding calc_wf_def by auto
  then show "calc_row eng es r c = r c" by (rule calc_row_other)
qed

lemma filter_over_calc_sound: "sound_pair eng filter_over_calc"
  unfolding sound_pair_def
proof (intro allI impI)
  fix c f new reason
  assume wf: "op_wf eng c" "op_wf eng f" and fire: "filter_over_calc c f = Inr (Some (new, reason))"
  from fire have k: "op_kind c = ADD_CALC" "op_kind f = FILTER" and new: "new = [f, c]"
    and ind: "set (op_inputs f) \<inter> set (output_names c) = {}"
    by (auto simp: filter_over_calc_def split: if_splits)
  from wf k have c: "calc_wf eng c" and f: "filter_wf eng f" by (simp_all add: op_wf_def)
  then obtain es where es: "expressions_of c = Inr es" and b: "\<not> is_fixed_barrier c"
    by (auto simp: calc_wf_def)
  have "run_ops eng [f, c] rows = run_ops eng [c, f] rows" for rows
    unfolding run_ops_two run_filter [OF k(2)] run_calc [OF k(1) b es]
    using filter_map_commute [OF f, of "calc_row eng es"] calc_row_agree [OF c es ind] by (simp add: run_filter [OF k(2)] run_calc [OF k(1) b es])
  with wf new show "list_all (op_wf eng) new \<and> run_ops eng new = run_ops eng [c, f]"
    by (simp only: list.pred_inject simp_thms fun_eq_iff new)
qed

lemma filter_over_cast_sound: "sound_pair eng filter_over_cast"
  unfolding sound_pair_def
proof (intro allI impI)
  fix c f new reason
  assume wf: "op_wf eng c" "op_wf eng f" and fire: "filter_over_cast c f = Inr (Some (new, reason))"
  from fire have k: "op_kind c = TYPE_CAST" "op_kind f = FILTER" and new: "new = [f, c]"
    and total: "prop_total (op_props c)" and ind: "set (op_inputs f) \<inter> set (output_names c) = {}"
    by (auto simp: filter_over_cast_def split: if_splits)
  from wf k have c: "cast_wf eng c" and f: "filter_wf eng f" by (simp_all add: op_wf_def)
  define g where "g r = the (eng_cast eng (op_config c) r)" for r
  have g: "eng_cast eng (op_config c) = (\<lambda>r. Some (g r))"
    using c total by (auto simp: cast_wf_def g_def)
  have "agree_on (- set (output_names c)) r (g r)" for r
    using c g by (simp add: cast_wf_def)
  then have "agree_on (set (op_inputs f)) (g r) r" for r
    using ind unfolding agree_on_def by (metis ComplI disjoint_iff)
  note commute = filter_map_commute [OF f this]
  have those: "those (map (\<lambda>r. Some (g r)) rows) = Some (map g rows)" for rows
    by (induction rows) simp_all
  have "run_ops eng [f, c] rows = run_ops eng [c, f] rows" for rows
    unfolding run_ops_two run_filter [OF k(2)] run_cast [OF k(1)] g those
    by (simp add: run_filter [OF k(2)] run_cast [OF k(1)] g those commute)
  with wf new show "list_all (op_wf eng) new \<and> run_ops eng new = run_ops eng [c, f]"
    by (simp only: list.pred_inject simp_thms fun_eq_iff new)
qed

lemma config_set_strs:
  "get_key (op_config op) k = strs xs \<Longrightarrow> config_set op k = Inr ys \<Longrightarrow>
     ys = map VStr xs \<and> config_strings (op_config op) k = xs"
  by (cases xs) (auto simp: config_set_def config_strings_def strs_def py_or_def raise_if_eq_Inr comp_def)

lemma filter_over_projection_sound: "sound_pair eng filter_over_projection"
  unfolding sound_pair_def
proof (intro allI impI)
  fix p f new reason
  assume wf: "op_wf eng p" "op_wf eng f" and fire: "filter_over_projection p f = Inr (Some (new, reason))"
  from fire obtain inc exc where k: "op_kind p = PROJECTION" "op_kind f = FILTER" and new: "new = [f, p]"
    and inc: "config_set p ''include'' = Inr inc" and exc: "config_set p ''exclude'' = Inr exc"
    and ok: "inc = [] \<or> VStr ` set (op_inputs f) \<subseteq> set inc" "VStr ` set (op_inputs f) \<inter> set exc = {}"
    by (auto simp only: filter_over_projection_def res_bind_eq_Inr sum.inject option.inject prod.inject
        option.distinct split: if_splits)
  from wf k have p: "projection_wf p" and f: "filter_wf eng f" by (simp_all add: op_wf_def)
  from p obtain xs ys where "get_key (op_config p) ''include'' = strs xs"
    "get_key (op_config p) ''exclude'' = strs ys" unfolding projection_wf_def by blast
  from config_set_strs [OF this(1) inc] config_set_strs [OF this(2) exc] ok
  have "projected p c" if "c \<in> set (op_inputs f)" for c
    using that unfolding projected_def op_include_def op_exclude_def by auto
  then have "agree_on (set (op_inputs f)) (project_row p r) r" for r
    by (simp add: agree_on_def project_row_def)
  from filter_map_commute [OF f this] have "run_ops eng [f, p] rows = run_ops eng [p, f] rows" for rows
    unfolding run_ops_two run_filter [OF k(2)] run_projection [OF k(1)]
    by (simp add: run_filter [OF k(2)] run_projection [OF k(1)])
  with wf new show "list_all (op_wf eng) new \<and> run_ops eng new = run_ops eng [p, f]"
    by (simp only: list.pred_inject simp_thms fun_eq_iff new)
qed

lemma those_idem:
  assumes "\<And>r r'. f r = Some r' \<Longrightarrow> g r' = Some r'"
  shows "Option.bind (those (map f rows)) (\<lambda>rs. those (map g rs)) = those (map f rows)"
proof (induction rows)
  case (Cons r rows)
  then show ?case using assms by (cases "f r"; cases "those (map f rows)") (auto simp: o_def)
qed simp

lemma duplicate_cast_sound: "engine_wf eng \<Longrightarrow> sound_pair eng duplicate_cast"
  unfolding sound_pair_def
proof (intro allI impI)
  fix l r new reason
  assume eng: "engine_wf eng" and wf: "op_wf eng l" "op_wf eng r"
    and fire: "duplicate_cast l r = Inr (Some (new, reason))"
  from fire have k: "op_kind l = TYPE_CAST" "op_kind r = TYPE_CAST" and new: "new = [l]"
    and same: "py_eq (VDict (op_config l)) (VDict (op_config r))"
    by (auto simp only: duplicate_cast_def sum.inject option.inject prod.inject option.distinct split: if_splits)
  have "eng_cast eng (op_config r) s = Some s" if "eng_cast eng (op_config l) t = Some s" for s t
    using eng same that unfolding engine_wf_def by blast
  then have "run_ops eng [l] rows = run_ops eng [l, r] rows" for rows
    unfolding run_ops_two run_cast [OF k(1)] run_cast [OF k(2)]
    by (simp only: run_ops.simps run_ops_Nil run_cast [OF k(1)] those_idem) simp
  with wf new show "list_all (op_wf eng) new \<and> run_ops eng new = run_ops eng [l, r]"
    by (simp only: list.pred_inject simp_thms fun_eq_iff new)
qed

lemma merge_filters_sound: "engine_wf eng \<Longrightarrow> sound_pair eng merge_filters"
  unfolding sound_pair_def
proof (intro allI impI)
  fix l r new reason
  assume eng: "engine_wf eng" and wf: "op_wf eng l" "op_wf eng r"
    and fire: "merge_filters l r = Inr (Some (new, reason))"
  from fire obtain a b m where k: "op_kind l = FILTER" "op_kind r = FILTER" and new: "new = [m]"
    and a: "config_item (op_config l) ''sql'' = Inr a" and b: "config_item (op_config r) ''sql'' = Inr b"
    and m: "m = l\<lparr>op_id := merged_id l r, op_config := [(''sql'', VStr (and_sql (py_str a) (py_str b)))],
      op_inputs := dict_fromkeys (op_inputs l @ op_inputs r)\<rparr>"
    unfolding merge_filters_def
    by (auto simp only: res_bind_eq_Inr sum.inject option.inject prod.inject option.distinct split: if_splits)
  from wf k have l: "filter_wf eng l" and r: "filter_wf eng r" by (simp_all add: op_wf_def)
  have sql: "py_str a = filter_sql l" "py_str b = filter_sql r"
    using a b by (auto simp: config_item_def filter_sql_def get_key_def split: option.splits)
  have mk: "op_kind m = FILTER" using m k by simp
  have msql: "filter_sql m = and_sql (filter_sql l) (filter_sql r)"
    by (simp add: m sql [symmetric]) (simp add: filter_sql_def get_key_def)
  have holds: "eng_holds eng (filter_sql m) s = (eng_holds eng (filter_sql l) s \<and> eng_holds eng (filter_sql r) s)" for s
    using eng unfolding engine_wf_def msql by blast
  have ins: "set (op_inputs m) = set (op_inputs l) \<union> set (op_inputs r)" by (simp add: m)
  have key: "has_key (op_config m) ''sql''" by (simp add: m has_key_def)
  have reads: "eng_holds eng (filter_sql m) s = eng_holds eng (filter_sql m) t"
    if agree: "agree_on (set (op_inputs m)) s t" for s t
  proof -
    from agree have "agree_on (set (op_inputs l)) s t" "agree_on (set (op_inputs r)) s t"
      unfolding ins by (auto simp: agree_on_def)
    with l r have "eng_holds eng (filter_sql l) s = eng_holds eng (filter_sql l) t"
      "eng_holds eng (filter_sql r) s = eng_holds eng (filter_sql r) t"
      unfolding filter_wf_def by blast+
    then show ?thesis by (simp only: holds)
  qed
  from key reads have "filter_wf eng m" unfolding filter_wf_def by blast
  then have "op_wf eng m" using mk by (simp add: op_wf_def)
  moreover have "run_ops eng [m] rows = run_ops eng [l, r] rows" for rows
    by (simp add: run_filter [OF mk] run_filter [OF k(1)] run_filter [OF k(2)])
      (rule filter_cong [OF refl holds])
  ultimately show "list_all (op_wf eng) new \<and> run_ops eng new = run_ops eng [l, r]"
    by (simp only: list.pred_inject simp_thms fun_eq_iff new)
qed

text \<open>Independent calculations may be evaluated together: neither reads what the other writes.\<close>

lemma calc_row_append:
  assumes "\<And>e s. e \<in> set b \<Longrightarrow> eng_value eng e (calc_row eng a s) = eng_value eng e s"
  shows "calc_row eng (a @ b) s = calc_row eng b (calc_row eng a s)"
proof -
  define t where "t = calc_row eng a s"
  have "fold (\<lambda>e acc. acc(expr_name e := eng_value eng e s)) (filter is_dict b) u =
        fold (\<lambda>e acc. acc(expr_name e := eng_value eng e t)) (filter is_dict b) u" for u
    using assms t_def by (intro fold_cong refl) auto
  from this [of t] show ?thesis
    by (simp add: calc_row_def t_def [unfolded calc_row_def, symmetric])
qed

lemma merge_calcs_sound: "sound_pair eng merge_calcs"
  unfolding sound_pair_def
proof (intro allI impI)
  fix l r new reason
  assume wf: "op_wf eng l" "op_wf eng r" and fire: "merge_calcs l r = Inr (Some (new, reason))"
  from fire obtain a b m where k: "op_kind l = ADD_CALC" "op_kind r = ADD_CALC" and new: "new = [m]"
    and a: "expressions_of l = Inr a" and b: "expressions_of r = Inr b"
    and ind: "set (output_names l) \<inter> set (op_inputs r) = {}"
    and m: "m = l\<lparr>op_id := merged_id l r, op_config := [(''expressions'', VList (a @ b))],
      op_inputs := dict_fromkeys (op_inputs l @ op_inputs r), op_outputs := op_outputs l @ op_outputs r,
      op_lineage := fold (\<lambda>(k, v) d. dict_put k v d) (op_lineage r) (op_lineage l)\<rparr>"
    unfolding merge_calcs_def
    by (auto simp only: res_bind_eq_Inr sum.inject option.inject prod.inject option.distinct split: if_splits)
  from wf k have l: "calc_wf eng l" and r: "calc_wf eng r" by (simp_all add: op_wf_def)
  have mk: "op_kind m = ADD_CALC" using m k by simp
  have es: "expressions_of m = Inr (a @ b)"
    by (cases "a @ b") (simp_all add: m expressions_of_def get_key_def py_or_def)
  have barrier: "\<not> is_fixed_barrier m" using l by (simp add: calc_wf_def m is_fixed_barrier_def)
  have outs: "output_names m = output_names l @ output_names r" by (simp add: m output_names_def)
  have ins: "set (op_inputs m) = set (op_inputs l) \<union> set (op_inputs r)" by (simp add: m)
  have lv: "eng_value eng e s = eng_value eng e t" if "e \<in> set a" "agree_on (set (op_inputs l)) s t" for e s t
    using l a that unfolding calc_wf_def by auto
  have rv: "eng_value eng e s = eng_value eng e t" if "e \<in> set b" "agree_on (set (op_inputs r)) s t" for e s t
    using r b that unfolding calc_wf_def by auto
  have reads: "eng_value eng e s = eng_value eng e t"
    if "e \<in> set (a @ b)" "agree_on (set (op_inputs m)) s t" for e s t
  proof -
    from that(2) have "agree_on (set (op_inputs l)) s t" "agree_on (set (op_inputs r)) s t"
      unfolding ins by (auto simp: agree_on_def)
    with that(1) show ?thesis using lv rv by auto
  qed
  have names: "expr_name ` set (filter is_dict (a @ b)) \<subseteq> set (output_names m)"
    using l r a b unfolding outs calc_wf_def by auto
  from barrier es reads names have "calc_wf eng m" unfolding calc_wf_def by blast
  then have m_wf: "op_wf eng m" using mk by (simp add: op_wf_def)
  have "eng_value eng e (calc_row eng a s) = eng_value eng e s" if "e \<in> set b" for e s
    using that ind by (intro rv calc_row_agree [OF l a]) auto
  note append = calc_row_append [of b eng a, OF this]
  have "\<not> is_fixed_barrier l" "\<not> is_fixed_barrier r" using l r by (simp_all add: calc_wf_def)
  note runs = run_calc [OF k(1) this(1) a] run_calc [OF k(2) this(2) b] run_calc [OF mk barrier es]
  have "run_ops eng [m] rows = run_ops eng [l, r] rows" for rows
    by (simp add: runs append)
  with m_wf show "list_all (op_wf eng) new \<and> run_ops eng new = run_ops eng [l, r]"
    by (simp only: list.pred_inject simp_thms fun_eq_iff new)
qed

lemma projection_identity:
  assumes "projection_wf op" and "op_kind op = PROJECTION"
    and "\<not> py_truthy (get_key (op_config op) ''include'')" "\<not> py_truthy (get_key (op_config op) ''exclude'')"
  shows "run_op eng op rows = Some rows"
proof -
  from assms(1) obtain xs ys where x: "get_key (op_config op) ''include'' = strs xs"
    and y: "get_key (op_config op) ''exclude'' = strs ys" unfolding projection_wf_def by blast
  with assms(3,4) have "xs = []" "ys = []" by (simp_all add: strs_def)
  with x y have "projected op c" for c
    by (simp add: projected_def op_include_def op_exclude_def config_strings_def py_or_def strs_def)
  then have "map (project_row op) rows = rows" by (intro map_idI ext) (simp add: project_row_def)
  then show ?thesis using assms(2) by (simp add: run_projection)
qed

lemma remove_identity_projection_sound: "sound_rule eng remove_identity_projection"
proof -
  have "list_all (op_wf eng) new \<and> run_ops eng new = run_ops eng ops"
    if "list_all (op_wf eng) ops" "remove_identity_projection ops = Inr (Some (new, reason))" for ops new reason
    using that
  proof (induction ops arbitrary: new reason rule: remove_identity_projection.induct)
    case (2 op ops)
    show ?case
    proof (cases "op_kind op = PROJECTION \<and> \<not> py_truthy (get_key (op_config op) ''include'')
         \<and> \<not> py_truthy (get_key (op_config op) ''exclude'')")
      case True
      with "2.prems" have "new = ops" "projection_wf op" by (auto simp: op_wf_def)
      with True "2.prems"(1) projection_identity [of op eng] show ?thesis by (auto simp: fun_eq_iff)
    next
      case False
      from "2.prems"(2) False obtain new' where
        more: "remove_identity_projection ops = Inr (Some (new', reason))" and new: "new = op # new'"
        by (auto simp only: remove_identity_projection.simps if_False res_bind_eq_Inr sum.inject
            option.map option.inject map_option_eq_Some)
      from "2.IH" [OF False _ more] "2.prems"(1) new run_ops_Cons_cong [of eng new' ops op]
      show ?thesis by (simp del: run_ops.simps)
    qed
  qed simp
  then show ?thesis unfolding sound_rule_def by blast
qed

lemmas rules_sound = remove_identity_projection_sound
  scan_pairs_sound [OF merge_calcs_sound] scan_pairs_sound [OF filter_over_projection_sound]
  scan_pairs_sound [OF filter_over_calc_sound] scan_pairs_sound [OF filter_over_cast_sound]
  scan_pairs_sound [OF merge_filters_sound] scan_pairs_sound [OF duplicate_cast_sound]

lemma rewrite_rules_sound: "engine_wf eng \<Longrightarrow> (i, rule) \<in> set rewrite_rules \<Longrightarrow> sound_rule eng rule"
  unfolding rewrite_rules_def set_simps insert_iff prod.inject empty_iff
  using rules_sound by blast

definition same_meaning :: "'v engine \<Rightarrow> operation_spec list \<Rightarrow> search_state \<Rightarrow> bool" where
  "same_meaning eng ops s =
     (\<forall>c\<in>insert (st_current s) (set (st_candidates s)).
        list_all (op_wf eng) c \<and> run_ops eng c = run_ops eng ops)"

lemma same_meaning_kept:
  assumes "engine_wf eng"
  shows "keeps_rejected (same_meaning eng ops)" "keeps_accepted mp (same_meaning eng ops)"
proof -
  show "keeps_rejected (same_meaning eng ops)" by (simp add: keeps_rejected_def same_meaning_def)
  show "keeps_accepted mp (same_meaning eng ops)"
    unfolding keeps_accepted_def
  proof (intro allI impI)
    fix s i rule c r
    assume s: "same_meaning eng ops s" and rule: "(i, rule) \<in> set rewrite_rules"
      and fired: "rule (st_current s) = Inr (Some (c, r))"
    have cur: "list_all (op_wf eng) (st_current s)" "run_ops eng (st_current s) = run_ops eng ops"
      using s by (simp_all add: same_meaning_def)
    with rewrite_rules_sound [OF assms rule] fired
    have "list_all (op_wf eng) c \<and> run_ops eng c = run_ops eng ops"
      unfolding sound_rule_def by metis
    with s show "same_meaning eng ops (accept i c r s)" by (simp add: same_meaning_def)
  qed
qed


section \<open>Concrete plans\<close>

definition sample_op ::
  "string \<Rightarrow> operation_kind \<Rightarrow> pydict \<Rightarrow> string list \<Rightarrow> string list \<Rightarrow> operation_properties \<Rightarrow> operation_spec" where
  "sample_op oid k cfg ins outs props =
     \<lparr>op_id = oid, op_kind = k, op_config = cfg, op_inputs = ins,
      op_input_contracts = [], op_outputs = map (\<lambda>n. \<lparr>col_name = n, col_dtype = VNone, col_nullable = VNone,
         col_missing_policy = MISSING_ERROR\<rparr>) outs,
      op_lineage = [], op_group_keys = [], op_partition_keys = [], op_ordering = [], op_props = props\<rparr>"

definition sample_calc :: "operation_properties \<Rightarrow> operation_spec" where
  "sample_calc props = sample_op ''calc'' ADD_CALC
     [(''expressions'', VList [VDict [(''name'', VStr ''z''), (''sql'', VStr ''y * 2'')]])] [''y''] [''z''] props"

definition sample_filter :: "string \<Rightarrow> string \<Rightarrow> operation_spec" where
  "sample_filter oid sql = sample_op oid FILTER [(''sql'', VStr sql)] [''x''] [] (OPERATION_PROPERTIES FILTER)"

definition sample_plan :: "operation_spec list \<Rightarrow> logical_operation_plan" where
  "sample_plan ops = \<lparr>lp_preset = ''0201'', lp_operations = ops, lp_lineage = resolve_column_lineage ops\<rparr>"

definition sample_plan_local :: logical_operation_plan where
  "sample_plan_local = sample_plan
     [sample_calc (OPERATION_PROPERTIES ADD_CALC), sample_filter ''f'' ''x > 0'', sample_filter ''g'' ''x <> 7'']"

definition sample_plan_window :: logical_operation_plan where
  "sample_plan_window = sample_plan [sample_calc window_calc_properties, sample_filter ''f'' ''x > 0'']"

text \<open>
  A concrete engine: a predicate that mentions x holds in the rows where x is positive, an
  expression doubles y, and every other operation writes the number of rows of its table to z.
\<close>

definition sample_engine :: "int engine" where
  "sample_engine =
     \<lparr>eng_holds = (\<lambda>sql r. CHR ''x'' \<in> set sql \<longrightarrow> (case r ''x'' of None \<Rightarrow> False | Some v \<Rightarrow> 0 < v)),
      eng_value = (\<lambda>e r. map_option (\<lambda>v. 2 * v) (r ''y'')),
      eng_cast = (\<lambda>cfg r. Some r),
      eng_table = (\<lambda>op rows. Some (map (\<lambda>r. r(''z'' := Some (int (length rows)))) rows))\<rparr>"

definition sample_rows :: "int row list" where
  "sample_rows = [[''x'' \<mapsto> 3, ''y'' \<mapsto> 5], [''x'' \<mapsto> -1, ''y'' \<mapsto> 6]]"

lemma sample_engine_wf: "engine_wf sample_engine"
  by (auto simp: engine_wf_def sample_engine_def and_sql_def)

lemma sample_filter_wf: "op_wf sample_engine (sample_filter i sql)"
  by (simp add: op_wf_def filter_wf_def sample_filter_def sample_op_def has_key_def sample_engine_def
      agree_on_def filter_sql_def get_key_def)

lemma sample_calc_fields [simp]:
  "op_kind (sample_calc p) = ADD_CALC" "op_props (sample_calc p) = p"
  "op_inputs (sample_calc p) = [''y'']" "output_names (sample_calc p) = [''z'']"
  "op_config (sample_calc p) =
     [(''expressions'', VList [VDict [(''name'', VStr ''z''), (''sql'', VStr ''y * 2'')]])]"
  by (simp_all add: sample_calc_def sample_op_def output_names_def)

lemma sample_calc_wf: "op_wf sample_engine (sample_calc (OPERATION_PROPERTIES ADD_CALC))"
proof -
  let ?e = "VDict [(''name'', VStr ''z''), (''sql'', VStr ''y * 2'')]"
  have es: "expressions_of (sample_calc p) = Inr [?e]" for p
    by (simp add: expressions_of_def get_key_def py_or_def)
  have name: "expr_name ?e = ''z''" by code_simp
  have "\<not> is_fixed_barrier (sample_calc (OPERATION_PROPERTIES ADD_CALC))"
    by (simp add: is_fixed_barrier_def default_properties_def barrier_kinds_def)
  then have "calc_wf sample_engine (sample_calc (OPERATION_PROPERTIES ADD_CALC))"
    unfolding calc_wf_def es by (auto simp: name sample_engine_def agree_on_def)
  then show ?thesis by (simp add: op_wf_def del: OPERATION_PROPERTIES.simps)
qed



theorem optimize_explores_distinct_plans_witness:
  "\<exists>r. optimize_logical_plan sample_plan_local True 8 2 = Inr r \<and> int (explored_plans r) \<le> 2"
proof -
  have "\<not> isl (optimize_logical_plan sample_plan_local True 8 2)" by code_simp
  then obtain r where r: "optimize_logical_plan sample_plan_local True 8 2 = Inr r"
    by (cases "optimize_logical_plan sample_plan_local True 8 2") auto
  with optimize_explores_distinct_plans [OF this] show ?thesis by simp
qed

theorem optimize_preserves_observables_witness:
  "\<exists>r. optimize_logical_plan sample_plan_local True 8 2 = Inr r \<and>
     observables (lp_operations (optimized_plan r)) = observables (lp_operations sample_plan_local)"
proof -
  have "\<not> isl (optimize_logical_plan sample_plan_local True 8 2)" by code_simp
  then obtain r where r: "optimize_logical_plan sample_plan_local True 8 2 = Inr r"
    by (cases "optimize_logical_plan sample_plan_local True 8 2") auto
  with optimize_preserves_observables [OF this] show ?thesis by auto
qed

text \<open>
  Merging a calculation with a window calculation drops the barrier of the second one, so the
  guard of the loop raises and the optimization fails as a whole.
\<close>

lemma window_calc_merge_raises:
  "optimize_logical_plan
     (sample_plan [sample_calc (OPERATION_PROPERTIES ADD_CALC),
                   (sample_calc window_calc_properties)\<lparr>op_id := ''rank'', op_outputs := []\<rparr>]) True 8 32
   = Inl (ValueError ''rewrite.barriers'')"
  by code_simp

section \<open>Compiled plans are fixed points\<close>

definition stuck_pair :: "operation_kind \<Rightarrow> operation_kind \<Rightarrow> bool" where
  "stuck_pair a b = (b \<noteq> FILTER \<and> (a = b \<longrightarrow> a \<notin> {ADD_CALC, TYPE_CAST}))"

lemma scan_pairs_stuck:
  "successively (\<lambda>l r. f l r = Inr None) ops \<Longrightarrow> scan_pairs f ops = Inr None"
  by (induction f ops rule: scan_pairs.induct) simp_all

lemma pair_rules_stuck:
  assumes "stuck_pair (op_kind l) (op_kind r)"
  shows "merge_filters l r = Inr None" "merge_calcs l r = Inr None" "duplicate_cast l r = Inr None"
    "filter_over_projection l r = Inr None" "filter_over_calc l r = Inr None" "filter_over_cast l r = Inr None"
  using assms by (auto simp: stuck_pair_def merge_filters_def merge_calcs_def duplicate_cast_def
      filter_over_projection_def filter_over_calc_def filter_over_cast_def)

definition selective :: "operation_spec \<Rightarrow> bool" where
  "selective op = (op_kind op = PROJECTION \<longrightarrow> py_truthy (get_key (op_config op) ''include'')
     \<or> py_truthy (get_key (op_config op) ''exclude''))"

lemma remove_identity_stuck: "list_all selective ops \<Longrightarrow> remove_identity_projection ops = Inr None"
  by (induction ops) (auto simp: selective_def)

definition unchanged :: "logical_operation_plan \<Rightarrow> optimization_result" where
  "unchanged p = \<lparr>canonical_plan = p, optimized_plan = p, candidate_plans = [p], opt_trace = [], explored_plans = 1\<rparr>"

lemma optimize_stuck:
  assumes "successively (\<lambda>l r. stuck_pair (op_kind l) (op_kind r)) (lp_operations p)"
    and "list_all selective (lp_operations p)"
  shows "optimize_logical_plan p enabled mi mp = Inr (unchanged p)"
proof -
  let ?s = "start_search (lp_operations p)"
  have stuck: "scan_pairs f (lp_operations p) = Inr None"
    if "\<And>l r. stuck_pair (op_kind l) (op_kind r) \<Longrightarrow> f l r = Inr None" for f
    using that by (intro scan_pairs_stuck successively_mono [OF assms(1)])
  have "rule_pass mp rewrite_rules ?s = Inr (Stuck ?s)"
    by (simp add: rewrite_rules_def start_search_def remove_identity_stuck [OF assms(2)] stuck pair_rules_stuck)
  moreover obtain n where "nat (max 1 mi) = Suc n" by (cases "nat (max 1 mi)") auto
  ultimately show ?thesis
    by (simp add: optimize_logical_plan_def optimization_of_def start_search_def plan_from_operations_def unchanged_def)
qed

lemma sorted_wrt_subseq: "subseq xs ys \<Longrightarrow> sorted_wrt P ys \<Longrightarrow> sorted_wrt P xs"
  by (induction rule: list_emb.induct) (auto dest: list_emb_set)

lemma stage_projection_selective: "stage_projection payload = Inr ops \<Longrightarrow> list_all selective ops"
proof -
  assume r: "stage_projection payload = Inr ops"
  show ?thesis
  proof (cases "ops = []")
    case False
    with r obtain inc exc cols op where ne: "\<not> (inc = [] \<and> exc = [])" and ops: "ops = [op]"
      and mk: "mk_operation ''projection'' PROJECTION
        [(''include'', strs inc), (''exclude'', strs exc)] inc cols [] [] [] [] None = Inr op"
      unfolding stage_projection_def
      by (auto simp only: res_bind_eq_Inr one_operation_Inr sum.inject split: if_splits)
    have "op_config op = [(''include'', strs inc), (''exclude'', strs exc)]"
      by (rule mk_operation_Inr(3) [OF mk])
    with ne ops show ?thesis by (simp add: selective_def get_key_def strs_def)
  qed simp
qed

lemma other_kinds_selective:
  "at_most_one k r \<Longrightarrow> k \<noteq> PROJECTION \<Longrightarrow> r = Inr ops \<Longrightarrow> list_all selective ops"
  by (auto simp: at_most_one_def selective_def)

text \<open>
  C14: The optimizer leaves every plan of the 0201 compiler as it is, whatever its limits: no rule
  applies, so the result is the canonical plan alone with an empty trace.
\<close>

theorem compiled_0201_is_fixed_point:
  assumes "compile_0201_logical_plan raw ir = Inr p"
  shows "optimize_logical_plan p enabled mi mp = Inr (unchanged p)"
proof (rule optimize_stuck)
  obtain ops w where p: "lp_operations p = ops @ [w]" and w: "op_kind w = PARTITION_WRITE"
    and sub: "subseq (map op_kind ops) pipeline_0201"
    using compile_0201_kinds [OF assms] by blast
  have "subseq (map op_kind (lp_operations p)) (pipeline_0201 @ [PARTITION_WRITE])"
    unfolding p map_append using sub w by (intro list_emb_append_mono) simp_all
  moreover have "sorted_wrt stuck_pair (pipeline_0201 @ [PARTITION_WRITE])"
    by (simp add: pipeline_0201_def stuck_pair_def)
  ultimately have "successively stuck_pair (map op_kind (lp_operations p))"
    by (intro successively_if_sorted_wrt) (rule sorted_wrt_subseq)
  then show "successively (\<lambda>l r. stuck_pair (op_kind l) (op_kind r)) (lp_operations p)"
    by (simp add: successively_map)
next
  from assms obtain d1 d2 d3 d4 d5 d6 d7 d8 d9 o1 o2 o3 o4 o5 o6 o7 o8 o9 where
    st: "stage_filter d1 = Inr o1" "stage_casts d2 = Inr o2" "stage_add_calc d3 ir = Inr o3"
      "stage_reference_replace d4 = Inr o4" "stage_sort_first d5 = Inr o5"
      "stage_list_restore d6 = Inr o6" "stage_pivot d8 = Inr o8"
    and proj: "stage_projection d7 = Inr o7" and w: "stage_write d9 = Inr o9"
    and ops: "lp_operations p = o1 @ o2 @ o3 @ o4 @ o5 @ o6 @ o7 @ o8 @ o9"
    by (rule compile_0201_stages)
  have "list_all selective o1" "list_all selective o2" "list_all selective o3" "list_all selective o4"
    "list_all selective o5" "list_all selective o6" "list_all selective o8"
    by (rule other_kinds_selective [OF stages_at_most_one(1) _ st(1)]
        other_kinds_selective [OF stages_at_most_one(2) _ st(2)]
        other_kinds_selective [OF stages_at_most_one(3) _ st(3)]
        other_kinds_selective [OF stages_at_most_one(4) _ st(4)]
        other_kinds_selective [OF stages_at_most_one(5) _ st(5)]
        other_kinds_selective [OF stages_at_most_one(6) _ st(6)]
        other_kinds_selective [OF stage_pivot_at_most_one _ st(7)]; simp)+
  moreover have "list_all selective o9" using stage_write_one [OF w] by (auto simp: selective_def)
  ultimately show "list_all selective (lp_operations p)"
    using stage_projection_selective [OF proj] by (simp add: ops)
qed

theorem compiled_0201_is_fixed_point_witness:
  "\<exists>p. compile_0201_logical_plan sample_0201 (VDict []) = Inr p \<and>
     optimize_logical_plan p True 8 32 = Inr (unchanged p)"
  using sample_0201_compiles compiled_0201_is_fixed_point [of sample_0201 "VDict []"] by blast

end
