(* ===== verification/Packing.thy ===== *)
theory Packing
  imports Prelude
begin

text \<open>
  The greedy packing loop that \<open>core/cost_model.py\<close> (groups into tasks) and
  \<open>planners/dataset_shard.py\<close> (sources into slices, slices into cohorts) share: items are appended
  to the current bin in order, a bin is closed before an item that would exceed the limits, and
  after an item that must stand alone. The interface \<open>pack_limits\<close> says what the limits promise;
  its lemmas are the facts that the three loops share.
\<close>

fun greedy_pack ::
  "('w \<Rightarrow> 'x \<Rightarrow> bool) \<Rightarrow> ('w \<Rightarrow> 'x \<Rightarrow> 'w) \<Rightarrow> ('x \<Rightarrow> bool) \<Rightarrow> 'w \<Rightarrow> 'x list \<Rightarrow> 'w \<Rightarrow> 'x list
   \<Rightarrow> 'x list list" where
  "greedy_pack exceeds add alone zero current tot [] = (if current = [] then [] else [current])"
| "greedy_pack exceeds add alone zero current tot (x # xs) =
     (if current \<noteq> [] \<and> exceeds tot x
      then current #
        (if alone x then [x] # greedy_pack exceeds add alone zero [] zero xs
         else greedy_pack exceeds add alone zero [x] (add zero x) xs)
      else
        (if alone x then (current @ [x]) # greedy_pack exceeds add alone zero [] zero xs
         else greedy_pack exceeds add alone zero (current @ [x]) (add tot x) xs))"

text \<open>The loops lose nothing, keep the order and never emit an empty bin.\<close>

lemma concat_greedy_pack: "concat (greedy_pack ex add alone zero cur tot xs) = cur @ xs"
  by (induction ex add alone zero cur tot xs rule: greedy_pack.induct) auto

lemma greedy_pack_nonempty: "[] \<notin> set (greedy_pack ex add alone zero cur tot xs)"
  by (induction ex add alone zero cur tot xs rule: greedy_pack.induct) auto

definition bin_total :: "('w \<Rightarrow> 'x \<Rightarrow> 'w) \<Rightarrow> 'w \<Rightarrow> 'x list \<Rightarrow> 'w" where
  "bin_total add zero b = foldl add zero b"

lemma bin_total_snoc [simp]: "bin_total add zero (b @ [x]) = add (bin_total add zero b) x"
  by (simp add: bin_total_def)

lemma bin_total_Nil [simp]: "bin_total add zero [] = zero"
  by (simp add: bin_total_def)

text \<open>A bin was closed for a reason: the next item did not fit, or an item had to stand alone.\<close>

definition closed_for_reason ::
  "('w \<Rightarrow> 'x \<Rightarrow> bool) \<Rightarrow> ('w \<Rightarrow> 'x \<Rightarrow> 'w) \<Rightarrow> ('x \<Rightarrow> bool) \<Rightarrow> 'w \<Rightarrow> 'x list \<Rightarrow> 'x list \<Rightarrow> bool" where
  "closed_for_reason ex add alone zero b b' = (ex (bin_total add zero b) (hd b') \<or> alone (last b))"

lemma greedy_pack_hd:
  "cur \<noteq> [] \<Longrightarrow> greedy_pack ex add alone zero cur tot xs \<noteq> [] \<and>
     hd (hd (greedy_pack ex add alone zero cur tot xs)) = hd cur"
  by (induction ex add alone zero cur tot xs rule: greedy_pack.induct) (auto simp: hd_append)

lemma greedy_pack_hd_Nil:
  "xs \<noteq> [] \<Longrightarrow> greedy_pack ex add alone zero [] tot xs \<noteq> [] \<and>
     hd (hd (greedy_pack ex add alone zero [] tot xs)) = hd xs"
  using greedy_pack_hd [of "[hd xs]" ex add alone zero] by (cases xs) auto

lemma successively_Cons_hd:
  "successively P (b # bs) \<longleftrightarrow> (bs = [] \<or> P b (hd bs)) \<and> successively P bs"
  by (cases bs) auto

lemma closed_alone: "alone (last b) \<Longrightarrow> closed_for_reason ex add alone zero b b'"
  by (simp add: closed_for_reason_def)

lemma greedy_pack_reasons:
  "tot = bin_total add zero cur \<Longrightarrow>
     successively (closed_for_reason ex add alone zero) (greedy_pack ex add alone zero cur tot xs)"
proof (induction ex add alone zero cur tot xs rule: greedy_pack.induct)
  case (2 ex add alone zero cur tot x xs)
  have one: "add zero x = bin_total add zero [x]" by (simp add: bin_total_def)
  show ?case
  proof (cases "cur \<noteq> [] \<and> ex tot x")
    case True
    with 2 one greedy_pack_hd [of "[x]" ex add alone zero "add zero x" xs] show ?thesis
      by (auto simp: successively_Cons_hd closed_alone) (auto simp: closed_for_reason_def)
  next
    case False
    with 2 show ?thesis by (auto simp: successively_Cons_hd closed_alone)
  qed
qed simp

locale pack_limits =
  fixes exceeds :: "'w \<Rightarrow> 'x \<Rightarrow> bool"
    and add :: "'w \<Rightarrow> 'x \<Rightarrow> 'w"
    and alone :: "'x \<Rightarrow> bool"
    and zero :: 'w
    and within :: "'w \<Rightarrow> bool"
    and valid :: "'x \<Rightarrow> bool"
  assumes within_add: "\<not> exceeds w x \<Longrightarrow> within (add w x)"
    and over: "list_all valid (b @ [y]) \<Longrightarrow> b \<noteq> [] \<Longrightarrow> x \<in> set (b @ [y]) \<Longrightarrow>
      \<not> within (add zero x) \<Longrightarrow> exceeds (bin_total add zero b) y"
begin

definition bin_ok :: "'x list \<Rightarrow> bool" where
  "bin_ok b = (within (bin_total add zero b) \<or> (\<exists>x. b = [x]))"

lemma greedy_pack_bins_ok:
  assumes "tot = bin_total add zero cur" and "cur = [] \<or> bin_ok cur"
  shows "\<forall>b\<in>set (greedy_pack exceeds add alone zero cur tot xs). bin_ok b"
  using assms
proof (induction xs arbitrary: cur tot)
  case (Cons x xs)
  have single: "bin_ok [x]" by (simp add: bin_ok_def)
  have one: "add zero x = bin_total add zero [x]" by (simp add: bin_total_def)
  have rest: "\<forall>b\<in>set (greedy_pack exceeds add alone zero [] zero xs). bin_ok b"
    using Cons.IH [of zero "[]"] by simp
  have rest1: "\<forall>b\<in>set (greedy_pack exceeds add alone zero [x] (add zero x) xs). bin_ok b"
    using Cons.IH [OF one] single by simp
  show ?case
  proof (cases "cur \<noteq> [] \<and> exceeds tot x")
    case True
    with Cons.prems rest rest1 single show ?thesis by auto
  next
    case False
    have ok: "bin_ok (cur @ [x])"
    proof (cases "cur = []")
      case False
      with \<open>\<not> (cur \<noteq> [] \<and> exceeds tot x)\<close> have "within (add tot x)" by (intro within_add) simp
      with Cons.prems(1) show ?thesis by (simp add: bin_ok_def)
    qed (simp add: single)
    moreover have "add tot x = bin_total add zero (cur @ [x])" using Cons.prems(1) by simp
    ultimately have "\<forall>b\<in>set (greedy_pack exceeds add alone zero (cur @ [x]) (add tot x) xs). bin_ok b"
      using Cons.IH [of "add tot x" "cur @ [x]"] by blast
    with False ok rest show ?thesis by auto
  qed
qed auto

text \<open>An item that is too large alone never shares a bin.\<close>

lemma oversized_alone:
  assumes big: "\<not> within (add zero x)"
    and "list_all valid (cur @ xs)" and "tot = bin_total add zero cur" and "x \<in> set cur \<longrightarrow> cur = [x]"
    and "b \<in> set (greedy_pack exceeds add alone zero cur tot xs)" and "x \<in> set b"
  shows "b = [x]"
  using assms(2-6)
proof (induction xs arbitrary: cur tot)
  case Nil
  then show ?case by (auto split: if_splits)
next
  case (Cons y ys)
  have one: "add zero y = bin_total add zero [y]" by (simp add: bin_total_def)
  have ex: "exceeds tot y" if "cur \<noteq> []" "x \<in> set (cur @ [y])"
    using over [OF _ that big] Cons.prems(1,2) by simp
  have nil: "b \<in> set (greedy_pack exceeds add alone zero [] zero ys) \<Longrightarrow> b = [x]"
    using Cons.IH [of "[]" zero] Cons.prems(1,5) by simp
  have single: "b \<in> set (greedy_pack exceeds add alone zero [y] (add zero y) ys) \<Longrightarrow> b = [x]"
    using Cons.IH [of "[y]" "add zero y"] Cons.prems(1,5) one by simp
  show ?case
  proof (cases "cur \<noteq> [] \<and> exceeds tot y")
    case True
    with Cons.prems(3-5) nil single show ?thesis by (auto split: if_splits)
  next
    case False
    with ex have fresh: "cur = [] \<or> x \<notin> set (cur @ [y])" by blast
    then have "x \<in> set (cur @ [y]) \<longrightarrow> cur @ [y] = [x]" by auto
    with Cons.IH [of "cur @ [y]" "add tot y"] Cons.prems(1,2,5)
    have longer: "b \<in> set (greedy_pack exceeds add alone zero (cur @ [y]) (add tot y) ys) \<Longrightarrow> b = [x]"
      by simp
    from False Cons.prems(4,5) nil longer fresh show ?thesis by (auto split: if_splits)
  qed
qed

text \<open>The whole loop from an empty bin: a partition of the items into bins within the limits.\<close>

lemma pack_partition:
  "concat (greedy_pack exceeds add alone zero [] zero xs) = xs \<and>
   [] \<notin> set (greedy_pack exceeds add alone zero [] zero xs) \<and>
   (\<forall>b\<in>set (greedy_pack exceeds add alone zero [] zero xs). bin_ok b)"
  using greedy_pack_bins_ok [of zero "[]"] by (auto simp: concat_greedy_pack greedy_pack_nonempty)

lemma pack_oversized_alone:
  "list_all valid xs \<Longrightarrow> \<not> within (add zero x) \<Longrightarrow>
     b \<in> set (greedy_pack exceeds add alone zero [] zero xs) \<Longrightarrow> x \<in> set b \<Longrightarrow> b = [x]"
  using oversized_alone [of x "[]" xs zero b] by simp

end

end
