(* ===== verification/CostModel.thy ===== *)
theory CostModel
  imports Packing PyValue
begin

text \<open>
  \<open>core/cost_model.py\<close>, \<open>core/barriers.py\<close>, \<open>core/tasks.py\<close>, \<open>planners/tasks.py\<close> and
  \<open>planners/dirty.py\<close>: the state estimates, the packing of complete groups into tasks, the memory
  barrier of a complete group, the partition tasks and the selection of dirty tasks.
\<close>

section \<open>Costs\<close>

record group_cost =
  gc_key :: "pyval list"
  gc_rows :: int
  gc_payload_bytes :: "int option"
  gc_state_bytes :: "int option"
  gc_source_files :: "string set"

record task_cost =
  tc_input_rows :: int
  tc_output_rows :: "int option"
  tc_payload_bytes :: "int option"
  tc_state_bytes :: "int option"
  tc_source_files :: nat
  tc_small_file_penalty :: int
  tc_risk :: string

definition group_risk :: "group_cost \<Rightarrow> string" where
  "group_risk g =
     (if gc_payload_bytes g \<noteq> None \<and> gc_state_bytes g \<noteq> None then ''bounded'' else ''unknown'')"

definition estimate_hash_state_bytes :: "int \<Rightarrow> int option \<Rightarrow> int option \<Rightarrow> int option" where
  "estimate_hash_state_bytes rows key_width payload_width =
     (case (key_width, payload_width) of
        (Some k, Some p) \<Rightarrow> Some (max 0 rows * (24 + max 1 k + max 1 p))
      | _ \<Rightarrow> None)"

text \<open>A frame of zero rows counts as no frame: the code tests the value's truth.\<close>

definition estimate_window_state_bytes :: "int \<Rightarrow> int option \<Rightarrow> int option \<Rightarrow> int option" where
  "estimate_window_state_bytes rows row_width frame_rows =
     (case row_width of
        None \<Rightarrow> None
      | Some w \<Rightarrow>
          let retained = (case frame_rows of None \<Rightarrow> rows | Some f \<Rightarrow> if f = 0 then rows else min rows f)
          in Some (max 0 retained * (16 + max 1 w)))"

definition estimate_join_state_bytes :: "int option \<Rightarrow> int option \<Rightarrow> int option \<Rightarrow> int option" where
  "estimate_join_state_bytes right_rows right_width distinct_keys =
     (case (right_rows, right_width, distinct_keys) of
        (Some r, Some w, Some d) \<Rightarrow> Some (max 0 r * (16 + max 1 w) + max 0 d * 24)
      | _ \<Rightarrow> None)"

section \<open>Packing complete groups\<close>

record pack_budget =
  max_rows :: int
  max_bytes :: int
  max_source_files :: int
  max_groups :: "int option"

record pack_totals =
  pt_rows :: int
  pt_bytes :: int
  pt_files :: "string set"
  pt_groups :: nat

definition empty_totals :: pack_totals where
  "empty_totals = \<lparr>pt_rows = 0, pt_bytes = 0, pt_files = {}, pt_groups = 0\<rparr>"

definition group_bytes :: "pack_budget \<Rightarrow> group_cost \<Rightarrow> int" where
  "group_bytes b g = (case gc_payload_bytes g of Some n \<Rightarrow> n | None \<Rightarrow> max_bytes b)"

definition add_group :: "pack_budget \<Rightarrow> pack_totals \<Rightarrow> group_cost \<Rightarrow> pack_totals" where
  "add_group b t g =
     \<lparr>pt_rows = pt_rows t + gc_rows g, pt_bytes = pt_bytes t + group_bytes b g,
      pt_files = pt_files t \<union> gc_source_files g, pt_groups = Suc (pt_groups t)\<rparr>"

definition group_exceeds :: "pack_budget \<Rightarrow> pack_totals \<Rightarrow> group_cost \<Rightarrow> bool" where
  "group_exceeds b t g =
     (pt_rows t + gc_rows g > max_rows b \<or> pt_bytes t + group_bytes b g > max_bytes b
      \<or> int (card (pt_files t \<union> gc_source_files g)) > max_source_files b
      \<or> (case max_groups b of None \<Rightarrow> False | Some m \<Rightarrow> int (pt_groups t) \<ge> m))"

definition pack_group_costs :: "group_cost list \<Rightarrow> pack_budget \<Rightarrow> group_cost list list" where
  "pack_group_costs groups b =
     greedy_pack (group_exceeds b) (add_group b) (\<lambda>_. False) empty_totals [] empty_totals groups"

section \<open>The cost of a task\<close>

definition sum_known :: "int option list \<Rightarrow> int option" where
  "sum_known xs = (if list_all (\<lambda>x. x \<noteq> None) xs then Some (sum_list (map the xs)) else None)"

definition summarize_task_cost :: "group_cost list \<Rightarrow> int \<Rightarrow> task_cost" where
  "summarize_task_cost items target_rows =
     (let payloads = map gc_payload_bytes items;
          states = map gc_state_bytes items;
          rows = sum_list (map gc_rows items);
          files = \<Union> (set (map gc_source_files items))
      in \<lparr>tc_input_rows = rows, tc_output_rows = None, tc_payload_bytes = sum_known payloads,
          tc_state_bytes = sum_known states, tc_source_files = card files,
          tc_small_file_penalty = (if 0 < rows \<and> rows < max 1 (target_rows div 4) then 1 else 0),
          tc_risk = (if list_all (\<lambda>x. x \<noteq> None) (payloads @ states) then ''bounded'' else ''unknown'')\<rparr>)"

section \<open>The memory barrier of a complete group\<close>

datatype barrier_state = SORT_FIRST_STATE | WINDOW_STATE | PIVOT_STATE | JOIN_BUILD_STATE

record barrier_policy =
  bp_state :: barrier_state
  spill_supported :: bool
  mergeable_aggregations :: "string list"

fun BARRIER_POLICIES :: "barrier_state \<Rightarrow> barrier_policy" where
  "BARRIER_POLICIES PIVOT_STATE =
     \<lparr>bp_state = PIVOT_STATE, spill_supported = True,
      mergeable_aggregations = [''count'', ''sum'', ''min'', ''max'']\<rparr>"
| "BARRIER_POLICIES s = \<lparr>bp_state = s, spill_supported = False, mergeable_aggregations = []\<rparr>"

definition ensure_complete_group_within_budget :: "int \<Rightarrow> int \<Rightarrow> unit result" where
  "ensure_complete_group_within_budget estimated_bytes budget_bytes =
     (if estimated_bytes \<le> budget_bytes then Inr ()
      else Inl (ValidationError ''physical_plan.oversized_group''))"

section \<open>Tasks\<close>

record task_spec =
  task_id :: string
  partition_value :: "string option"
  part_index :: "nat option"
  task_payload :: pydict

text \<open>\<open>f"{n:05d}"\<close>.\<close>

definition pad5 :: "nat \<Rightarrow> string" where
  "pad5 n = replicate (5 - length (nat_str n)) (CHR ''0'') @ nat_str n"

definition part_task :: "string \<Rightarrow> pydict \<Rightarrow> nat \<Rightarrow> task_spec" where
  "part_task v payload i =
     \<lparr>task_id = v @ ''__part-'' @ pad5 i, partition_value = Some v, part_index = Some i,
      task_payload = payload\<rparr>"

definition plan_partition_part_tasks :: "string list \<Rightarrow> int \<Rightarrow> pydict \<Rightarrow> task_spec list" where
  "plan_partition_part_tasks partition_values parts payload =
     concat (map (\<lambda>v. map (part_task v payload) [0..<nat parts]) (sort partition_values))"

record dirty_plan =
  dirty_tasks :: "task_spec list"
  skipped_tasks :: "task_spec list"

text \<open>A missing fingerprint is None and an empty one is falsy: both make the task dirty.\<close>

definition task_is_dirty :: "(string \<times> string) list \<Rightarrow> (string \<times> string) list \<Rightarrow> task_spec \<Rightarrow> bool" where
  "task_is_dirty previous current t =
     (case map_of current (task_id t) of
        None \<Rightarrow> True
      | Some c \<Rightarrow> c = [] \<or> map_of previous (task_id t) \<noteq> Some c)"

definition select_dirty_tasks ::
  "task_spec list \<Rightarrow> (string \<times> string) list \<Rightarrow> (string \<times> string) list \<Rightarrow> dirty_plan" where
  "select_dirty_tasks tasks previous current =
     fold (\<lambda>t plan. if task_is_dirty previous current t
                    then plan\<lparr>dirty_tasks := dirty_tasks plan @ [t]\<rparr>
                    else plan\<lparr>skipped_tasks := skipped_tasks plan @ [t]\<rparr>)
       tasks \<lparr>dirty_tasks = [], skipped_tasks = []\<rparr>"

section \<open>The packing respects its budget\<close>

definition within_budget :: "pack_budget \<Rightarrow> pack_totals \<Rightarrow> bool" where
  "within_budget b t =
     (pt_rows t \<le> max_rows b \<and> pt_bytes t \<le> max_bytes b \<and> int (card (pt_files t)) \<le> max_source_files b
      \<and> (case max_groups b of None \<Rightarrow> True | Some m \<Rightarrow> int (pt_groups t) \<le> m))"

definition valid_group :: "pack_budget \<Rightarrow> group_cost \<Rightarrow> bool" where
  "valid_group b g = (0 \<le> gc_rows g \<and> 0 \<le> group_bytes b g \<and> finite (gc_source_files g))"

lemma group_total:
  "bin_total (add_group b) empty_totals gs =
     \<lparr>pt_rows = sum_list (map gc_rows gs), pt_bytes = sum_list (map (group_bytes b) gs),
      pt_files = \<Union> (set (map gc_source_files gs)), pt_groups = length gs\<rparr>"
  by (induction gs rule: rev_induct) (auto simp: add_group_def empty_totals_def)

lemma group_over:
  assumes valid: "list_all (valid_group b) (gs @ [y])" and ne: "gs \<noteq> []" and x: "x \<in> set (gs @ [y])"
    and big: "\<not> within_budget b (add_group b empty_totals x)"
  shows "group_exceeds b (bin_total (add_group b) empty_totals gs) y"
proof -
  let ?all = "gs @ [y]"
  have v: "\<And>g. g \<in> set ?all \<Longrightarrow> 0 \<le> gc_rows g \<and> 0 \<le> group_bytes b g \<and> finite (gc_source_files g)"
    using valid by (auto simp: list_all_iff valid_group_def)
  have "gc_rows x \<le> sum_list (map gc_rows ?all)"
    by (rule sum_list_int_member_le) (use v x in auto)
  moreover have "group_bytes b x \<le> sum_list (map (group_bytes b) ?all)"
    by (rule sum_list_int_member_le) (use v x in auto)
  moreover have "card (gc_source_files x) \<le> card (\<Union> (set (map gc_source_files ?all)))"
    using v x by (intro card_mono) auto
  moreover have "\<Union> (set (map gc_source_files ?all)) = \<Union> (set (map gc_source_files gs)) \<union> gc_source_files y"
    by auto
  moreover have "1 \<le> length gs" using ne by (cases gs) auto
  ultimately show ?thesis
    using big unfolding group_exceeds_def group_total pack_totals.simps
    by (auto simp: within_budget_def add_group_def empty_totals_def split: option.splits)
qed

interpretation group_packing: pack_limits "group_exceeds b" "add_group b" "\<lambda>_. False" empty_totals
  "within_budget b" "valid_group b" for b
proof
  show "within_budget b (add_group b w x)" if "\<not> group_exceeds b w x" for w x
    using that by (auto simp: group_exceeds_def within_budget_def add_group_def split: option.splits)
qed (rule group_over)

lemma greedy_length_one: "(\<exists>x. b = [x]) \<longleftrightarrow> length b = 1"
  by (auto simp: length_Suc_conv)

definition task_within :: "pack_budget \<Rightarrow> group_cost list \<Rightarrow> bool" where
  "task_within b task =
     (sum_list (map gc_rows task) \<le> max_rows b \<and> sum_list (map (group_bytes b) task) \<le> max_bytes b
      \<and> int (card (\<Union> (set (map gc_source_files task)))) \<le> max_source_files b
      \<and> (case max_groups b of None \<Rightarrow> True | Some m \<Rightarrow> int (length task) \<le> m))"

lemma task_within_totals: "within_budget b (bin_total (add_group b) empty_totals task) = task_within b task"
  by (simp only: group_total within_budget_def task_within_def pack_totals.simps)

text \<open>
  C26: Packing groups into tasks is a partition: the tasks concatenated are the groups in order, no
  task is empty, every task of more than one group is within the limits on rows, bytes, source
  files and groups, and two neighbouring tasks could not have been one group longer.
\<close>

theorem pack_group_costs_partition:
  "concat (pack_group_costs groups b) = groups \<and> [] \<notin> set (pack_group_costs groups b) \<and>
   list_all (\<lambda>task. task_within b task \<or> length task = 1) (pack_group_costs groups b) \<and>
   successively (\<lambda>task next. group_exceeds b (bin_total (add_group b) empty_totals task) (hd next))
     (pack_group_costs groups b)"
proof -
  have "\<And>task. group_packing.bin_ok b task = (task_within b task \<or> length task = 1)"
    by (simp only: group_packing.bin_ok_def task_within_totals greedy_length_one)
  then have "list_all (\<lambda>task. task_within b task \<or> length task = 1) (pack_group_costs groups b)"
    using group_packing.pack_partition [of b groups] by (simp add: pack_group_costs_def list_all_iff)
  moreover have "successively (\<lambda>task next. group_exceeds b (bin_total (add_group b) empty_totals task) (hd next))
      (pack_group_costs groups b)"
    using greedy_pack_reasons [of empty_totals "add_group b" empty_totals "[]" "group_exceeds b" "\<lambda>_. False" groups]
    by (simp add: pack_group_costs_def closed_for_reason_def [abs_def])
  ultimately show ?thesis
    using group_packing.pack_partition [of b groups] by (simp add: pack_group_costs_def)
qed

text \<open>
  A complete group that exceeds the limits on its own is never packed with another group.
\<close>

theorem pack_oversized_group_alone:
  assumes "list_all (valid_group b) groups" and "\<not> task_within b [g]"
    and "task \<in> set (pack_group_costs groups b)" and "g \<in> set task"
  shows "task = [g]"
proof (rule group_packing.pack_oversized_alone [OF assms(1) _ _ assms(4)])
  show "\<not> within_budget b (add_group b empty_totals g)"
    using assms(2) task_within_totals [of b "[g]"] by (simp add: bin_total_def)
qed (use assms(3) in \<open>simp add: pack_group_costs_def\<close>)

definition sample_group :: "string \<Rightarrow> int \<Rightarrow> group_cost" where
  "sample_group k rows = \<lparr>gc_key = [VStr k], gc_rows = rows, gc_payload_bytes = Some 10,
     gc_state_bytes = None, gc_source_files = {k}\<rparr>"

definition sample_budget :: pack_budget where
  "sample_budget = \<lparr>max_rows = 100, max_bytes = 1000, max_source_files = 5, max_groups = None\<rparr>"

lemma sample_packing:
  "pack_group_costs [sample_group ''a'' 10, sample_group ''b'' 500, sample_group ''c'' 20, sample_group ''d'' 30]
     sample_budget
   = [[sample_group ''a'' 10], [sample_group ''b'' 500], [sample_group ''c'' 20, sample_group ''d'' 30]]"
  by (simp add: pack_group_costs_def group_exceeds_def add_group_def group_bytes_def sample_group_def
      sample_budget_def empty_totals_def)

theorem pack_oversized_group_alone_witness:
  "\<exists>task. task \<in> set (pack_group_costs
     [sample_group ''a'' 10, sample_group ''b'' 500, sample_group ''c'' 20, sample_group ''d'' 30] sample_budget) \<and>
     task = [sample_group ''b'' 500]"
proof -
  let ?gs = "[sample_group ''a'' 10, sample_group ''b'' 500, sample_group ''c'' 20, sample_group ''d'' 30]"
  have v: "list_all (valid_group sample_budget) ?gs"
    by (simp add: valid_group_def sample_group_def sample_budget_def group_bytes_def)
  have big: "\<not> task_within sample_budget [sample_group ''b'' 500]"
    by (simp add: task_within_def sample_group_def sample_budget_def)
  have "[sample_group ''b'' 500] \<in> set (pack_group_costs ?gs sample_budget)"
    unfolding sample_packing by (simp only: list.set insert_iff simp_thms)
  then obtain task where t: "task \<in> set (pack_group_costs ?gs sample_budget)" "sample_group ''b'' 500 \<in> set task"
    using list.set_intros(1) by metis
  from pack_oversized_group_alone [OF v big t] t(1) show ?thesis by (intro exI conjI)
qed

section \<open>Dirty tasks and partition tasks\<close>

lemma select_dirty_tasks_filter:
  "select_dirty_tasks tasks previous current =
     \<lparr>dirty_tasks = filter (task_is_dirty previous current) tasks,
      skipped_tasks = filter (\<lambda>t. \<not> task_is_dirty previous current t) tasks\<rparr>"
proof -
  have "fold (\<lambda>t plan. if task_is_dirty previous current t
                    then plan\<lparr>dirty_tasks := dirty_tasks plan @ [t]\<rparr>
                    else plan\<lparr>skipped_tasks := skipped_tasks plan @ [t]\<rparr>) tasks \<lparr>dirty_tasks = d, skipped_tasks = s\<rparr>
      = \<lparr>dirty_tasks = d @ filter (task_is_dirty previous current) tasks,
         skipped_tasks = s @ filter (\<lambda>t. \<not> task_is_dirty previous current t) tasks\<rparr>" for d s
    by (induction tasks arbitrary: d s) auto
  then show ?thesis by (simp add: select_dirty_tasks_def)
qed


lemma pad5_inj: "pad5 i = pad5 j \<Longrightarrow> i = j"
  using digits_val_zeros digits_val_nat_str unfolding pad5_def by metis

lemma pad5_digits: "list_all is_digit (pad5 n)"
proof -
  have "is_digit (CHR ''0'')" by code_simp
  with nat_str_digits [of n] show ?thesis by (auto simp: pad5_def list_all_iff)
qed

lemma part_task_id_inj:
  assumes "task_id (part_task v payload i) = task_id (part_task w payload j)"
  shows "v = w \<and> i = j"
proof -
  have "(v @ ''__part'') @ CHR ''-'' # pad5 i = (w @ ''__part'') @ CHR ''-'' # pad5 j"
    using assms by (simp add: part_task_def)
  moreover have "\<not> is_digit (CHR ''-'')" by code_simp
  ultimately have "v @ ''__part'' = w @ ''__part'' \<and> pad5 i = pad5 j"
    by (rule digit_suffix_unique [OF _ pad5_digits pad5_digits])
  then show ?thesis by (simp add: pad5_inj)
qed

text \<open>
  Partition tasks cover every part of every partition exactly once: for distinct partition
  values the identifiers of the planned tasks are pairwise distinct, and a task is planned for
  each value and each part index below the number of parts, and for nothing else.
\<close>

theorem partition_tasks_exact:
  assumes "distinct values"
  shows "distinct (map task_id (plan_partition_part_tasks values parts payload)) \<and>
    set (plan_partition_part_tasks values parts payload)
      = {part_task v payload i | v i. v \<in> set values \<and> int i < parts}"
proof
  let ?row = "\<lambda>v. map (part_task v payload) [0..<nat parts]"
  have "distinct (concat (map (map task_id \<circ> ?row) vs))" if "distinct vs" for vs
    using that
  proof (induction vs)
    case (Cons v vs)
    have "inj_on (\<lambda>i. task_id (part_task v payload i)) (set [0..<nat parts])"
      by (rule inj_onI) (blast dest: part_task_id_inj)
    then have "distinct (map (task_id \<circ> part_task v payload) [0..<nat parts])"
      by (simp add: distinct_map comp_def)
    moreover have "set (map task_id (?row v)) \<inter> set (concat (map (map task_id \<circ> ?row) vs)) = {}"
      using Cons.prems by (auto dest: part_task_id_inj)
    ultimately show ?case using Cons by simp
  qed simp
  then show "distinct (map task_id (plan_partition_part_tasks values parts payload))"
    using assms by (simp add: plan_partition_part_tasks_def map_concat comp_def)
  show "set (plan_partition_part_tasks values parts payload)
      = {part_task v payload i | v i. v \<in> set values \<and> int i < parts}"
  proof -
    have "{0..<nat parts} = {i. int i < parts}" by (auto simp: zless_nat_eq_int_zless)
    then show ?thesis by (simp add: plan_partition_part_tasks_def) blast
  qed
qed

theorem partition_tasks_exact_witness:
  "distinct (map task_id (plan_partition_part_tasks [''2024'', ''2023''] 2 [])) \<and>
   map task_id (plan_partition_part_tasks [''2024'', ''2023''] 2 [])
     = [''2023__part-00000'', ''2023__part-00001'', ''2024__part-00000'', ''2024__part-00001'']"
proof
  show "distinct (map task_id (plan_partition_part_tasks [''2024'', ''2023''] 2 []))"
    using partition_tasks_exact [of "[''2024'', ''2023'']" 2 "[]"] by simp
  show "map task_id (plan_partition_part_tasks [''2024'', ''2023''] 2 [])
     = [''2023__part-00000'', ''2023__part-00001'', ''2024__part-00000'', ''2024__part-00001'']"
    by code_simp
qed

end
