(* ===== verification/PhysicalPlan.thy ===== *)
theory PhysicalPlan
  imports CostModel
begin

text \<open>
  \<open>core/physical_plan.py\<close>: physical tasks, the choice of the writer's row-group size, the
  admission of workers, the cost of a plan and the choice among candidate plans. The plan hash is
  a digest given as a parameter; the decisions and rejected candidates of a plan are opaque
  dictionaries. The reconciliation of measured memory (floating-point telemetry) is not modelled.
\<close>

section \<open>Tasks and plans\<close>

record source_span =
  sp_source_name :: string
  sp_path :: string
  sp_size_bytes :: int
  sp_estimated_read_bytes :: "int option"
  sp_estimated_uncompressed_bytes :: "int option"
  sp_row_groups :: "int list"
  sp_selected_rows :: "int option"
  sp_row_index_min :: "int option"
  sp_row_index_max :: "int option"

record physical_task =
  pt_task_id :: string
  pt_partition_value :: string
  pt_batch_index :: "int option"
  pt_part_index :: int
  pt_single_partition :: bool
  pt_source_spans :: "source_span list"
  pt_input_rows :: "int option"
  pt_output_rows :: "int option"
  pt_payload_bytes :: int
  pt_file_fanout :: int
  pt_row_group_fanout :: int
  pt_state_estimate :: "int option"
  pt_spawn_overhead :: int
  pt_execution_group :: int
  pt_risk :: string

record physical_task_plan =
  pp_logical_hash :: string
  pp_tasks :: "physical_task list"
  pp_decisions :: "pyval list"
  pp_rejected :: "pyval list"

record physical_plan_cost =
  feasible :: bool
  peak_state_bytes :: "int option"
  cost_payload_bytes :: int
  cost_file_fanout :: int
  process_count :: int
  small_file_penalty :: int
  conservative_penalty :: int
  estimated_io_bytes :: int
  estimated_cpu_units :: int
  estimated_elapsed_units :: int
  estimated_spawn_units :: int
  estimated_writer_appends :: int
  estimated_output_files :: int
  estimated_partition_switches :: int

definition score :: "physical_plan_cost \<Rightarrow> int list" where
  "score c =
     [if feasible c then 0 else 1, conservative_penalty c, int_or (peak_state_bytes c) (2 ^ 63 - 1),
      cost_file_fanout c, small_file_penalty c, estimated_writer_appends c, estimated_output_files c,
      estimated_partition_switches c, estimated_elapsed_units c, estimated_spawn_units c,
      estimated_cpu_units c, estimated_io_bytes c, process_count c]"

section \<open>The writer's row groups\<close>

definition DEFAULT_OUTPUT_ROW_GROUP_TARGET_BYTES :: int where
  "DEFAULT_OUTPUT_ROW_GROUP_TARGET_BYTES = 64 * 1024 * 1024"

definition choose_output_row_group_rows :: "physical_task \<Rightarrow> int option \<Rightarrow> int \<Rightarrow> int \<Rightarrow> int \<Rightarrow> int" where
  "choose_output_row_group_rows task override_rows target_bytes minimum_rows maximum_rows =
     (case override_rows of
        Some n \<Rightarrow> max 1 n
      | None \<Rightarrow>
          let rows = int_or (pt_input_rows task) (int_or (pt_output_rows task) 0) in
          if rows = 0 \<or> pt_payload_bytes task \<le> 0 then min maximum_rows (max minimum_rows 20000)
          else let row_width = max 1 (pt_payload_bytes task div rows);
                   selected = max 1 (target_bytes div row_width)
               in min maximum_rows (max minimum_rows selected))"

section \<open>Plans\<close>

definition build_physical_plan ::
  "string \<Rightarrow> physical_task list \<Rightarrow> pyval list \<Rightarrow> pyval list \<Rightarrow> physical_task_plan result" where
  "build_physical_plan logical_hash tasks decisions rejected =
     raise_if (\<not> distinct (map pt_task_id tasks)) (ValueError ''physical_task_ids'')
       (Inr \<lparr>pp_logical_hash = logical_hash, pp_tasks = tasks, pp_decisions = decisions,
             pp_rejected = rejected\<rparr>)"

definition candidate_decision :: "string \<Rightarrow> pyval" where
  "candidate_decision h =
     VDict [(''decision'', VStr ''logical_rewrite_candidate''), (''logical_plan_hash'', VStr h),
            (''task_shape'', VStr ''semantic_equivalent'')]"

definition build_logical_physical_candidates ::
  "physical_task_plan \<Rightarrow> string list \<Rightarrow> physical_task_plan list result" where
  "build_logical_physical_candidates template hashes =
     (let unique = dict_fromkeys hashes in
      raise_if (unique = []) (ValueError ''no_logical_plan_hash'')
        (Inr (map (\<lambda>h. template\<lparr>pp_logical_hash := h,
                                 pp_decisions := pp_decisions template @ [candidate_decision h]\<rparr>) unique)))"

section \<open>Admission\<close>

definition known_estimates :: "physical_task list \<Rightarrow> int list" where
  "known_estimates tasks =
     concat (map (\<lambda>t. case pt_state_estimate t of
                        None \<Rightarrow> [] | Some n \<Rightarrow> if n > 0 then [n] else []) tasks)"

definition admitted_worker_count :: "physical_task_plan \<Rightarrow> int \<Rightarrow> int \<Rightarrow> int" where
  "admitted_worker_count plan requested_workers memory_budget =
     (let requested = max 1 requested_workers;
          estimates = known_estimates (pp_tasks plan)
      in if estimates = [] then 1
         else let conservative = Max (set estimates);
                  memory_limited = max 1 (memory_budget div conservative)
              in min (min requested (if pp_tasks plan = [] then 1 else int (length (pp_tasks plan))))
                   memory_limited)"

section \<open>Cost\<close>

definition span_read_bytes :: "source_span \<Rightarrow> int" where
  "span_read_bytes s = (case sp_estimated_read_bytes s of Some n \<Rightarrow> n | None \<Rightarrow> sp_size_bytes s)"

definition opt_rows :: "int option \<Rightarrow> int" where
  "opt_rows v = max 0 (int_or v 0)"

definition max_default :: "int \<Rightarrow> int list \<Rightarrow> int" where
  "max_default d xs = (if xs = [] then d else Max (set xs))"

definition partition_switches :: "physical_task \<Rightarrow> int" where
  "partition_switches t = (if pt_single_partition t then 0 else max 0 (pt_file_fanout t - 1))"

definition task_elapsed_units :: "physical_task \<Rightarrow> int" where
  "task_elapsed_units t =
     opt_rows (pt_input_rows t) + opt_rows (pt_output_rows t) + max 1 (pt_row_group_fanout t) * 128
     + (if pt_single_partition t then 0 else max 0 (pt_file_fanout t - 1) * 256)
     + max 0 (pt_spawn_overhead t)
     + sum_list (map (\<lambda>s. span_read_bytes s div 4096) (pt_source_spans t))"

definition is_small_file :: "int \<Rightarrow> physical_task \<Rightarrow> bool" where
  "is_small_file target_rows t =
     (case pt_output_rows t of None \<Rightarrow> False | Some n \<Rightarrow> n < max 1 (target_rows div 4))"

definition known_states :: "physical_task list \<Rightarrow> int list" where
  "known_states tasks = concat (map (\<lambda>t. case pt_state_estimate t of None \<Rightarrow> [] | Some n \<Rightarrow> [n]) tasks)"

definition peak_of :: "int list \<Rightarrow> int option" where
  "peak_of xs = (if xs = [] then None else Some (Max (set xs)))"

definition estimate_plan_cost :: "physical_task_plan \<Rightarrow> int \<Rightarrow> int \<Rightarrow> physical_plan_cost" where
  "estimate_plan_cost plan memory_budget target_rows =
     (let tasks = pp_tasks plan;
          unknown = int (length (filter (\<lambda>t. pt_state_estimate t = None) tasks));
          peak = peak_of (known_states tasks)
      in \<lparr>feasible = (unknown = 0 \<and> int_or peak 0 \<le> memory_budget),
          peak_state_bytes = peak,
          cost_payload_bytes = sum_list (map pt_payload_bytes tasks),
          cost_file_fanout = max_default 0 (map pt_file_fanout tasks),
          process_count = int (length tasks),
          small_file_penalty = int (length (filter (is_small_file target_rows) tasks)),
          conservative_penalty = unknown,
          estimated_io_bytes =
            sum_list (map (\<lambda>t. sum_list (map span_read_bytes (pt_source_spans t))) tasks),
          estimated_cpu_units =
            sum_list (map (\<lambda>t. opt_rows (pt_input_rows t) + opt_rows (pt_output_rows t)) tasks),
          estimated_elapsed_units = max_default 0 (map task_elapsed_units tasks),
          estimated_spawn_units = sum_list (map (\<lambda>t. max 0 (pt_spawn_overhead t)) tasks),
          estimated_writer_appends = sum_list (map (\<lambda>t. max 1 (pt_row_group_fanout t)) tasks),
          estimated_output_files = int (length tasks),
          estimated_partition_switches = sum_list (map partition_switches tasks)\<rparr>)"

section \<open>The choice\<close>

record choice_entry =
  ch_hash :: string
  ch_chosen :: bool
  ch_cost :: physical_plan_cost
  ch_rejected_reason :: "string option"
  ch_selection_reason :: "string option"

text \<open>\<open>sorted\<close> is stable and compares the score tuples lexicographically.\<close>

definition rank_candidates ::
  "physical_task_plan list \<Rightarrow> int \<Rightarrow> int \<Rightarrow> (physical_plan_cost \<times> physical_task_plan) list" where
  "rank_candidates candidates budget target_rows =
     sort_key (score \<circ> fst) (map (\<lambda>c. (estimate_plan_cost c budget target_rows, c)) candidates)"

definition choice_trace ::
  "(physical_task_plan \<Rightarrow> string) \<Rightarrow> physical_task_plan
   \<Rightarrow> (physical_plan_cost \<times> physical_task_plan) list \<Rightarrow> choice_entry list" where
  "choice_trace plan_hash chosen ranked =
     map (\<lambda>(cost, c). \<lparr>ch_hash = plan_hash c, ch_chosen = (plan_hash c = plan_hash chosen), ch_cost = cost,
            ch_rejected_reason = (if plan_hash c = plan_hash chosen then None
                                  else Some ''higher_cost_or_memory_risk''),
            ch_selection_reason = None\<rparr>) ranked"

definition choose_physical_plan ::
  "(physical_task_plan \<Rightarrow> string) \<Rightarrow> physical_task_plan list \<Rightarrow> int \<Rightarrow> int
   \<Rightarrow> (physical_task_plan \<times> choice_entry list) result" where
  "choose_physical_plan plan_hash candidates budget target_rows =
     (case rank_candidates candidates budget target_rows of
        [] \<Rightarrow> Inl (ValueError ''no_physical_plan_candidate'')
      | (chosen_cost, chosen) # rest \<Rightarrow>
          let trace = choice_trace plan_hash chosen ((chosen_cost, chosen) # rest) in
          Inr (chosen,
               if feasible chosen_cost then trace
               else (hd trace)\<lparr>ch_selection_reason :=
                       Some ''no_fully_bounded_candidate; conservative fallback''\<rparr> # tl trace))"

section \<open>Row groups and admission\<close>

text \<open>
  Without an override the writer's row group stays between the minimum and the maximum, and it
  is larger than the minimum only if that many rows of the planned width fit the target bytes or
  the width of a row is unknown.
\<close>

theorem row_group_rows_bounded:
  assumes "minimum_rows \<le> maximum_rows"
    and "n = choose_output_row_group_rows task None target_bytes minimum_rows maximum_rows"
  shows "minimum_rows \<le> n \<and> n \<le> maximum_rows \<and>
    (rows = int_or (pt_input_rows task) (int_or (pt_output_rows task) 0) \<and> rows \<noteq> 0 \<and>
     0 < pt_payload_bytes task \<and> minimum_rows < n \<and> 1 < n
       \<longrightarrow> n * max 1 (pt_payload_bytes task div rows) \<le> target_bytes)"
proof -
  let ?rows = "int_or (pt_input_rows task) (int_or (pt_output_rows task) 0)"
  let ?w = "max 1 (pt_payload_bytes task div ?rows)"
  have div: "k * ?w \<le> target_bytes" if "k \<le> target_bytes div ?w" for k
  proof -
    have "k * ?w \<le> (target_bytes div ?w) * ?w" using that by (intro mult_right_mono) auto
    also have "\<dots> = target_bytes - target_bytes mod ?w" by (simp add: minus_mod_eq_div_mult)
    also have "\<dots> \<le> target_bytes" by (simp add: pos_mod_sign)
    finally show ?thesis .
  qed
  have "n \<le> target_bytes div ?w" if "?rows \<noteq> 0" "0 < pt_payload_bytes task" "minimum_rows < n" "1 < n"
    using that assms(2) by (auto simp: choose_output_row_group_rows_def Let_def min_def max_def split: if_splits)
  with div have "n * ?w \<le> target_bytes" if "?rows \<noteq> 0" "0 < pt_payload_bytes task" "minimum_rows < n" "1 < n"
    using that by blast
  moreover have "minimum_rows \<le> n \<and> n \<le> maximum_rows"
    using assms by (auto simp: choose_output_row_group_rows_def Let_def)
  ultimately show ?thesis by blast
qed

definition sample_task :: "string \<Rightarrow> int option \<Rightarrow> physical_task" where
  "sample_task i state =
     \<lparr>pt_task_id = i, pt_partition_value = ''p'', pt_batch_index = None, pt_part_index = 0,
      pt_single_partition = True, pt_source_spans = [], pt_input_rows = Some 1000, pt_output_rows = None,
      pt_payload_bytes = 1000000, pt_file_fanout = 1, pt_row_group_fanout = 1, pt_state_estimate = state,
      pt_spawn_overhead = 0, pt_execution_group = 1, pt_risk = ''bounded''\<rparr>"

theorem row_group_rows_bounded_witness:
  "choose_output_row_group_rows (sample_task ''t'' None) None DEFAULT_OUTPUT_ROW_GROUP_TARGET_BYTES 1000 128000
     * 1000 \<le> DEFAULT_OUTPUT_ROW_GROUP_TARGET_BYTES"
  using row_group_rows_bounded [of 1000 128000 _ "sample_task ''t'' None"
      DEFAULT_OUTPUT_ROW_GROUP_TARGET_BYTES 1000, OF _ refl]
  by (simp add: sample_task_def int_or_def choose_output_row_group_rows_def
      DEFAULT_OUTPUT_ROW_GROUP_TARGET_BYTES_def)

definition state_bytes :: "physical_task \<Rightarrow> int" where
  "state_bytes t = int_or (pt_state_estimate t) 0"

lemma known_estimates_set: "set (known_estimates tasks) = {n. 0 < n \<and> (\<exists>t\<in>set tasks. pt_state_estimate t = Some n)}"
  by (auto simp: known_estimates_def split: option.splits if_splits)

lemma state_bytes_le_peak:
  assumes "t \<in> set tasks" and "known_estimates tasks \<noteq> []"
  shows "state_bytes t \<le> Max (set (known_estimates tasks)) \<and> 0 < Max (set (known_estimates tasks))"
proof -
  have pos: "\<forall>n\<in>set (known_estimates tasks). 0 < n" by (simp add: known_estimates_set)
  with assms(2) have "0 < Max (set (known_estimates tasks))" by (simp add: Max_gr_iff ex_in_conv)
  moreover have "state_bytes t \<le> 0 \<or> state_bytes t \<in> set (known_estimates tasks)"
    using assms(1) by (auto simp: state_bytes_def int_or_def known_estimates_set split: option.splits)
  ultimately show ?thesis by (auto intro: order_trans [OF _ less_imp_le] Max_ge)
qed

lemma sum_list_le_bound:
  "(\<And>x. x \<in> set xs \<Longrightarrow> f x \<le> (b::int)) \<Longrightarrow> sum_list (map f xs) \<le> int (length xs) * b"
  by (induction xs) (auto simp: algebra_simps intro: add_mono)


definition sample_physical_plan :: "string \<Rightarrow> int option \<Rightarrow> physical_task_plan" where
  "sample_physical_plan h state = \<lparr>pp_logical_hash = h,
     pp_tasks = [sample_task ''t0'' state, sample_task ''t1'' state, sample_task ''t2'' state],
     pp_decisions = [], pp_rejected = []\<rparr>"


section \<open>The choice of a plan\<close>

lemma known_states_set: "set (known_states tasks) = {n. \<exists>t\<in>set tasks. pt_state_estimate t = Some n}"
  by (auto simp: known_states_def split: option.splits)

definition fully_bounded :: "int \<Rightarrow> physical_task_plan \<Rightarrow> bool" where
  "fully_bounded budget p =
     list_all (\<lambda>t. case pt_state_estimate t of None \<Rightarrow> False | Some n \<Rightarrow> n \<le> budget) (pp_tasks p)"

lemma feasible_iff:
  assumes "0 \<le> budget"
  shows "feasible (estimate_plan_cost c budget r) \<longleftrightarrow> fully_bounded budget c"
proof -
  have known: "int (length (filter (\<lambda>t. pt_state_estimate t = None) (pp_tasks c))) = 0 \<longleftrightarrow>
      (\<forall>t\<in>set (pp_tasks c). \<exists>n. pt_state_estimate t = Some n)"
    by (auto simp: filter_empty_conv)
  have "int_or (peak_of (known_states (pp_tasks c))) 0 \<le> budget \<longleftrightarrow> (\<forall>n\<in>set (known_states (pp_tasks c)). n \<le> budget)"
    using assms by (auto simp: peak_of_def int_or_def)
  moreover have "fully_bounded budget c \<longleftrightarrow>
      (\<forall>t\<in>set (pp_tasks c). \<exists>n. pt_state_estimate t = Some n \<and> n \<le> budget)"
    by (auto simp: fully_bounded_def list_all_iff split: option.splits)
  moreover have "((\<forall>t\<in>S. \<exists>n. f t = Some n) \<and> (\<forall>n\<in>{n. \<exists>t\<in>S. f t = Some n}. n \<le> budget)) =
      (\<forall>t\<in>S. \<exists>n. f t = Some n \<and> n \<le> budget)" for S and f :: "physical_task \<Rightarrow> int option" by force
  ultimately show ?thesis using known
    by (simp only: estimate_plan_cost_def Let_def known_states_set physical_plan_cost.simps)
qed

lemma sort_key_head_least:
  fixes k :: "'a \<Rightarrow> 'b::linorder"
  assumes "sort_key k xs = y # ys" and "x \<in> set xs"
  shows "k y \<le> k x"
proof -
  have "sorted (map k (y # ys))" using assms(1) sorted_sort_key [of k xs] by simp
  moreover have "x \<in> set (y # ys)" using assms set_sort_key [of k xs] by simp
  ultimately show ?thesis by auto
qed

lemma choose_physical_plan_Inr:
  assumes "choose_physical_plan h cs budget r = Inr (chosen, trace)"
  shows "chosen \<in> set cs" and "c \<in> set cs \<Longrightarrow>
    score (estimate_plan_cost chosen budget r) \<le> score (estimate_plan_cost c budget r)"
proof -
  from assms obtain cost rest where ranked: "rank_candidates cs budget r = (cost, chosen) # rest"
    by (auto simp: choose_physical_plan_def Let_def split: list.splits)
  then have "(cost, chosen) \<in> set (rank_candidates cs budget r)" by simp
  then have cost: "cost = estimate_plan_cost chosen budget r" and mem: "chosen \<in> set cs"
    by (auto simp: rank_candidates_def)
  show "chosen \<in> set cs" by (rule mem)
  assume "c \<in> set cs"
  then have "(estimate_plan_cost c budget r, c)
      \<in> set (map (\<lambda>c. (estimate_plan_cost c budget r, c)) cs)" by simp
  from sort_key_head_least [OF ranked [unfolded rank_candidates_def] this] cost
  show "score (estimate_plan_cost chosen budget r) \<le> score (estimate_plan_cost c budget r)" by simp
qed

lemma score_feasible:
  "score a \<le> score b \<Longrightarrow> feasible b \<Longrightarrow> feasible a"
  by (auto simp: score_def split: if_splits)

text \<open>
  C27: The chosen physical plan is one of the candidates and none has a lower score; when some
  candidate has a known estimate within the memory budget for each of its tasks, the chosen plan
  has one too.
\<close>

theorem chosen_plan_best:
  assumes "choose_physical_plan plan_hash candidates budget target_rows = Inr (chosen, trace)" and "0 \<le> budget"
  shows "chosen \<in> set candidates \<and>
    (\<forall>c\<in>set candidates. score (estimate_plan_cost chosen budget target_rows)
        \<le> score (estimate_plan_cost c budget target_rows)) \<and>
    (list_ex (fully_bounded budget) candidates \<longrightarrow> fully_bounded budget chosen)"
  using choose_physical_plan_Inr [OF assms(1)] score_feasible
  unfolding list_ex_iff feasible_iff [OF assms(2), of _ target_rows, symmetric] by blast

theorem chosen_plan_best_witness:
  "\<exists>trace. choose_physical_plan pp_logical_hash
     [sample_physical_plan ''a'' None, sample_physical_plan ''b'' (Some 400)] 1000 100
       = Inr (sample_physical_plan ''b'' (Some 400), trace) \<and>
     fully_bounded 1000 (sample_physical_plan ''b'' (Some 400))"
proof -
  let ?cs = "[sample_physical_plan ''a'' None, sample_physical_plan ''b'' (Some 400)]"
  have "case choose_physical_plan pp_logical_hash ?cs 1000 100 of
      Inl _ \<Rightarrow> False | Inr (p, _) \<Rightarrow> p = sample_physical_plan ''b'' (Some 400)" by code_simp
  then obtain trace where r: "choose_physical_plan pp_logical_hash ?cs 1000 100
      = Inr (sample_physical_plan ''b'' (Some 400), trace)"
    by (cases "choose_physical_plan pp_logical_hash ?cs 1000 100") auto
  have "list_ex (fully_bounded 1000) ?cs" by code_simp
  with chosen_plan_best [OF r] have "fully_bounded 1000 (sample_physical_plan ''b'' (Some 400))" by simp blast
  with r show ?thesis by (intro exI conjI)
qed

text \<open>
  A plan whose tasks need no state at all loses against a plan that needs a hundred bytes per
  task and is otherwise the same: a zero peak is scored as an unknown one.
\<close>

lemma zero_state_plan_loses:
  "map_sum id fst (choose_physical_plan pp_logical_hash
     [sample_physical_plan ''zero'' (Some 0), sample_physical_plan ''some'' (Some 100)] 1000 100)
   = Inr (sample_physical_plan ''some'' (Some 100))"
  by code_simp

section \<open>Building plans\<close>

text \<open>
  A physical plan is built exactly when its task identifiers are distinct, with the tasks as
  given; the candidates bound to logical plans are one per distinct logical hash, in order of
  first appearance, and share the template's tasks.
\<close>

theorem built_plans:
  "(case build_physical_plan h tasks ds rs of Inl _ \<Rightarrow> \<not> distinct (map pt_task_id tasks)
      | Inr p \<Rightarrow> distinct (map pt_task_id tasks) \<and> pp_tasks p = tasks \<and> pp_logical_hash p = h) \<and>
   (case build_logical_physical_candidates template hashes of Inl _ \<Rightarrow> hashes = []
      | Inr ps \<Rightarrow> map pp_logical_hash ps = dict_fromkeys hashes \<and> distinct (map pp_logical_hash ps)
          \<and> list_all (\<lambda>p. pp_tasks p = pp_tasks template) ps)"
  by (auto simp: build_physical_plan_def build_logical_physical_candidates_def raise_if_def Let_def
      list_all_iff comp_def)

end
