(* ===== verification/Cohorts.thy ===== *)
theory Cohorts
  imports Packing PyValue
begin

text \<open>
  \<open>planners/dataset_shard.py\<close>: the weights of source files, the split of a dataset shard into
  slices and the packing of slices into planning cohorts, with the reuse of the cohorts of a
  previous plan. A source is a record of the keys the code reads from its mapping; a missing
  number is None. The digest (SHA-256, hexadecimal) is a parameter.
\<close>

section \<open>Weights\<close>

record planning_source =
  ps_path :: string
  ps_relative_path :: "string option"
  ps_shard :: string
  ps_rows :: "int option"
  ps_size_bytes :: "int option"
  ps_row_groups :: "int option"
  ps_candidate_path :: string
  ps_occupancy_path :: string

record weight =
  wt_rows :: int
  wt_bytes :: int
  wt_files :: int
  wt_row_groups :: int

definition source_weight :: "planning_source \<Rightarrow> weight" where
  "source_weight s =
     \<lparr>wt_rows = int_or (ps_rows s) 0, wt_bytes = int_or (ps_size_bytes s) 0, wt_files = 1,
      wt_row_groups = max 1 (int_or (ps_row_groups s) 1)\<rparr>"

definition empty_weight :: weight where
  "empty_weight = \<lparr>wt_rows = 0, wt_bytes = 0, wt_files = 0, wt_row_groups = 0\<rparr>"

definition add_weight :: "weight \<Rightarrow> weight \<Rightarrow> weight" where
  "add_weight a b =
     \<lparr>wt_rows = wt_rows a + wt_rows b, wt_bytes = wt_bytes a + wt_bytes b,
      wt_files = wt_files a + wt_files b, wt_row_groups = wt_row_groups a + wt_row_groups b\<rparr>"

definition is_oversized :: "weight \<Rightarrow> weight \<Rightarrow> bool" where
  "is_oversized w limits =
     (wt_rows w > wt_rows limits \<or> wt_bytes w > wt_bytes limits \<or> wt_files w > wt_files limits
      \<or> wt_row_groups w > wt_row_groups limits)"

definition would_exceed :: "weight \<Rightarrow> weight \<Rightarrow> weight \<Rightarrow> bool" where
  "would_exceed current addition limits = is_oversized (add_weight current addition) limits"

definition sum_source_weights :: "planning_source list \<Rightarrow> weight" where
  "sum_source_weights sources = foldl (\<lambda>w s. add_weight w (source_weight s)) empty_weight sources"

section \<open>Slices and cohorts\<close>

record dataset_slice =
  sl_id :: string
  sl_shard :: string
  sl_index :: nat
  sl_sources :: "planning_source list"
  sl_weight :: weight

record cohort =
  co_id :: string
  co_slices :: "dataset_slice list"
  co_source_paths :: "string list"
  co_candidate_paths :: "string list"
  co_occupancy_paths :: "string list"
  co_weight :: weight

record cohort_plan =
  cp_version :: string
  cp_limits :: weight
  cp_dataset_shards :: nat
  cp_dataset_slices :: nat
  cp_planning_cohorts :: nat
  cp_split_shards :: nat
  cp_merged_small_shards :: nat
  cp_oversized_files :: nat
  cp_reused_cohorts :: nat
  cp_cohorts :: "cohort list"

definition COHORT_PLAN_VERSION :: string where
  "COHORT_PLAN_VERSION = ''smoking-data.0201-planning-cohorts.v1''"

definition stable_id :: "(string \<Rightarrow> string) \<Rightarrow> string \<Rightarrow> string list \<Rightarrow> string" where
  "stable_id digest pre values = pre @ ''-'' @ take 20 (digest (join_with [CHR 0x00] values))"

definition make_cohort :: "(string \<Rightarrow> string) \<Rightarrow> dataset_slice list \<Rightarrow> cohort" where
  "make_cohort digest slices =
     (let sources = concat (map sl_sources slices) in
      \<lparr>co_id = stable_id digest ''cohort'' (map sl_id slices), co_slices = slices,
       co_source_paths = map ps_path sources, co_candidate_paths = map ps_candidate_path sources,
       co_occupancy_paths = map ps_occupancy_path sources, co_weight = sum_source_weights sources\<rparr>)"

definition source_sort_key :: "planning_source \<Rightarrow> string" where
  "source_sort_key s =
     (case ps_relative_path s of None \<Rightarrow> ps_path s | Some r \<Rightarrow> if r = [] then ps_path s else r)"

definition split_shard :: "weight \<Rightarrow> planning_source list \<Rightarrow> planning_source list list" where
  "split_shard limits sources =
     greedy_pack (\<lambda>w s. would_exceed w (source_weight s) limits) (\<lambda>w s. add_weight w (source_weight s))
       (\<lambda>s. is_oversized (source_weight s) limits) empty_weight [] empty_weight sources"

definition make_slice :: "(string \<Rightarrow> string) \<Rightarrow> string \<Rightarrow> nat \<Rightarrow> planning_source list \<Rightarrow> dataset_slice" where
  "make_slice digest shard index members =
     \<lparr>sl_id = stable_id digest ''slice'' (shard # map ps_path members), sl_shard = shard, sl_index = index,
      sl_sources = members, sl_weight = sum_source_weights members\<rparr>"

definition shard_slices :: "(string \<Rightarrow> string) \<Rightarrow> weight \<Rightarrow> planning_source list \<Rightarrow> string \<Rightarrow> dataset_slice list" where
  "shard_slices digest limits sources shard =
     map (\<lambda>(i, members). make_slice digest shard i members)
       (enumerate 0 (split_shard limits
          (sort_key source_sort_key (filter (\<lambda>s. ps_shard s = shard) sources))))"

definition build_slices :: "(string \<Rightarrow> string) \<Rightarrow> weight \<Rightarrow> planning_source list \<Rightarrow> dataset_slice list" where
  "build_slices digest limits sources =
     concat (map (shard_slices digest limits sources) (sort (dict_fromkeys (map ps_shard sources))))"

definition pack_slices :: "weight \<Rightarrow> dataset_slice list \<Rightarrow> dataset_slice list list" where
  "pack_slices limits slices =
     greedy_pack (\<lambda>w sl. would_exceed w (sl_weight sl) limits) (\<lambda>w sl. add_weight w (sl_weight sl))
       (\<lambda>sl. is_oversized (sl_weight sl) limits) empty_weight [] empty_weight
       (sort_key (\<lambda>sl. (sl_shard sl, sl_index sl)) slices)"

section \<open>Reusing the cohorts of a previous plan\<close>

definition previous_paths :: "cohort \<Rightarrow> string list" where
  "previous_paths c = map ps_path (concat (map sl_sources (co_slices c)))"

text \<open>A slice of a previous cohort with the current records of its sources.\<close>

definition rebuild_slice :: "(string \<times> planning_source) list \<Rightarrow> dataset_slice \<Rightarrow> dataset_slice" where
  "rebuild_slice by_path sl =
     (let members = map (\<lambda>s. the (map_of by_path (ps_path s))) (sl_sources sl) in
      sl\<lparr>sl_sources := members, sl_weight := sum_source_weights members\<rparr>)"

definition preserve_cohort ::
  "(string \<Rightarrow> string) \<Rightarrow> (string \<times> planning_source) list \<Rightarrow> cohort \<Rightarrow> cohort list \<times> string list
   \<Rightarrow> cohort list \<times> string list" where
  "preserve_cohort digest by_path previous acc =
     (case acc of (preserved, assigned) \<Rightarrow>
      let paths = previous_paths previous in
      if paths = [] \<or> list_ex (\<lambda>p. map_of by_path p = None \<or> p \<in> set assigned) paths then acc
      else (preserved @ [make_cohort digest (map (rebuild_slice by_path) (co_slices previous))],
            assigned @ paths))"

definition preserved_cohorts ::
  "(string \<Rightarrow> string) \<Rightarrow> weight \<Rightarrow> planning_source list \<Rightarrow> cohort_plan option \<Rightarrow> cohort list \<times> string list" where
  "preserved_cohorts digest limits sources previous =
     (case previous of
        None \<Rightarrow> ([], [])
      | Some plan \<Rightarrow>
          if cp_version plan = COHORT_PLAN_VERSION \<and> cp_limits plan = limits
          then fold (preserve_cohort digest (dict_of_pairs (map (\<lambda>s. (ps_path s, s)) sources)))
                 (cp_cohorts plan) ([], [])
          else ([], []))"

section \<open>The plan\<close>

definition cohort_limits :: "int \<Rightarrow> int \<Rightarrow> int \<Rightarrow> int \<Rightarrow> weight" where
  "cohort_limits target_rows target_bytes max_files max_row_groups =
     \<lparr>wt_rows = max 1 target_rows, wt_bytes = max 1 target_bytes, wt_files = max 1 max_files,
      wt_row_groups = max 1 max_row_groups\<rparr>"

definition build_planning_cohorts ::
  "(string \<Rightarrow> string) \<Rightarrow> planning_source list \<Rightarrow> weight \<Rightarrow> cohort_plan option \<Rightarrow> cohort_plan" where
  "build_planning_cohorts digest sources limits previous =
     (let (preserved, assigned) = preserved_cohorts digest limits sources previous;
          fresh = filter (\<lambda>s. ps_path s \<notin> set assigned) sources;
          slices = build_slices digest limits fresh;
          cohorts = preserved @ map (make_cohort digest) (pack_slices limits slices);
          shards = dict_fromkeys (map ps_shard sources);
          all_slices = concat (map co_slices cohorts)
      in \<lparr>cp_version = COHORT_PLAN_VERSION, cp_limits = limits, cp_dataset_shards = length shards,
          cp_dataset_slices = length all_slices, cp_planning_cohorts = length cohorts,
          cp_split_shards =
            length (filter (\<lambda>sh. length (filter (\<lambda>sl. sl_shard sl = sh) all_slices) > 1) shards),
          cp_merged_small_shards =
            sum_list (map (\<lambda>c. length (dict_fromkeys (map sl_shard (co_slices c))) - 1) cohorts),
          cp_oversized_files = length (filter (\<lambda>s. is_oversized (source_weight s) limits) sources),
          cp_reused_cohorts = length preserved, cp_cohorts = cohorts\<rparr>)"

section \<open>Packing by weight\<close>

definition nonneg_weight :: "weight \<Rightarrow> bool" where
  "nonneg_weight w = (0 \<le> wt_rows w \<and> 0 \<le> wt_bytes w \<and> 0 \<le> wt_files w \<and> 0 \<le> wt_row_groups w)"

text \<open>
  Items with a weight and a limit on the sum of the weights: the interface both packings of this
  file implement. It gives the packing interface.
\<close>

locale weighted_packing =
  fixes weigh :: "'x \<Rightarrow> weight"
    and limits :: weight
begin

definition total_weight :: "'x list \<Rightarrow> weight" where
  "total_weight xs = bin_total (\<lambda>w x. add_weight w (weigh x)) empty_weight xs"

lemma total_weight_sum:
  "total_weight xs =
     \<lparr>wt_rows = sum_list (map (wt_rows \<circ> weigh) xs), wt_bytes = sum_list (map (wt_bytes \<circ> weigh) xs),
      wt_files = sum_list (map (wt_files \<circ> weigh) xs),
      wt_row_groups = sum_list (map (wt_row_groups \<circ> weigh) xs)\<rparr>"
  unfolding total_weight_def
  by (induction xs rule: rev_induct) (simp_all add: empty_weight_def add_weight_def)

lemma member_below_total:
  assumes "list_all (\<lambda>x. nonneg_weight (weigh x)) xs" and "x \<in> set xs"
    and "is_oversized (weigh x) limits"
  shows "is_oversized (total_weight xs) limits"
proof -
  have "f (weigh x) \<le> sum_list (map (f \<circ> weigh) xs)"
    if "\<And>y. y \<in> set xs \<Longrightarrow> 0 \<le> f (weigh y)" for f :: "weight \<Rightarrow> int"
    using sum_list_int_member_le [of "map (f \<circ> weigh) xs" "f (weigh x)"] that assms(2) by auto
  from this [of wt_rows] this [of wt_bytes] this [of wt_files] this [of wt_row_groups]
  show ?thesis
    using assms(1,3) by (simp add: is_oversized_def total_weight_sum list_all_iff nonneg_weight_def) linarith
qed

lemma add_empty: "add_weight empty_weight w = w"
  by (cases w) (simp add: add_weight_def empty_weight_def)

end

sublocale weighted_packing \<subseteq> pack_limits "\<lambda>w x. would_exceed w (weigh x) limits"
  "\<lambda>w x. add_weight w (weigh x)" "\<lambda>x. is_oversized (weigh x) limits" empty_weight
  "\<lambda>w. \<not> is_oversized w limits" "\<lambda>x. nonneg_weight (weigh x)"
proof
  show "\<not> is_oversized (add_weight w (weigh x)) limits" if "\<not> would_exceed w (weigh x) limits" for w x
    using that by (simp add: would_exceed_def)
next
  fix b y x
  assume valid: "list_all (\<lambda>x. nonneg_weight (weigh x)) (b @ [y])" and x: "x \<in> set (b @ [y])"
    and big: "\<not> \<not> is_oversized (add_weight empty_weight (weigh x)) limits"
  have "total_weight (b @ [y]) = add_weight (bin_total (\<lambda>w x. add_weight w (weigh x)) empty_weight b) (weigh y)"
    by (simp add: total_weight_def)
  then show "would_exceed (bin_total (\<lambda>w x. add_weight w (weigh x)) empty_weight b) (weigh y) limits"
    using member_below_total [OF valid x] big by (simp add: would_exceed_def add_empty)
qed

interpretation sources: weighted_packing source_weight limits for limits .

interpretation slices: weighted_packing sl_weight limits for limits .

section \<open>The cohorts partition the sources\<close>

lemma concat_split_shard: "concat (split_shard limits xs) = xs"
  by (simp add: split_shard_def concat_greedy_pack)

lemma shard_slices_sources:
  "concat (map sl_sources (shard_slices digest limits xs shard))
     = sort_key source_sort_key (filter (\<lambda>s. ps_shard s = shard) xs)"
proof -
  have "map sl_sources (shard_slices digest limits xs shard)
      = split_shard limits (sort_key source_sort_key (filter (\<lambda>s. ps_shard s = shard) xs))"
    by (simp add: shard_slices_def make_slice_def comp_def case_prod_beta)
  then show ?thesis by (simp add: concat_split_shard)
qed

lemma mset_filter_classes:
  assumes "distinct cs" and "f ` set xs \<subseteq> set cs"
  shows "(\<Sum>c\<leftarrow>cs. mset (filter (\<lambda>x. f x = c) xs)) = mset xs"
  using assms
proof (induction xs)
  case (Cons x xs)
  have "(\<Sum>c\<leftarrow>ds. mset (filter (\<lambda>y. f y = c) (x # xs)))
      = (if f x \<in> set ds then {#x#} else {#}) + (\<Sum>c\<leftarrow>ds. mset (filter (\<lambda>y. f y = c) xs))"
    if "distinct ds" for ds using that by (induction ds) auto
  from this [OF Cons.prems(1)] Cons show ?case by simp
qed simp

lemma mset_concat_classes:
  "mset (concat (map g (concat (map f cs)))) = (\<Sum>c\<leftarrow>cs. mset (concat (map g (f c))))"
  by (induction cs) simp_all

lemma build_slices_sources: "mset (concat (map sl_sources (build_slices digest limits xs))) = mset xs"
proof -
  let ?shards = "sort (dict_fromkeys (map ps_shard xs))"
  have "mset (concat (map sl_sources (build_slices digest limits xs)))
      = (\<Sum>c\<leftarrow>?shards. mset (concat (map sl_sources (shard_slices digest limits xs c))))"
    unfolding build_slices_def by (rule mset_concat_classes)
  also have "\<dots> = (\<Sum>c\<leftarrow>?shards. mset (filter (\<lambda>s. ps_shard s = c) xs))"
    by (simp add: shard_slices_sources)
  also have "\<dots> = mset xs" by (rule mset_filter_classes) auto
  finally show ?thesis .
qed

lemma pack_slices_slices: "mset (concat (pack_slices limits slices)) = mset slices"
  by (simp add: pack_slices_def concat_greedy_pack)

lemma by_path_lookup:
  assumes "map_of (dict_of_pairs (map (\<lambda>s. (ps_path s, s)) sources)) p = Some s"
  shows "ps_path s = p \<and> s \<in> set sources"
proof -
  have "\<forall>e\<in>set (dict_of_pairs (map (\<lambda>s. (ps_path s, s)) sources)). ps_path (snd e) = fst e \<and> snd e \<in> set sources"
    unfolding dict_of_pairs_def
  proof (rule fold_keeps [where P = "\<lambda>d. \<forall>e\<in>set d. ps_path (snd e) = fst e \<and> snd e \<in> set sources"])
    fix x d
    assume x: "x \<in> set (map (\<lambda>s. (ps_path s, s)) sources)"
      and d: "\<forall>e\<in>set d. ps_path (snd e) = fst e \<and> snd e \<in> set sources"
    from x obtain s where s: "x = (ps_path s, s)" "s \<in> set sources" by auto
    with d set_dict_put [of "ps_path s" s d]
    show "\<forall>e\<in>set ((case x of (k, v) \<Rightarrow> dict_put k v) d). ps_path (snd e) = fst e \<and> snd e \<in> set sources"
      by auto
  qed simp
  with map_of_SomeD [OF assms] show ?thesis by fastforce
qed

lemma make_cohort_paths: "co_source_paths (make_cohort digest slices) = map ps_path (concat (map sl_sources slices))"
  by (simp add: make_cohort_def Let_def)

lemma rebuild_paths:
  assumes "\<And>p. p \<in> set (map ps_path (concat (map sl_sources slices))) \<Longrightarrow> map_of by_path p \<noteq> None"
    and "\<And>p s. map_of by_path p = Some s \<Longrightarrow> ps_path s = p"
  shows "map ps_path (concat (map sl_sources (map (rebuild_slice by_path) slices)))
       = map ps_path (concat (map sl_sources slices))"
proof -
  have "ps_path (the (map_of by_path (ps_path s))) = ps_path s"
    if "sl \<in> set slices" "s \<in> set (sl_sources sl)" for sl s
    using assms(1) [of "ps_path s"] assms(2) that by fastforce
  then show ?thesis
    by (auto simp: rebuild_slice_def Let_def map_concat comp_def intro!: arg_cong [where f = concat])
qed

definition previous_wf :: "cohort_plan option \<Rightarrow> bool" where
  "previous_wf previous =
     (case previous of None \<Rightarrow> True
      | Some plan \<Rightarrow> list_all (\<lambda>c. distinct (previous_paths c)) (cp_cohorts plan))"

lemma preserve_step:
  assumes "preserve_cohort digest by_path c (preserved, assigned) = (preserved', assigned')"
    and "concat (map co_source_paths preserved) = assigned" and "distinct assigned"
    and "distinct (previous_paths c)" and "set assigned \<subseteq> {p. map_of by_path p \<noteq> None}"
    and "\<And>p s. map_of by_path p = Some s \<Longrightarrow> ps_path s = p"
  shows "concat (map co_source_paths preserved') = assigned' \<and> distinct assigned' \<and>
    set assigned' \<subseteq> {p. map_of by_path p \<noteq> None}"
proof (cases "previous_paths c = [] \<or> list_ex (\<lambda>p. map_of by_path p = None \<or> p \<in> set assigned) (previous_paths c)")
  case True
  with assms show ?thesis by (simp add: preserve_cohort_def Let_def)
next
  case False
  then have known: "\<And>p. p \<in> set (previous_paths c) \<Longrightarrow> map_of by_path p \<noteq> None"
    and fresh: "set (previous_paths c) \<inter> set assigned = {}" by (auto simp: list_ex_iff)
  from False assms(1) have p': "preserved' = preserved @ [make_cohort digest (map (rebuild_slice by_path) (co_slices c))]"
    and a': "assigned' = assigned @ previous_paths c" by (simp_all add: preserve_cohort_def Let_def)
  have "co_source_paths (make_cohort digest (map (rebuild_slice by_path) (co_slices c))) = previous_paths c"
    unfolding make_cohort_paths previous_paths_def
    by (rule rebuild_paths [OF known [unfolded previous_paths_def] assms(6)])
  then show ?thesis using assms(2-5) known fresh by (auto simp: p' a')
qed

lemma preserved_ok:
  assumes "preserved_cohorts digest limits sources previous = (preserved, assigned)" and "previous_wf previous"
  shows "concat (map co_source_paths preserved) = assigned \<and> distinct assigned \<and>
    set assigned \<subseteq> set (map ps_path sources)"
proof -
  let ?by = "dict_of_pairs (map (\<lambda>s. (ps_path s, s)) sources)"
  let ?ok = "\<lambda>(preserved :: cohort list, assigned). concat (map co_source_paths preserved) = assigned \<and> distinct assigned \<and>
    set assigned \<subseteq> {p. map_of ?by p \<noteq> None}"
  have all: "?ok (fold (preserve_cohort digest ?by) cs ([], []))" if "list_all (\<lambda>c. distinct (previous_paths c)) cs" for cs
  proof (rule fold_keeps [where P = ?ok])
    fix c and acc :: "cohort list \<times> string list" assume c: "c \<in> set cs" and acc: "?ok acc"
    obtain p a where acc': "acc = (p, a)" by force
    obtain p' a' where r: "preserve_cohort digest ?by c (p, a) = (p', a')" by force
    have prev: "distinct (previous_paths c)" using that c by (simp add: list_all_iff)
    have inv: "concat (map co_source_paths p) = a" "distinct a" "set a \<subseteq> {p. map_of ?by p \<noteq> None}"
      using acc by (simp_all only: acc' prod.case)
    have "\<And>p s. map_of ?by p = Some s \<Longrightarrow> ps_path s = p" using by_path_lookup by blast
    from preserve_step [OF r inv(1,2) prev inv(3) this] show "?ok (preserve_cohort digest ?by c acc)"
      by (simp only: acc' r prod.case)
  qed simp
  have keys: "{p. map_of ?by p \<noteq> None} \<subseteq> set (map ps_path sources)" using by_path_lookup by fastforce
  show ?thesis
  proof (cases "\<exists>plan. previous = Some plan \<and> cp_version plan = COHORT_PLAN_VERSION \<and> cp_limits plan = limits")
    case True
    then obtain plan where plan: "previous = Some plan" "cp_version plan = COHORT_PLAN_VERSION" "cp_limits plan = limits"
      by blast
    then have "fold (preserve_cohort digest ?by) (cp_cohorts plan) ([], []) = (preserved, assigned)"
      using assms(1) unfolding preserved_cohorts_def by (simp only: option.case simp_thms if_True)
    moreover have "list_all (\<lambda>c. distinct (previous_paths c)) (cp_cohorts plan)"
      using assms(2) plan(1) by (simp only: previous_wf_def option.case)
    ultimately have "?ok (preserved, assigned)" using all [of "cp_cohorts plan"] by argo
    with keys show ?thesis by auto
  next
    case False
    then have "preserved_cohorts digest limits sources previous = ([], [])"
      unfolding preserved_cohorts_def by (cases previous) auto
    with assms(1) show ?thesis by simp
  qed
qed

lemma mset_distinct_split:
  assumes "distinct ps" and "distinct as" and "set as \<subseteq> set ps"
  shows "mset as + mset (filter (\<lambda>p. p \<notin> set as) ps) = mset ps"
proof -
  have "distinct (filter (\<lambda>p. p \<in> set as) ps)" "set (filter (\<lambda>p. p \<in> set as) ps) = set as"
    using assms by auto
  then have "mset (filter (\<lambda>p. p \<in> set as) ps) = mset as" using assms(2) set_eq_iff_mset_eq_distinct by blast
  moreover have "mset (filter (\<lambda>p. p \<in> set as) ps) + mset (filter (\<lambda>p. p \<notin> set as) ps) = mset ps"
    by (induction ps) auto
  ultimately show ?thesis by simp
qed

lemma concat_map_concat: "concat (map (\<lambda>b. map f (concat (map g b))) bs) = map f (concat (map g (concat bs)))"
  by (induction bs) simp_all

text \<open>
  C19: The planning cohorts contain every source file exactly once, whatever cohorts of a previous
  plan are reused, provided the sources have distinct paths and no previous cohort lists a path
  twice.
\<close>

theorem cohorts_partition_sources:
  assumes "distinct (map ps_path sources)" and "previous_wf previous"
  shows "mset (concat (map co_source_paths (cp_cohorts (build_planning_cohorts digest sources limits previous))))
    = mset (map ps_path sources)"
proof -
  obtain preserved assigned where pr: "preserved_cohorts digest limits sources previous = (preserved, assigned)"
    by force
  let ?fresh = "filter (\<lambda>s. ps_path s \<notin> set assigned) sources"
  let ?packs = "pack_slices limits (build_slices digest limits ?fresh)"
  note ok = preserved_ok [OF pr assms(2)]
  have "mset (concat (map sl_sources (concat ?packs))) = mset ?fresh"
    using pack_slices_slices [of limits "build_slices digest limits ?fresh"]
      build_slices_sources [of digest limits ?fresh]
    by (metis (no_types, lifting) mset_concat mset_map sum_mset_sum_list)
  then have "mset (map ps_path (concat (map sl_sources (concat ?packs)))) = mset (map ps_path ?fresh)"
    by (metis mset_map)
  moreover have "concat (map (co_source_paths \<circ> make_cohort digest) ?packs)
      = map ps_path (concat (map sl_sources (concat ?packs)))"
    unfolding comp_def make_cohort_paths by (rule concat_map_concat)
  moreover have "map ps_path ?fresh = filter (\<lambda>p. p \<notin> set assigned) (map ps_path sources)"
    by (simp add: filter_map comp_def)
  ultimately have "mset (concat (map (co_source_paths \<circ> make_cohort digest) ?packs))
      = mset (filter (\<lambda>p. p \<notin> set assigned) (map ps_path sources))" by simp
  then show ?thesis
    using mset_distinct_split [OF assms(1), of assigned] ok
    by (simp add: build_planning_cohorts_def Let_def pr comp_def)
qed

section \<open>Fresh cohorts respect the limits\<close>

lemma sum_source_weights_total: "sum_source_weights xs = sources.total_weight xs"
  by (simp add: sum_source_weights_def sources.total_weight_def bin_total_def)

text \<open>A slice as the planner builds it: it weighs what its sources weigh.\<close>

definition slice_wf :: "dataset_slice \<Rightarrow> bool" where
  "slice_wf sl = (sl_weight sl = sum_source_weights (sl_sources sl))"

lemma cohort_weight:
  assumes "list_all slice_wf slices"
  shows "sum_source_weights (concat (map sl_sources slices)) = slices.total_weight slices"
  using assms unfolding sum_source_weights_total slices.total_weight_sum sources.total_weight_sum
  by (induction slices) (simp_all add: slice_wf_def sum_source_weights_total sources.total_weight_sum)

lemma shard_slices_member:
  assumes "sl \<in> set (shard_slices digest limits xs shard)"
  shows "slice_wf sl \<and>
    sl_sources sl \<in> set (split_shard limits (sort_key source_sort_key (filter (\<lambda>s. ps_shard s = shard) xs)))"
proof -
  from assms obtain i members where sl: "sl = make_slice digest shard i members"
    and "(i, members) \<in> set (enumerate 0 (split_shard limits
          (sort_key source_sort_key (filter (\<lambda>s. ps_shard s = shard) xs))))"
    unfolding shard_slices_def by auto
  then have "members \<in> set (split_shard limits (sort_key source_sort_key (filter (\<lambda>s. ps_shard s = shard) xs)))"
    by (auto simp: in_set_enumerate_eq)
  then show ?thesis by (simp add: sl make_slice_def slice_wf_def)
qed

lemma build_slices_member:
  assumes "sl \<in> set (build_slices digest limits xs)"
  obtains ys where "slice_wf sl" "sl_sources sl \<in> set (split_shard limits ys)" "set ys \<subseteq> set xs"
proof -
  from assms obtain shard where "sl \<in> set (shard_slices digest limits xs shard)"
    by (auto simp: build_slices_def)
  from shard_slices_member [OF this] show ?thesis
    by (intro that [of "sort_key source_sort_key (filter (\<lambda>s. ps_shard s = shard) xs)"]) auto
qed

definition fresh_slices :: "(string \<Rightarrow> string) \<Rightarrow> weight \<Rightarrow> planning_source list \<Rightarrow> dataset_slice list list" where
  "fresh_slices digest limits sources = pack_slices limits (build_slices digest limits sources)"

lemma cohorts_without_previous:
  "cp_cohorts (build_planning_cohorts digest sources limits None)
     = map (make_cohort digest) (fresh_slices digest limits sources)"
  by (simp add: build_planning_cohorts_def preserved_cohorts_def fresh_slices_def Let_def)

lemma fresh_slices_member:
  assumes "pack \<in> set (fresh_slices digest limits sources)" and "sl \<in> set pack"
  shows "sl \<in> set (build_slices digest limits sources)"
proof -
  have "sl \<in> set (concat (fresh_slices digest limits sources))" using assms by auto
  then show ?thesis by (simp only: fresh_slices_def pack_slices_def concat_greedy_pack) simp
qed

lemma fresh_slices_wf: "pack \<in> set (fresh_slices digest limits sources) \<Longrightarrow> list_all slice_wf pack"
  by (auto simp: list_all_iff elim: build_slices_member dest: fresh_slices_member)

lemma length_one_iff: "length xs = 1 \<longleftrightarrow> (\<exists>x. xs = [x])"
  by (auto simp: length_Suc_conv)

definition bounded_by :: "weight \<Rightarrow> weight \<Rightarrow> 'a list \<Rightarrow> bool" where
  "bounded_by limits w members = (\<not> is_oversized w limits \<or> length members = 1)"

text \<open>
  C24: A plan built without reusing cohorts respects its limits: every slice weighs at most the
  limits or is a single source file, and every cohort weighs at most the limits or is a single
  slice; the weight of a cohort is the sum of the weights of its source files.
\<close>

theorem fresh_cohorts_within_limits:
  "list_all (\<lambda>c. bounded_by limits (co_weight c) (co_slices c) \<and>
       co_weight c = sum_source_weights (concat (map sl_sources (co_slices c))) \<and>
       list_all (\<lambda>sl. bounded_by limits (sl_weight sl) (sl_sources sl)) (co_slices c))
     (cp_cohorts (build_planning_cohorts digest sources limits None))"
proof -
  have slice: "bounded_by limits (sl_weight sl) (sl_sources sl)"
    if "sl \<in> set (build_slices digest limits sources)" for sl
  proof -
    from that obtain ys where wf: "slice_wf sl" and mem: "sl_sources sl \<in> set (split_shard limits ys)"
      by (rule build_slices_member)
    then have "sources.bin_ok limits (sl_sources sl)"
      using sources.pack_partition [of limits ys] by (simp add: split_shard_def)
    with wf show ?thesis
      unfolding bounded_by_def length_one_iff sources.bin_ok_def slice_wf_def sum_source_weights_total
        sources.total_weight_def by simp
  qed
  have cohort: "bounded_by limits (co_weight (make_cohort digest pack)) pack"
    if "pack \<in> set (fresh_slices digest limits sources)" for pack
  proof -
    have "slices.bin_ok limits pack"
      using that slices.pack_partition unfolding fresh_slices_def pack_slices_def by blast
    then show ?thesis
      unfolding bounded_by_def length_one_iff slices.bin_ok_def make_cohort_def Let_def cohort.simps
        cohort_weight [OF fresh_slices_wf [OF that]] slices.total_weight_def by simp
  qed
  show ?thesis
    using slice cohort fresh_slices_member
    by (auto simp: list_all_iff cohorts_without_previous make_cohort_def Let_def)
qed

lemma nonneg_source: "0 \<le> int_or (ps_rows s) 0 \<Longrightarrow> 0 \<le> int_or (ps_size_bytes s) 0 \<Longrightarrow> nonneg_weight (source_weight s)"
  by (simp add: nonneg_weight_def source_weight_def)

lemma nonneg_slice:
  assumes "slice_wf sl" and "list_all (\<lambda>s. nonneg_weight (source_weight s)) (sl_sources sl)"
  shows "nonneg_weight (sl_weight sl)"
proof -
  have "0 \<le> sum_list (map (f \<circ> source_weight) (sl_sources sl))"
    if "\<And>s. s \<in> set (sl_sources sl) \<Longrightarrow> 0 \<le> f (source_weight s)" for f :: "weight \<Rightarrow> int"
    using that by (intro sum_list_int_nonneg) auto
  from this [of wt_rows] this [of wt_bytes] this [of wt_files] this [of wt_row_groups] assms(2)
  show ?thesis
    unfolding assms(1) [unfolded slice_wf_def] sum_source_weights_total sources.total_weight_sum
    by (simp add: nonneg_weight_def list_all_iff)
qed


definition sample_source :: "string \<Rightarrow> int \<Rightarrow> planning_source" where
  "sample_source p rows = \<lparr>ps_path = p, ps_relative_path = None, ps_shard = ''s'', ps_rows = Some rows,
     ps_size_bytes = Some 10, ps_row_groups = None, ps_candidate_path = p, ps_occupancy_path = p\<rparr>"

definition sample_sources :: "planning_source list" where
  "sample_sources = [sample_source ''a'' 10, sample_source ''b'' 500, sample_source ''c'' 20]"

definition sample_limits :: weight where
  "sample_limits = cohort_limits 100 1000 5 50"


theorem cohorts_partition_sources_witness:
  "mset (concat (map co_source_paths (cp_cohorts (build_planning_cohorts id sample_sources sample_limits
     (Some (build_planning_cohorts id (tl sample_sources) sample_limits None)))))) = {#''a'', ''b'', ''c''#}"
proof -
  have "distinct (map ps_path sample_sources)"
    "previous_wf (Some (build_planning_cohorts id (tl sample_sources) sample_limits None))" by code_simp+
  from cohorts_partition_sources [OF this, of id sample_limits] show ?thesis
    by (simp only:) (simp add: sample_sources_def sample_source_def)
qed

text \<open>
  Reused cohorts are not weighed again: a previous plan with the same limits keeps its memberships
  even when a file of it has grown, so a reused cohort of two slices can exceed the limits.
\<close>

lemma reused_cohort_may_exceed:
  "let old = [(sample_source ''a'' 40)\<lparr>ps_shard := ''x''\<rparr>, sample_source ''c'' 50];
       new = [(sample_source ''a'' 90)\<lparr>ps_shard := ''x''\<rparr>, sample_source ''c'' 50];
       plan = build_planning_cohorts id new sample_limits (Some (build_planning_cohorts id old sample_limits None))
   in map (\<lambda>c. length (co_slices c)) (cp_cohorts plan) = [2] \<and>
      map (\<lambda>c. is_oversized (co_weight c) sample_limits) (cp_cohorts plan) = [True]"
  by code_simp

end
