(* ===== verification/TopoSort.thy ===== *)
theory TopoSort
  imports Prelude
begin

text \<open>
  The stable topological sort that \<open>runtime/asset_chain.py\<close> and \<open>core/pipeline_dag.py\<close> both have.
  The dependency graph is a dictionary from a node to the list of the nodes it waits for, the
  position of a node breaks ties. The two loops differ in when they sort the ready list: the
  pipeline sorts at each insertion, the asset chain once per round; \<open>each\<close> selects which.
\<close>

type_synonym 'k graph = "('k \<times> 'k list) list"

definition deps_of :: "'k graph \<Rightarrow> 'k \<Rightarrow> 'k list" where
  "deps_of g k = (case map_of g k of None \<Rightarrow> [] | Some ds \<Rightarrow> ds)"

definition release ::
  "('k \<Rightarrow> nat) \<Rightarrow> bool \<Rightarrow> 'k \<Rightarrow> 'k list \<Rightarrow> 'k \<Rightarrow> 'k graph \<times> 'k list \<Rightarrow> 'k graph \<times> 'k list" where
  "release pos each current result candidate st =
     (case st of (remaining, ready) \<Rightarrow>
      if current \<notin> set (deps_of remaining candidate) then st
      else let left = removeAll current (deps_of remaining candidate);
               remaining' = dict_put candidate left remaining
           in if left = [] \<and> candidate \<notin> set result \<and> candidate \<notin> set ready
              then (remaining', if each then sort_key pos (ready @ [candidate]) else ready @ [candidate])
              else (remaining', ready))"

definition release_all ::
  "('k \<Rightarrow> nat) \<Rightarrow> bool \<Rightarrow> 'k \<Rightarrow> 'k list \<Rightarrow> 'k graph \<times> 'k list \<Rightarrow> 'k graph \<times> 'k list" where
  "release_all pos each current result st =
     fold (release pos each current result) (sort_key pos (dict_keys (fst st))) st"

definition waiting :: "'k graph \<Rightarrow> nat" where
  "waiting g = sum_list (map (length \<circ> snd) g)"

lemma waiting_dict_put:
  "map_of g k = Some ds \<Longrightarrow> waiting (dict_put k es g) + length ds = waiting g + length es"
  by (induction k es g rule: dict_put.induct) (auto simp: waiting_def split: if_splits)

lemma release_measure:
  "waiting (fst (release pos each c r k st)) + length (snd (release pos each c r k st))
     \<le> waiting (fst st) + length (snd st)"
proof -
  obtain g ready where st: "st = (g, ready)" by force
  show ?thesis
  proof (cases "c \<in> set (deps_of g k)")
    case True
    then obtain ds where ds: "map_of g k = Some ds" by (cases "map_of g k") (auto simp: deps_of_def)
    then have "waiting (dict_put k (removeAll c ds) g) + length ds = waiting g + length (removeAll c ds)"
      by (rule waiting_dict_put)
    moreover have "length (removeAll c ds) < length ds"
      using True ds by (intro length_removeAll_less) (simp add: deps_of_def)
    moreover have "1 \<le> length ds" using True ds by (cases ds) (simp_all add: deps_of_def)
    ultimately show ?thesis
      using True ds by (cases "removeAll c ds = []") (auto simp: st release_def Let_def deps_of_def)
  qed (simp add: st release_def)
qed

lemma release_all_measure:
  "waiting (fst (release_all pos each c r st)) + length (snd (release_all pos each c r st))
     \<le> waiting (fst st) + length (snd st)"
proof -
  have "waiting (fst (fold (release pos each c r) ks st)) + length (snd (fold (release pos each c r) ks st))
     \<le> waiting (fst st) + length (snd st)" for ks
  proof (induction ks arbitrary: st)
    case (Cons k ks)
    from Cons [of "release pos each c r k st"] release_measure [of pos each c r k st] show ?case by simp
  qed simp
  then show ?thesis by (simp add: release_all_def)
qed

function topo_loop :: "('k \<Rightarrow> nat) \<Rightarrow> bool \<Rightarrow> 'k graph \<Rightarrow> 'k list \<Rightarrow> 'k list \<Rightarrow> 'k list" where
  "topo_loop pos each remaining [] result = result"
| "topo_loop pos each remaining (current # ready) result =
     (let st = release_all pos each current (result @ [current]) (remaining, ready)
      in topo_loop pos each (fst st) (if each then snd st else sort_key pos (snd st)) (result @ [current]))"
  by pat_completeness auto

termination
proof (relation "measure (\<lambda>(pos, each, g, ready, result). waiting g + length ready)")
  fix pos :: "'k \<Rightarrow> nat" and each remaining current ready and result :: "'k list" and st
  assume "st = release_all pos each current (result @ [current]) (remaining, ready)"
  then show "((pos, each, fst st, if each then snd st else sort_key pos (snd st), result @ [current]),
      pos, each, remaining, current # ready, result)
      \<in> measure (\<lambda>(pos, each, g, ready, result). waiting g + length ready)"
    using release_all_measure [of pos each current "result @ [current]" "(remaining, ready)"]
    by (cases each) simp_all
qed simp

definition stable_topological_sort :: "('k \<Rightarrow> nat) \<Rightarrow> bool \<Rightarrow> 'k graph \<Rightarrow> 'k list" where
  "stable_topological_sort pos each g =
     topo_loop pos each g (sort_key pos (map fst (filter (\<lambda>p. snd p = []) g))) []"

section \<open>One round\<close>

lemma dict_keys_put: "k \<in> set (dict_keys g) \<Longrightarrow> dict_keys (dict_put k v g) = dict_keys g"
  by (induction k v g rule: dict_put.induct) (auto simp: dict_keys_def)

lemma deps_of_put: "deps_of (dict_put k ds g) j = (if j = k then ds else deps_of g j)"
  by (simp add: deps_of_def dict_simps)

lemma deps_of_key: "x \<in> set (deps_of g k) \<Longrightarrow> k \<in> set (dict_keys g)"
  by (cases "map_of g k") (auto simp: deps_of_def dict_keys_def intro!: rev_image_eqI dest: map_of_SomeD)

lemma release_step:
  assumes "release pos each c result k (g, ready) = (g', ready')" and "distinct ready"
  shows "dict_keys g' = dict_keys g"
    and "deps_of g' j = (if j = k then removeAll c (deps_of g k) else deps_of g j)"
    and "set ready' = set ready \<union>
      (if c \<in> set (deps_of g k) \<and> removeAll c (deps_of g k) = [] \<and> k \<notin> set result then {k} else {})"
    and "distinct ready'"
proof -
  show "dict_keys g' = dict_keys g"
    using assms(1) by (auto simp: release_def Let_def deps_of_key dict_keys_put split: if_splits)
  show "deps_of g' j = (if j = k then removeAll c (deps_of g k) else deps_of g j)"
    using assms(1) by (auto simp: release_def Let_def deps_of_put removeAll_id split: if_splits)
  show "set ready' = set ready \<union>
      (if c \<in> set (deps_of g k) \<and> removeAll c (deps_of g k) = [] \<and> k \<notin> set result then {k} else {})"
    using assms(1) by (auto simp: release_def Let_def split: if_splits)
  show "distinct ready'"
    using assms by (auto simp: release_def Let_def distinct_sort split: if_splits)
qed

lemma release_fold:
  assumes "fold (release pos each c result) ks (g, ready) = (g', ready')" and "distinct ready" and "distinct ks"
  shows "dict_keys g' = dict_keys g \<and>
    (\<forall>j. deps_of g' j = (if j \<in> set ks then removeAll c (deps_of g j) else deps_of g j)) \<and>
    set ready' = set ready \<union>
      {k \<in> set ks. c \<in> set (deps_of g k) \<and> removeAll c (deps_of g k) = [] \<and> k \<notin> set result} \<and>
    distinct ready'"
  using assms
proof (induction ks arbitrary: g ready)
  case (Cons k ks)
  obtain g1 ready1 where step: "release pos each c result k (g, ready) = (g1, ready1)" by force
  note one = release_step [OF step Cons.prems(2)]
  from Cons.prems(1) step have more: "fold (release pos each c result) ks (g1, ready1) = (g', ready')" by simp
  have d: "distinct ks" "k \<notin> set ks" using Cons.prems(3) by simp_all
  note rest = Cons.IH [OF more one(4) d(1)]
  have same: "deps_of g1 x = deps_of g x" if "x \<in> set ks" for x using one(2) d(2) that by auto
  have "set ready' = set ready \<union>
      {x \<in> set (k # ks). c \<in> set (deps_of g x) \<and> removeAll c (deps_of g x) = [] \<and> x \<notin> set result}"
    using rest one(3) same by auto
  moreover have "\<forall>j. deps_of g' j = (if j \<in> set (k # ks) then removeAll c (deps_of g j) else deps_of g j)"
    using rest one(2) d(2) by auto
  ultimately show ?case using rest one(1) by simp
qed auto

section \<open>What the loop computes\<close>

definition dep_rel :: "'k graph \<Rightarrow> ('k \<times> 'k) set" where
  "dep_rel g = {(d, k). k \<in> set (dict_keys g) \<and> d \<in> set (deps_of g k)}"

definition closed_graph :: "'k graph \<Rightarrow> bool" where
  "closed_graph g = (dict_wf g \<and> list_all (\<lambda>p. set (snd p) \<subseteq> set (dict_keys g)) g)"

text \<open>
  The order: every node comes after the nodes it waits for, and at each place stands an available
  node of least position.
\<close>

definition available :: "'k graph \<Rightarrow> 'k set \<Rightarrow> 'k \<Rightarrow> bool" where
  "available g done k = (k \<in> set (dict_keys g) \<and> k \<notin> done \<and> set (deps_of g k) \<subseteq> done)"

definition in_order :: "('k \<Rightarrow> nat) \<Rightarrow> 'k graph \<Rightarrow> 'k list \<Rightarrow> bool" where
  "in_order pos g xs =
     (\<forall>i<length xs. available g (set (take i xs)) (xs ! i) \<and>
        (\<forall>k. available g (set (take i xs)) k \<longrightarrow> pos (xs ! i) \<le> pos k))"

lemma in_order_snoc:
  assumes "in_order pos g xs" and "available g (set xs) x"
    and "\<And>k. available g (set xs) k \<Longrightarrow> pos x \<le> pos k"
  shows "in_order pos g (xs @ [x])"
  using assms by (auto simp: in_order_def nth_append less_Suc_eq)

lemma release_sorted:
  assumes "sorted (map pos (snd st))"
  shows "sorted (map pos (snd (release pos True c r k st)))"
  using assms by (cases st) (auto simp: release_def Let_def)

lemma release_all_sorted:
  assumes "sorted (map pos ready)"
  shows "sorted (map pos (snd (release_all pos True c r (g, ready))))"
proof -
  have "sorted (map pos (snd st)) \<Longrightarrow> sorted (map pos (snd (fold (release pos True c r) ks st)))" for ks st
    by (induction ks arbitrary: st) (simp_all add: release_sorted)
  with assms show ?thesis by (simp add: release_all_def)
qed

definition topo_inv :: "('k \<Rightarrow> nat) \<Rightarrow> 'k graph \<Rightarrow> 'k graph \<Rightarrow> 'k list \<Rightarrow> 'k list \<Rightarrow> bool" where
  "topo_inv pos g remaining ready result =
     (dict_keys remaining = dict_keys g \<and>
      (\<forall>k. deps_of remaining k = filter (\<lambda>d. d \<notin> set result) (deps_of g k)) \<and>
      set ready = {k. available g (set result) k} \<and> distinct (result @ ready) \<and>
      sorted (map pos ready) \<and> in_order pos g result)"

lemma removeAll_filter: "removeAll c (filter (\<lambda>d. d \<notin> S) xs) = filter (\<lambda>d. d \<notin> insert c S) xs"
  by (induction xs) auto

lemma topo_step:
  assumes inv: "topo_inv pos g remaining (c # ready) result" and wf: "dict_wf g"
    and st: "release_all pos each c (result @ [c]) (remaining, ready) = (remaining', ready')"
  shows "topo_inv pos g remaining' (if each then ready' else sort_key pos ready') (result @ [c])"
proof -
  from inv have keys: "dict_keys remaining = dict_keys g"
    and deps: "\<And>k. deps_of remaining k = filter (\<lambda>d. d \<notin> set result) (deps_of g k)"
    and ready: "set (c # ready) = {k. available g (set result) k}"
    and dist: "distinct ready" "c \<notin> set ready" "c \<notin> set result" "distinct result"
    and sorted: "sorted (map pos (c # ready))" and ord: "in_order pos g result"
    by (auto simp: topo_inv_def)
  let ?ks = "sort_key pos (dict_keys remaining)"
  have ks: "distinct ?ks" "set ?ks = set (dict_keys g)"
    using wf keys by (simp_all add: dict_wf_def dict_keys_def)
  from st have "fold (release pos each c (result @ [c])) ?ks (remaining, ready) = (remaining', ready')"
    by (simp add: release_all_def)
  note step = release_fold [OF this dist(1) ks(1)]
  have off: "deps_of g j = []" if "j \<notin> set (dict_keys g)" for j
    using that deps_of_key [of _ g j] by (cases "deps_of g j") auto
  have deps': "deps_of remaining' k = filter (\<lambda>d. d \<notin> set (result @ [c])) (deps_of g k)" for k
    using step ks(2) off [of k] by (simp add: deps removeAll_filter)
  have av: "available g (set result) c" using ready by auto
  have "set ready' = {k. available g (set (result @ [c])) k}"
  proof (intro set_eqI iffI)
    fix k assume "k \<in> set ready'"
    then consider "k \<in> set ready" | "k \<in> set (dict_keys g)" "c \<in> set (deps_of remaining k)"
        "removeAll c (deps_of remaining k) = []" "k \<notin> set (result @ [c])"
      using step ks(2) by auto
    then show "k \<in> {k. available g (set (result @ [c])) k}"
    proof cases
      case 1
      then show ?thesis using ready dist(2) by (auto simp: available_def)
    next
      case 2
      then show ?thesis by (auto simp: available_def deps removeAll_filter filter_empty_conv)
    qed
  next
    fix k assume k: "k \<in> {k. available g (set (result @ [c])) k}"
    show "k \<in> set ready'"
    proof (cases "set (deps_of g k) \<subseteq> set result")
      case True
      with k have "k \<in> set (c # ready)" unfolding ready by (simp add: available_def)
      with k step show ?thesis by (auto simp: available_def)
    next
      case False
      with k have "c \<in> set (deps_of remaining k)" "removeAll c (deps_of remaining k) = []"
        by (auto simp: available_def deps removeAll_filter filter_empty_conv)
      with k step ks(2) show ?thesis by (auto simp: available_def)
    qed
  qed
  moreover from this have "distinct ((result @ [c]) @ ready')"
    using step dist by (auto simp: available_def)
  moreover have "sorted (map pos (if each then ready' else sort_key pos ready'))"
    using release_all_sorted [of pos ready c "result @ [c]" remaining] sorted st by (cases each) simp_all
  moreover have "in_order pos g (result @ [c])"
    using ord av sorted ready by (intro in_order_snoc) auto
  ultimately show ?thesis
    using step keys deps' by (auto simp: topo_inv_def)
qed

lemma topo_loop_inv:
  assumes "topo_inv pos g remaining ready result" and "dict_wf g"
  shows "\<exists>remaining'. topo_inv pos g remaining' [] (topo_loop pos each remaining ready result)"
  using assms
proof (induction pos each remaining ready result rule: topo_loop.induct)
  case (2 pos each remaining current ready result)
  obtain remaining' ready' where st: "release_all pos each current (result @ [current]) (remaining, ready)
      = (remaining', ready')" by force
  from "2.IH" [OF st [symmetric]] topo_step [OF "2.prems" st] "2.prems"(2) show ?case
    by (simp only: topo_loop.simps Let_def st fst_conv snd_conv)
qed auto

lemma topo_inv_start:
  assumes "dict_wf g"
  shows "topo_inv pos g g (sort_key pos (map fst (filter (\<lambda>p. snd p = []) g))) []"
proof -
  have lookup: "map_of g (fst p) = Some (snd p)" if "p \<in> set g" for p
    using assms that by (simp add: dict_wf_def)
  then have "set (map fst (filter (\<lambda>p. snd p = []) g)) = {k \<in> set (dict_keys g). deps_of g k = []}"
    by (force simp: deps_of_def dict_keys_def)
  moreover have "distinct (map fst (filter (\<lambda>p. snd p = []) g))"
    using assms by (simp add: dict_wf_def distinct_map_filter)
  ultimately show ?thesis by (simp add: topo_inv_def available_def in_order_def)
qed

lemma stable_sort_inv:
  assumes "dict_wf g"
  shows "distinct (stable_topological_sort pos each g) \<and> in_order pos g (stable_topological_sort pos each g)
    \<and> (\<forall>k. \<not> available g (set (stable_topological_sort pos each g)) k)"
  using topo_loop_inv [OF topo_inv_start [OF assms] assms, of pos each]
  by (auto simp: topo_inv_def stable_topological_sort_def)

section \<open>The interface of a stable topological sort\<close>

lemma in_order_subset: "in_order pos g xs \<Longrightarrow> set xs \<subseteq> set (dict_keys g)"
  by (auto simp: in_order_def available_def in_set_conv_nth)

lemma in_order_before:
  assumes "in_order pos g xs" and "i < length xs" and "d \<in> set (deps_of g (xs ! i))"
  shows "\<exists>j<i. xs ! j = d"
proof -
  have "d \<in> set (take i xs)" using assms by (auto simp: in_order_def available_def)
  then show ?thesis using assms(2) by (auto simp: in_set_conv_nth)
qed

lemma in_order_acyclic:
  assumes "in_order pos g xs" and "distinct xs" and "set xs = set (dict_keys g)"
  shows "acyclic (dep_rel g)"
proof -
  define at where "at k = (THE i. i < length xs \<and> xs ! i = k)" for k
  have at: "at (xs ! i) = i" if "i < length xs" for i
    unfolding at_def using that assms(2) by (intro the_equality) (auto simp: nth_eq_iff_index_eq)
  have "at d < at k" if dk: "(d, k) \<in> dep_rel g" for d k
  proof -
    from dk have "k \<in> set xs" and d: "d \<in> set (deps_of g k)" by (simp_all add: dep_rel_def assms(3))
    then obtain i where i: "i < length xs" "xs ! i = k" by (auto simp: in_set_conv_nth)
    with d obtain j where "j < i" "xs ! j = d"
      using in_order_before [OF assms(1) i(1)] by auto
    with i at show ?thesis by fastforce
  qed
  then have "dep_rel g \<subseteq> inv_image less_than at" by (auto simp: inv_image_def)
  moreover have "acyclic (inv_image less_than at)" by (rule wf_acyclic) simp
  ultimately show ?thesis by (rule acyclic_subset [rotated])
qed

lemma stuck_means_cycle:
  assumes "closed_graph g" and "acyclic (dep_rel g)" and "\<And>k. \<not> available g done k"
  shows "set (dict_keys g) \<subseteq> done"
proof (rule ccontr)
  let ?C = "set (dict_keys g) - done"
  assume "\<not> set (dict_keys g) \<subseteq> done"
  then have "?C \<noteq> {}" by blast
  have deps: "set (deps_of g k) \<subseteq> set (dict_keys g)" for k
    using assms(1) by (cases "map_of g k") (force simp: closed_graph_def deps_of_def list_all_iff dest: map_of_SomeD)+
  then have "dep_rel g \<subseteq> set (dict_keys g) \<times> set (dict_keys g)" by (auto simp: dep_rel_def)
  then have "finite (dep_rel g)" by (rule finite_subset) simp
  then have "wf (dep_rel g)" using assms(2) by (rule finite_acyclic_wf)
  then obtain z where z: "z \<in> ?C" "\<And>y. (y, z) \<in> dep_rel g \<Longrightarrow> y \<notin> ?C"
    using \<open>?C \<noteq> {}\<close> by (metis all_not_in_conv wfE_min)
  with assms(3) [of z] obtain d where "d \<in> set (deps_of g z)" "d \<notin> done" by (auto simp: available_def)
  with z deps [of z] show False by (auto simp: dep_rel_def)
qed

locale stable_sort =
  fixes order_of :: "('k \<Rightarrow> nat) \<Rightarrow> 'k graph \<Rightarrow> 'k list"
  assumes order_distinct: "dict_wf g \<Longrightarrow> distinct (order_of pos g)"
    and order_in_order: "dict_wf g \<Longrightarrow> in_order pos g (order_of pos g)"
    and order_maximal: "dict_wf g \<Longrightarrow> \<not> available g (set (order_of pos g)) k"
begin

lemma order_length_le: "dict_wf g \<Longrightarrow> length (order_of pos g) \<le> length g"
  using order_distinct [of g pos] in_order_subset [OF order_in_order [of g pos]]
  by (metis dict_keys_def distinct_card card_mono finite_set dict_wf_def length_map)

lemma complete_iff_acyclic:
  assumes "closed_graph g"
  shows "length (order_of pos g) = length g \<longleftrightarrow> acyclic (dep_rel g)"
proof -
  have wf: "dict_wf g" using assms by (simp add: closed_graph_def)
  have keys: "distinct (dict_keys g)" "length (dict_keys g) = length g"
    using wf by (simp_all add: dict_wf_def dict_keys_def)
  have card: "card (set (order_of pos g)) = length (order_of pos g)" "card (set (dict_keys g)) = length g"
    using order_distinct [OF wf, of pos] keys by (metis distinct_card)+
  have sub: "set (order_of pos g) \<subseteq> set (dict_keys g)" by (rule in_order_subset [OF order_in_order [OF wf]])
  show ?thesis
  proof
    assume "length (order_of pos g) = length g"
    then have "set (order_of pos g) = set (dict_keys g)" using card sub by (metis card_subset_eq finite_set)
    then show "acyclic (dep_rel g)" by (rule in_order_acyclic [OF order_in_order [OF wf] order_distinct [OF wf]])
  next
    assume "acyclic (dep_rel g)"
    then have "set (dict_keys g) \<subseteq> set (order_of pos g)"
      by (rule stuck_means_cycle [OF assms]) (rule order_maximal [OF wf])
    with sub have "set (order_of pos g) = set (dict_keys g)" by blast
    with card show "length (order_of pos g) = length g" by simp
  qed
qed

lemma complete_order:
  assumes "dict_wf g" and "length (order_of pos g) = length g"
  shows "mset (order_of pos g) = mset (dict_keys g)"
proof -
  have "set (order_of pos g) = set (dict_keys g)"
    using assms order_distinct [OF assms(1), of pos] in_order_subset [OF order_in_order [OF assms(1), of pos]]
    by (metis card_subset_eq dict_keys_def dict_wf_def distinct_card finite_set length_map)
  moreover have "distinct (dict_keys g)" using assms(1) by (simp add: dict_wf_def dict_keys_def)
  ultimately show ?thesis
    using order_distinct [OF assms(1), of pos] by (simp only: set_eq_iff_mset_eq_distinct)
qed

end

interpretation topo: stable_sort "\<lambda>pos. stable_topological_sort pos each" for each
  by unfold_locales (use stable_sort_inv in blast)+

end
