(* ===== verification/AssetChain.thy ===== *)
theory AssetChain
  imports TopoSort YamlShape
begin

text \<open>
  \<open>runtime/asset_chain.py\<close>: loading a chain document into a specification with its execution
  order, and running the chain. Parsed YAML documents and the file system are arguments: a
  definition is looked up by its resolved path, the state of the outside world (files, what the
  asset executors do to it) is threaded through the run as a value of type \<open>'w\<close>. The event log
  and the rendering of the metadata document are not modelled.
\<close>

section \<open>Specification\<close>

record asset_node =
  an_id :: string
  an_code :: string
  an_definition :: string
  an_inputs :: "(string \<times> string) list"

record chain_spec =
  cs_name :: string
  cs_assets :: "asset_node list"
  cs_order :: "string list"
  cs_failure_policy :: string
  cs_unchanged_policy :: string
  cs_max_parallel :: int

definition ASSET_CHAIN_SCHEMA_VERSION :: string where
  "ASSET_CHAIN_SCHEMA_VERSION = ''smoking-data.asset-chain.v2''"

definition supported_asset_codes :: "string list" where
  "supported_asset_codes = [''0101'', ''0102'', ''0103'', ''0201'', ''0301'', ''0401'']"

definition chain_mapping :: "pyval \<Rightarrow> pydict result" where
  "chain_mapping v = (case v of VDict d \<Rightarrow> Inr d | _ \<Rightarrow> Inl (ValidationError ''yaml.invalid_type''))"

definition required_string :: "pyval \<Rightarrow> string result" where
  "required_string v =
     (let t = py_strip (str_or v []) in
      raise_if (t = []) (ValidationError ''yaml.required_key'') (Inr t))"

definition reject_unknown :: "pydict \<Rightarrow> string list \<Rightarrow> unit result" where
  "reject_unknown d allowed =
     raise_if (unknown_keys d allowed \<noteq> []) (ValidationError ''yaml.unknown_key'') (Inr ())"

definition definition_schema :: "string \<Rightarrow> string option" where
  "definition_schema code =
     map_of [(''0101'', ''smoking-data.source.v5''), (''0102'', ''smoking-data.calculated-fact.v4''),
             (''0103'', ''smoking-data.csv-source.v1''), (''0201'', ''smoking-data.pipeline.v7''),
             (''0301'', ''smoking-data.pipeline.v6''), (''0401'', ''smoking-data.pipeline.v8'')] code"

definition validate_definition_schema :: "pyval \<Rightarrow> string \<Rightarrow> unit result" where
  "validate_definition_schema doc asset_code =
     (let payload = py_or doc (VDict []) in
      raise_if (\<not> is_dict payload) (ValidationError ''asset_chain.invalid_definition'')
        (res_bind (chain_mapping (get_key (dict_of payload) ''yaml'')) (\<lambda>header.
         res_bind (reject_unknown header [''schema_version'', ''asset_code'']) (\<lambda>_.
           case definition_schema asset_code of
             None \<Rightarrow> Inl (ValidationError ''asset_chain.unsupported_asset_code'')
           | Some expected \<Rightarrow>
               raise_if (str_or (get_key header ''asset_code'') [] \<noteq> asset_code
                         \<or> get_key header ''schema_version'' \<noteq> VStr expected)
                 (ValidationError ''asset_chain.definition_kind_mismatch'') (Inr ())))))"

text \<open>The four digits of \<open>_ASSET_CODE_PATTERN\<close>.\<close>

definition is_asset_code :: "string \<Rightarrow> bool" where
  "is_asset_code c = (length c = 4 \<and> list_all is_digit c)"

text \<open>
  The files of definitions: a path is resolved against the directory of the chain document, and
  a definition that is a file has a parsed document.
\<close>

record definition_files =
  df_resolve :: "string \<Rightarrow> string"
  df_document :: "string \<Rightarrow> pyval option"

definition node_inputs :: "pydict \<Rightarrow> (string \<times> string) list result" where
  "node_inputs d =
     res_bind (res_map (\<lambda>(port, upstream).
         res_bind (required_string (VStr port)) (\<lambda>p.
         res_bind (required_string upstream) (\<lambda>u. Inr (p, u)))) d)
       (\<lambda>ps. Inr (dict_of_pairs ps))"

definition load_asset_node :: "definition_files \<Rightarrow> string list \<Rightarrow> pyval \<Rightarrow> asset_node result" where
  "load_asset_node files seen raw =
     res_bind (chain_mapping raw) (\<lambda>asset.
     res_bind (reject_unknown asset [''id'', ''asset_code'', ''definition'', ''inputs'']) (\<lambda>_.
     res_bind (required_string (get_key asset ''id'')) (\<lambda>asset_id.
     raise_if (asset_id \<in> set seen) (ValidationError ''asset_chain.duplicate_asset_id'')
    (res_bind (required_string (get_key asset ''asset_code'')) (\<lambda>asset_code.
     raise_if (\<not> is_asset_code asset_code \<or> asset_code \<notin> set supported_asset_codes)
       (ValidationError ''asset_chain.unsupported_asset_code'')
    (res_bind (required_string (get_key asset ''definition'')) (\<lambda>definition_value.
     let path = df_resolve files definition_value in
     case df_document files path of
       None \<Rightarrow> Inl (ValidationError ''asset_chain.definition_missing'')
     | Some doc \<Rightarrow>
         res_bind (chain_mapping (py_or (get_key asset ''inputs'') (VDict []))) (\<lambda>inputs.
         res_bind (node_inputs inputs) (\<lambda>normalized.
         res_bind (validate_definition_schema doc asset_code) (\<lambda>_.
           Inr \<lparr>an_id = asset_id, an_code = asset_code, an_definition = path,
                an_inputs = normalized\<rparr>))))))))))"

fun load_asset_nodes :: "definition_files \<Rightarrow> string list \<Rightarrow> pyval list \<Rightarrow> asset_node list result" where
  "load_asset_nodes files seen [] = Inr []"
| "load_asset_nodes files seen (raw # rest) =
     res_bind (load_asset_node files seen raw) (\<lambda>node.
     res_bind (load_asset_nodes files (an_id node # seen) rest) (\<lambda>nodes. Inr (node # nodes)))"

definition upstream_ids :: "asset_node \<Rightarrow> string list" where
  "upstream_ids node = map snd (an_inputs node)"

definition check_upstreams :: "string list \<Rightarrow> asset_node \<Rightarrow> unit result" where
  "check_upstreams ids node =
     res_bind (res_map (\<lambda>(port, upstream).
         raise_if (upstream = an_id node) (ValidationError ''asset_chain.self_reference'')
           (raise_if (upstream \<notin> set ids) (ValidationError ''asset_chain.unknown_upstream'') (Inr ())))
       (an_inputs node)) (\<lambda>_. Inr ())"

definition dependency_graph :: "asset_node list \<Rightarrow> string graph" where
  "dependency_graph nodes = map (\<lambda>n. (an_id n, dict_fromkeys (upstream_ids n))) nodes"

text \<open>The position of an id is the index of its node; ids are distinct when this is used.\<close>

definition position :: "asset_node list \<Rightarrow> string \<Rightarrow> nat" where
  "position nodes i = length (takeWhile (\<lambda>n. an_id n \<noteq> i) nodes)"

definition topological_order :: "asset_node list \<Rightarrow> string list result" where
  "topological_order nodes =
     (let order = stable_topological_sort (position nodes) False (dependency_graph nodes) in
      raise_if (length order \<noteq> length nodes) (ValidationError ''asset_chain.cycle'') (Inr order))"

definition load_execution :: "pyval \<Rightarrow> (string \<times> string \<times> int) result" where
  "load_execution v =
     res_bind (chain_mapping (py_or v (VDict []))) (\<lambda>execution.
     res_bind (reject_unknown execution
                 [''failure_policy'', ''unchanged_policy'', ''max_parallel_assets'']) (\<lambda>_.
       let failure_policy = str_or (get_key execution ''failure_policy'') ''stop_downstream'';
           unchanged_policy = str_or (get_key execution ''unchanged_policy'') ''skip''
       in raise_if (failure_policy \<noteq> ''stop_downstream'')
            (ValidationError ''asset_chain.unsupported_failure_policy'')
         (raise_if (unchanged_policy \<notin> set [''skip'', ''run''])
            (ValidationError ''asset_chain.unsupported_unchanged_policy'')
         (res_bind (py_int (py_or (get_default execution ''max_parallel_assets'' (VInt 1)) (VInt 1)))
            (\<lambda>n. raise_if (n \<noteq> 1) (ValidationError ''asset_chain.parallel_execution_unsupported'')
                   (Inr (failure_policy, unchanged_policy, n)))))))"

definition load_asset_chain :: "definition_files \<Rightarrow> pyval option \<Rightarrow> chain_spec result" where
  "load_asset_chain files doc =
     (case doc of
        None \<Rightarrow> Inl (ValidationError ''asset_chain.definition_missing'')
      | Some loaded \<Rightarrow>
          res_bind (chain_mapping (py_or loaded (VDict []))) (\<lambda>payload.
          res_bind (reject_unknown payload [''yaml'', ''chain'', ''assets'', ''execution'']) (\<lambda>_.
          res_bind (chain_mapping (get_key payload ''yaml'')) (\<lambda>header.
          res_bind (reject_unknown header [''schema_version'']) (\<lambda>_.
          raise_if (get_key header ''schema_version'' \<noteq> VStr ASSET_CHAIN_SCHEMA_VERSION)
            (ValidationError ''asset_chain.invalid_schema_version'')
         (res_bind (chain_mapping (get_key payload ''chain'')) (\<lambda>chain.
          res_bind (reject_unknown chain [''name'']) (\<lambda>_.
          res_bind (required_string (get_key chain ''name'')) (\<lambda>name.
          let raw_assets = get_key payload ''assets'' in
          raise_if (\<not> is_list raw_assets \<or> items_of raw_assets = []) (ValidationError ''yaml.invalid_type'')
         (res_bind (load_asset_nodes files [] (items_of raw_assets)) (\<lambda>nodes.
          res_bind (res_map (check_upstreams (map an_id nodes)) nodes) (\<lambda>_.
          res_bind (topological_order nodes) (\<lambda>order.
          res_bind (load_execution (get_key payload ''execution'')) (\<lambda>(failure_policy, unchanged_policy, n).
            Inr \<lparr>cs_name = name, cs_assets = nodes, cs_order = order, cs_failure_policy = failure_policy,
                 cs_unchanged_policy = unchanged_policy, cs_max_parallel = n\<rparr>))))))))))))))"

section \<open>Results\<close>

datatype asset_status = Executed | Reused | Failed | Blocked

record asset_result =
  ar_id :: string
  ar_code :: string
  ar_definition :: string
  ar_status :: asset_status
  ar_ok :: bool
  ar_input_fingerprint :: string
  ar_receipt :: "string option"
  ar_output_paths :: "string list"
  ar_metadata_path :: "string option"
  ar_blocked_by :: "string list"
  ar_error_type :: "string option"

record chain_result =
  cr_ok :: bool
  cr_assets :: "asset_result list"

definition plain_result :: "asset_node \<Rightarrow> string \<Rightarrow> asset_status \<Rightarrow> asset_result" where
  "plain_result node fp st =
     \<lparr>ar_id = an_id node, ar_code = an_code node, ar_definition = an_definition node, ar_status = st,
      ar_ok = (st \<in> {Executed, Reused}), ar_input_fingerprint = fp, ar_receipt = None,
      ar_output_paths = [], ar_metadata_path = None, ar_blocked_by = [], ar_error_type = None\<rparr>"

section \<open>The outside world of a run\<close>

datatype asset_executor = RunSource | RunCalculatedFact | RunCsvSource | RunPipeline | RunSnapshot

definition asset_executor :: "string \<Rightarrow> asset_executor result" where
  "asset_executor code =
     (if code = ''0101'' then Inr RunSource
      else if code = ''0102'' then Inr RunCalculatedFact
      else if code = ''0103'' then Inr RunCsvSource
      else if code \<in> set [''0201'', ''0301''] then Inr RunPipeline
      else if code = ''0401'' then Inr RunSnapshot
      else Inl (ValidationError ''asset_chain.unsupported_asset_code''))"

text \<open>
  \<open>w_run\<close> runs an asset and returns whether its result object is ok with the object's dictionary,
  or the exception it raised; \<open>w_digest\<close> is SHA-256 of the canonical JSON of a value; the other
  components read files: the fingerprints of the asset's configuration, contract and definition,
  the receipt of an output path, whether a path exists.
\<close>

record 'w world =
  w_run :: "asset_executor \<Rightarrow> string \<Rightarrow> 'w \<Rightarrow> (bool \<times> pydict) result \<times> 'w"
  w_digest :: "pyval \<Rightarrow> string"
  w_config_fingerprint :: "string \<Rightarrow> 'w \<Rightarrow> pyval"
  w_contract_fingerprint :: "string \<Rightarrow> 'w \<Rightarrow> pyval"
  w_file_sha256 :: "string \<Rightarrow> 'w \<Rightarrow> string"
  w_path_receipt :: "string \<Rightarrow> 'w \<Rightarrow> pyval"
  w_exists :: "string \<Rightarrow> 'w \<Rightarrow> bool"

definition opt_str :: "string option \<Rightarrow> pyval" where
  "opt_str v = (case v of None \<Rightarrow> VNone | Some s \<Rightarrow> VStr s)"

definition source_payload :: "bool \<Rightarrow> pydict \<Rightarrow> pydict" where
  "source_payload ok payload =
     [(''ok'', VBool ok), (''output_paths'', VList (items_of (py_or (get_key payload ''dataset_paths'') (VList [])))),
      (''metadata_path'', VNone),
      (''details'', VDict
         [(''metadata_paths'', VList (items_of (py_or (get_key payload ''metadata_paths'') (VList [])))),
          (''log_path'', get_key payload ''log_path''), (''task_count'', get_key payload ''task_count''),
          (''success_task_count'', get_key payload ''success_task_count''),
          (''error_task_count'', get_key payload ''error_task_count''),
          (''physical_probe'', get_key payload ''physical_probe'')]),
      (''error_message'', if ok then VNone else VStr (''0101 source status: '' @ py_str (get_key payload ''status'')))]"

definition pipeline_payload :: "pydict \<Rightarrow> pydict" where
  "pipeline_payload payload =
     (let output_dir = get_key (dict_of (py_or (get_key payload ''details'') (VDict []))) ''output_dir''
      in if py_truthy output_dir then dict_put ''output_paths'' (VList [VStr (py_str output_dir)]) payload
         else payload)"

definition execute_asset_definition :: "'w world \<Rightarrow> string \<Rightarrow> string \<Rightarrow> 'w \<Rightarrow> pydict result \<times> 'w" where
  "execute_asset_definition wld code def w =
     (case asset_executor code of
        Inl e \<Rightarrow> (Inl e, w)
      | Inr ex \<Rightarrow>
          (case w_run wld ex def w of
             (Inl e, w') \<Rightarrow> (Inl e, w')
           | (Inr (ok, payload), w') \<Rightarrow>
               (Inr (case ex of RunSource \<Rightarrow> source_payload ok payload
                     | RunPipeline \<Rightarrow> pipeline_payload payload
                     | _ \<Rightarrow> payload), w')))"

section \<open>Fingerprints and reuse\<close>

text \<open>The receipts of the upstream assets by port, in port order; a missing upstream is a KeyError.\<close>

definition upstream_receipts ::
  "asset_node \<Rightarrow> (string \<times> asset_result) list \<Rightarrow> (string \<times> pyval) list result" where
  "upstream_receipts node completed =
     res_map (\<lambda>(port, upstream). case map_of completed upstream of
         None \<Rightarrow> Inl (KeyError upstream)
       | Some r \<Rightarrow> Inr (port, opt_str (ar_receipt r))) (sort_key fst (an_inputs node))"

definition input_fingerprint ::
  "'w world \<Rightarrow> asset_node \<Rightarrow> (string \<times> asset_result) list \<Rightarrow> 'w \<Rightarrow> string result" where
  "input_fingerprint wld node completed w =
     res_bind (upstream_receipts node completed) (\<lambda>receipts.
       Inr (w_digest wld (VDict
         [(''asset_code'', VStr (an_code node)),
          (''asset_config_fingerprint'', w_config_fingerprint wld (an_code node) w),
          (''asset_contract_fingerprint'', w_contract_fingerprint wld (an_code node) w),
          (''definition_hash'', VStr (w_file_sha256 wld (an_definition node) w)),
          (''upstreams'', VDict receipts)])))"

definition receipt_fingerprint ::
  "'w world \<Rightarrow> asset_node \<Rightarrow> string \<Rightarrow> string list \<Rightarrow> string option \<Rightarrow> 'w \<Rightarrow> string" where
  "receipt_fingerprint wld node fp outputs metadata w =
     w_digest wld (VDict
       [(''asset_id'', VStr (an_id node)), (''input_fingerprint'', VStr fp),
        (''outputs'', VList (map (\<lambda>p. w_path_receipt wld p w) (sort outputs))),
        (''metadata'', case metadata of None \<Rightarrow> VNone | Some p \<Rightarrow> w_path_receipt wld p w)])"

definition path_list :: "pyval \<Rightarrow> string list result" where
  "path_list v =
     res_bind (py_iter (py_or v (VList [])))
       (res_map (\<lambda>x. case x of VStr s \<Rightarrow> Inr s | _ \<Rightarrow> Inl (TypeError ''path'')))"

definition optional_path :: "pyval \<Rightarrow> string option" where
  "optional_path v = (if py_truthy v then Some (py_str v) else None)"

definition reusable_statuses :: "pyval list" where
  "reusable_statuses = [VStr ''executed'', VStr ''reused'']"

definition can_reuse ::
  "'w world \<Rightarrow> asset_node \<Rightarrow> string \<Rightarrow> pydict option \<Rightarrow> string \<Rightarrow> 'w \<Rightarrow> bool result" where
  "can_reuse wld node fp previous unchanged_policy w =
     (case previous of
        None \<Rightarrow> Inr False
      | Some prior \<Rightarrow>
          if unchanged_policy \<noteq> ''skip'' \<or> an_inputs node = [] \<or> prior = [] then Inr False
          else if get_key prior ''input_fingerprint'' \<noteq> VStr fp then Inr False
          else if get_key prior ''status'' \<notin> set reusable_statuses then Inr False
          else if \<not> py_truthy (get_key prior ''receipt_fingerprint'') then Inr False
          else res_bind (path_list (get_key prior ''output_paths'')) (\<lambda>outputs.
                 if outputs = [] \<or> \<not> list_all (\<lambda>p. w_exists wld p w) outputs then Inr False
                 else Inr (VStr (receipt_fingerprint wld node fp outputs
                             (optional_path (get_key prior ''metadata_path'')) w)
                           = get_key prior ''receipt_fingerprint'')))"

section \<open>Running a chain\<close>

definition executed_result ::
  "'w world \<Rightarrow> asset_node \<Rightarrow> string \<Rightarrow> pydict \<Rightarrow> 'w \<Rightarrow> asset_result result" where
  "executed_result wld node fp payload w =
     res_bind (path_list (get_key payload ''output_paths'')) (\<lambda>outputs.
       let metadata = optional_path (get_key payload ''metadata_path'') in
       if \<not> py_truthy (get_default payload ''ok'' (VBool True))
       then Inr ((plain_result node fp Failed)
                   \<lparr>ar_output_paths := outputs, ar_metadata_path := metadata,
                    ar_error_type := Some (str_or (get_key payload ''error_type'') ''AssetExecutionFailure'')\<rparr>)
       else Inr ((plain_result node fp Executed)
                   \<lparr>ar_receipt := Some (receipt_fingerprint wld node fp outputs metadata w),
                    ar_output_paths := outputs, ar_metadata_path := metadata\<rparr>))"

fun error_type_name :: "py_error \<Rightarrow> string" where
  "error_type_name (ValidationError _) = ''ValidationError''"
| "error_type_name (ValueError _) = ''ValueError''"
| "error_type_name (KeyError _) = ''KeyError''"
| "error_type_name (TypeError _) = ''TypeError''"
| "error_type_name (IndexError _) = ''IndexError''"
| "error_type_name (RuntimeError _) = ''RuntimeError''"
| "error_type_name (AttributeError _) = ''AttributeError''"
| "error_type_name (OSError _) = ''OSError''"

text \<open>Every exception of the execution becomes a failed result.\<close>

definition execute_asset :: "'w world \<Rightarrow> asset_node \<Rightarrow> string \<Rightarrow> 'w \<Rightarrow> asset_result \<times> 'w" where
  "execute_asset wld node fp w =
     (case execute_asset_definition wld (an_code node) (an_definition node) w of
        (run, w') \<Rightarrow>
          (case res_bind run (\<lambda>payload. executed_result wld node fp payload w') of
             Inr r \<Rightarrow> (r, w')
           | Inl e \<Rightarrow> ((plain_result node fp Failed)\<lparr>ar_error_type := Some (error_type_name e)\<rparr>, w')))"

definition reused_result :: "asset_node \<Rightarrow> string \<Rightarrow> pydict \<Rightarrow> asset_result result" where
  "reused_result node fp prior =
     res_bind (path_list (get_key prior ''output_paths'')) (\<lambda>outputs.
       Inr ((plain_result node fp Reused)
              \<lparr>ar_receipt := Some (py_str (get_key prior ''receipt_fingerprint'')),
               ar_output_paths := outputs,
               ar_metadata_path := optional_path (get_key prior ''metadata_path'')\<rparr>))"

definition blocked_by :: "asset_node \<Rightarrow> (string \<times> asset_result) list \<Rightarrow> string list result" where
  "blocked_by node completed =
     res_bind (res_map (\<lambda>u. case map_of completed u of
           None \<Rightarrow> Inl (KeyError u) | Some r \<Rightarrow> Inr (u, ar_status r)) (upstream_ids node))
       (\<lambda>us. Inr (map fst (filter (\<lambda>(u, st). st \<in> {Failed, Blocked}) us)))"

record 'w chain_state =
  ch_completed :: "(string \<times> asset_result) list"
  ch_world :: 'w

definition run_asset ::
  "'w world \<Rightarrow> string \<Rightarrow> (string \<times> pydict) list \<Rightarrow> asset_node \<Rightarrow> 'w chain_state \<Rightarrow> (asset_result \<times> 'w) result" where
  "run_asset wld unchanged_policy previous node s =
     (let w = ch_world s in
      res_bind (blocked_by node (ch_completed s)) (\<lambda>blockers.
      res_bind (input_fingerprint wld node (ch_completed s) w) (\<lambda>fp.
        if blockers \<noteq> []
        then Inr ((plain_result node fp Blocked)
                    \<lparr>ar_blocked_by := blockers, ar_error_type := Some ''UpstreamAssetFailure''\<rparr>, w)
        else res_bind (can_reuse wld node fp (map_of previous (an_id node)) unchanged_policy w) (\<lambda>reuse.
               if reuse
               then res_bind (reused_result node fp (the (map_of previous (an_id node)))) (\<lambda>r. Inr (r, w))
               else Inr (execute_asset wld node fp w)))))"

definition chain_step ::
  "'w world \<Rightarrow> chain_spec \<Rightarrow> (string \<times> pydict) list \<Rightarrow> string \<Rightarrow> 'w chain_state \<Rightarrow> 'w chain_state result" where
  "chain_step wld spec previous asset_id s =
     (case map_of (map (\<lambda>n. (an_id n, n)) (cs_assets spec)) asset_id of
        None \<Rightarrow> Inl (KeyError asset_id)
      | Some node \<Rightarrow>
          res_bind (run_asset wld (cs_unchanged_policy spec) previous node s) (\<lambda>(r, w).
            Inr \<lparr>ch_completed = ch_completed s @ [(asset_id, r)], ch_world = w\<rparr>))"

definition run_asset_chain ::
  "'w world \<Rightarrow> chain_spec \<Rightarrow> (string \<times> pydict) list \<Rightarrow> 'w \<Rightarrow> (chain_result \<times> 'w) result" where
  "run_asset_chain wld spec previous w =
     res_bind (res_fold (chain_step wld spec previous) (cs_order spec) \<lparr>ch_completed = [], ch_world = w\<rparr>) (\<lambda>s.
       let results = map snd (ch_completed s) in
       Inr (\<lparr>cr_ok = list_all ar_ok results, cr_assets = results\<rparr>, ch_world s))"

text \<open>\<open>_read_previous_assets\<close> on the parsed metadata document; None: no file, or not JSON.\<close>

definition read_previous_assets :: "pyval option \<Rightarrow> (string \<times> pydict) list" where
  "read_previous_assets doc =
     (case doc of
        Some (VDict d) \<Rightarrow>
          (if is_list (get_key d ''assets'')
           then dict_of_pairs (concat (map (\<lambda>item. case item of
                  VDict a \<Rightarrow> if py_truthy (get_key a ''asset_id'') then [(py_str (get_key a ''asset_id''), a)] else []
                | _ \<Rightarrow> []) (items_of (get_key d ''assets''))))
           else [])
      | _ \<Rightarrow> [])"

section \<open>What loading guarantees\<close>

definition nodes_wf :: "asset_node list \<Rightarrow> bool" where
  "nodes_wf nodes =
     (distinct (map an_id nodes) \<and>
      list_all (\<lambda>n. set (upstream_ids n) \<subseteq> set (map an_id nodes)) nodes)"

definition depends_on :: "asset_node list \<Rightarrow> (string \<times> string) set" where
  "depends_on nodes = {(u, an_id n) | u n. n \<in> set nodes \<and> u \<in> set (upstream_ids n)}"

lemma load_asset_nodes_distinct:
  assumes "load_asset_nodes files seen raws = Inr nodes"
  shows "distinct (map an_id nodes) \<and> set (map an_id nodes) \<inter> set seen = {}"
  using assms
proof (induction files seen raws arbitrary: nodes rule: load_asset_nodes.induct)
  case (2 files seen raw rest)
  from "2.prems" obtain node nodes' where node: "load_asset_node files seen raw = Inr node"
    and rest: "load_asset_nodes files (an_id node # seen) rest = Inr nodes'" and nodes: "nodes = node # nodes'"
    by (auto simp: res_bind_eq_Inr)
  have fresh: "an_id node \<notin> set seen"
    using node unfolding load_asset_node_def Let_def
    by (auto simp only: res_bind_eq_Inr raise_if_eq_Inr sum.inject asset_node.simps simp_thms
        sum.distinct split: option.split_asm)
  from "2.IH" [OF node rest] fresh nodes show ?case by auto
qed simp

lemma check_upstreams_Inr:
  assumes "check_upstreams ids node = Inr u" and "v \<in> set (upstream_ids node)"
  shows "v \<in> set ids \<and> v \<noteq> an_id node"
proof -
  from assms(2) obtain port where p: "(port, v) \<in> set (an_inputs node)" by (auto simp: upstream_ids_def)
  from assms(1) obtain us where us: "res_map (\<lambda>(port, upstream).
         raise_if (upstream = an_id node) (ValidationError ''asset_chain.self_reference'')
           (raise_if (upstream \<notin> set ids) (ValidationError ''asset_chain.unknown_upstream'') (Inr ())))
       (an_inputs node) = Inr us"
    unfolding check_upstreams_def res_bind_eq_Inr by blast
  from res_map_input [OF us p] show ?thesis by (auto simp only: prod.case raise_if_eq_Inr)
qed

lemma load_asset_chain_Inr:
  assumes "load_asset_chain files doc = Inr spec"
  shows "nodes_wf (cs_assets spec) \<and> topological_order (cs_assets spec) = Inr (cs_order spec) \<and>
    cs_unchanged_policy spec \<in> set [''skip'', ''run''] \<and> cs_max_parallel spec = 1"
proof -
  from assms obtain raws nodes us order ex fp up n name where
    nodes: "load_asset_nodes files [] raws = Inr nodes"
    and ups: "res_map (check_upstreams (map an_id nodes)) nodes = Inr us"
    and order: "topological_order nodes = Inr order"
    and exe: "load_execution ex = Inr (fp, up, n)"
    and spec: "spec = \<lparr>cs_name = name, cs_assets = nodes, cs_order = order, cs_failure_policy = fp,
                 cs_unchanged_policy = up, cs_max_parallel = n\<rparr>"
    unfolding load_asset_chain_def Let_def
    by (clarsimp simp only: res_bind_eq_Inr raise_if_eq_Inr split_paired_all split_paired_Ex case_prod_conv
        sum.inject split: option.splits) blast
  have "set (upstream_ids node) \<subseteq> set (map an_id nodes)" if "node \<in> set nodes" for node
    using res_map_input [OF ups that] check_upstreams_Inr by blast
  then have "nodes_wf nodes"
    using load_asset_nodes_distinct [OF nodes] by (simp add: nodes_wf_def list_all_iff)
  moreover have "up \<in> set [''skip'', ''run''] \<and> n = 1"
    using exe unfolding load_execution_def Let_def
    by (auto simp only: res_bind_eq_Inr raise_if_eq_Inr sum.inject prod.inject not_not)
  ultimately show ?thesis using order by (simp only: spec chain_spec.simps simp_thms)
qed

section \<open>The execution order\<close>

definition before :: "'a list \<Rightarrow> 'a \<Rightarrow> 'a \<Rightarrow> bool" where
  "before xs a b = (\<exists>i j. i < j \<and> j < length xs \<and> xs ! i = a \<and> xs ! j = b)"

lemma graph_keys: "dict_keys (dependency_graph nodes) = map an_id nodes"
  by (simp add: dependency_graph_def dict_keys_def comp_def)

lemma graph_deps:
  assumes "distinct (map an_id nodes)" and "n \<in> set nodes"
  shows "set (deps_of (dependency_graph nodes) (an_id n)) = set (upstream_ids n)"
proof -
  have "map_of (dependency_graph nodes) (an_id n) = Some (dict_fromkeys (upstream_ids n))"
    using assms by (intro map_of_is_SomeI) (auto simp: dependency_graph_def comp_def)
  then show ?thesis by (simp add: deps_of_def)
qed

lemma graph_closed: "nodes_wf nodes \<Longrightarrow> closed_graph (dependency_graph nodes)"
proof -
  assume wf: "nodes_wf nodes"
  then have "distinct (map fst (dependency_graph nodes))"
    by (simp add: nodes_wf_def dependency_graph_def comp_def)
  moreover have "set (snd p) \<subseteq> set (map an_id nodes)" if "p \<in> set (dependency_graph nodes)" for p
    using wf that unfolding nodes_wf_def list_all_iff dependency_graph_def by force
  ultimately show ?thesis by (simp only: closed_graph_def dict_wf_def graph_keys list_all_iff) blast
qed

lemma graph_dep_rel: "nodes_wf nodes \<Longrightarrow> dep_rel (dependency_graph nodes) = depends_on nodes"
  by (auto simp: dep_rel_def depends_on_def graph_keys nodes_wf_def graph_deps)

lemma graph_length: "length (dependency_graph nodes) = length nodes"
  by (simp add: dependency_graph_def)

lemma topological_order_Inr:
  assumes "nodes_wf nodes" and "topological_order nodes = Inr order"
  shows "mset order = mset (map an_id nodes) \<and> (\<forall>(u, i)\<in>depends_on nodes. before order u i)"
proof
  let ?g = "dependency_graph nodes"
  have order: "order = stable_topological_sort (position nodes) False ?g" and len: "length order = length nodes"
    using assms(2) by (auto simp: topological_order_def Let_def raise_if_eq_Inr)
  have wf: "dict_wf ?g" using graph_closed [OF assms(1)] by (simp add: closed_graph_def)
  show perm: "mset order = mset (map an_id nodes)"
    using topo.complete_order [OF wf, of "position nodes" False] len
    by (simp only: order [symmetric] graph_length graph_keys)
  show "\<forall>(u, i)\<in>depends_on nodes. before order u i"
  proof safe
    fix u i assume ui: "(u, i) \<in> depends_on nodes"
    then have "i \<in> set order" using mset_eq_setD [OF perm] by (auto simp: depends_on_def)
    then obtain j where j: "j < length order" "order ! j = i" by (auto simp: in_set_conv_nth)
    have "u \<in> set (deps_of ?g i)" using ui assms(1) by (auto simp: depends_on_def nodes_wf_def graph_deps)
    with j obtain k where "k < j" "order ! k = u"
      using in_order_before [OF topo.order_in_order [OF wf, of "position nodes" False], of j u] by (auto simp: order)
    with j show "before order u i" by (auto simp: before_def)
  qed
qed

lemma load_asset_chain_order:
  assumes "load_asset_chain files doc = Inr spec"
  shows "distinct (cs_order spec) \<and> mset (cs_order spec) = mset (map an_id (cs_assets spec)) \<and>
    (\<forall>(u, i)\<in>depends_on (cs_assets spec). u \<noteq> i \<and> before (cs_order spec) u i) \<and>
    cs_unchanged_policy spec \<in> set [''skip'', ''run'']"
proof -
  note ld = load_asset_chain_Inr [OF assms]
  then have top: "topological_order (cs_assets spec) = Inr (cs_order spec)" and wf: "nodes_wf (cs_assets spec)"
    by (blast, blast)
  note ord = topological_order_Inr [OF wf top]
  then have dist: "distinct (cs_order spec)"
    using wf mset_eq_imp_distinct_iff unfolding nodes_wf_def by metis
  moreover have "u \<noteq> i" if "before (cs_order spec) u i" for u i
    using that dist by (auto simp: before_def nth_eq_iff_index_eq)
  ultimately show ?thesis using ord ld by blast
qed

lemma chain_order_cyclic:
  assumes "nodes_wf nodes"
  shows "topological_order nodes = Inl (ValidationError ''asset_chain.cycle'') \<longleftrightarrow> \<not> acyclic (depends_on nodes)"
  using topo.complete_iff_acyclic [OF graph_closed [OF assms], of "position nodes" False]
  by (auto simp: topological_order_def Let_def raise_if_def graph_length graph_dep_rel [OF assms])

text \<open>
  C20: A chain that loads runs every asset exactly once and each after all of its upstream assets;
  its asset identifiers are unique, every upstream is an asset of the chain and the unchanged
  policy is one of the two supported ones.
\<close>

theorem loaded_chain_order:
  assumes "load_asset_chain files doc = Inr spec"
  shows "distinct (cs_order spec) \<and> mset (cs_order spec) = mset (map an_id (cs_assets spec)) \<and>
    (\<forall>(u, i)\<in>depends_on (cs_assets spec). u \<noteq> i \<and> before (cs_order spec) u i) \<and>
    cs_unchanged_policy spec \<in> set [''skip'', ''run'']"
  using assms by (rule load_asset_chain_order)

text \<open>
  C21: The order of a chain with distinct identifiers and known upstreams is refused as cyclic
  exactly when the upstream relation has a cycle.
\<close>

theorem chain_cycle_iff:
  assumes "nodes_wf nodes"
  shows "topological_order nodes = Inl (ValidationError ''asset_chain.cycle'') \<longleftrightarrow> \<not> acyclic (depends_on nodes)"
  using assms by (rule chain_order_cyclic)

section \<open>Running\<close>

definition bad :: "asset_status set" where
  "bad = {Failed, Blocked}"

lemma plain_result_ok [simp]: "ar_ok (plain_result n fp st) = (st \<notin> bad)"
  "ar_id (plain_result n fp st) = an_id n" "ar_status (plain_result n fp st) = st"
  "ar_input_fingerprint (plain_result n fp st) = fp"
  by (cases st) (simp_all add: plain_result_def bad_def)

lemma execute_asset_result:
  assumes "execute_asset wld node fp w = (r, w')"
  shows "ar_id r = an_id node \<and> ar_status r \<in> {Executed, Failed} \<and> ar_ok r = (ar_status r \<notin> bad)"
proof -
  have "ar_id r' = an_id node \<and> ar_status r' \<in> {Executed, Failed} \<and> ar_ok r' = (ar_status r' \<notin> bad)"
    if "executed_result wld node fp payload v = Inr r'" for payload v r'
    using that unfolding executed_result_def Let_def
    by (auto simp: res_bind_eq_Inr bad_def split: if_splits)
  then show ?thesis
    using assms unfolding execute_asset_def
    by (auto simp: res_bind_eq_Inr bad_def split: prod.splits sum.splits)
qed

definition blocked_now :: "asset_node \<Rightarrow> (string \<times> asset_result) list \<Rightarrow> bool" where
  "blocked_now node completed =
     (\<exists>u\<in>set (upstream_ids node). \<exists>r. map_of completed u = Some r \<and> ar_status r \<in> bad)"

lemma blocked_by_Inr:
  assumes "blocked_by node completed = Inr us"
  shows "us \<noteq> [] \<longleftrightarrow> blocked_now node completed"
proof -
  from assms obtain ps where ps: "res_map (\<lambda>u. case map_of completed u of
           None \<Rightarrow> Inl (KeyError u) | Some r \<Rightarrow> Inr (u, ar_status r)) (upstream_ids node) = Inr ps"
    and us: "us = map fst (filter (\<lambda>(u, st). st \<in> bad) ps)"
    by (auto simp: blocked_by_def res_bind_eq_Inr bad_def)
  have "(\<exists>p\<in>set ps. snd p \<in> bad) \<longleftrightarrow> blocked_now node completed"
  proof
    assume "\<exists>p\<in>set ps. snd p \<in> bad"
    then obtain p where p: "p \<in> set ps" "snd p \<in> bad" by blast
    from res_map_output [OF ps p(1)] p(2) show "blocked_now node completed"
      unfolding blocked_now_def by (force split: option.splits)
  next
    assume "blocked_now node completed"
    then obtain u r where u: "u \<in> set (upstream_ids node)" "map_of completed u = Some r" "ar_status r \<in> bad"
      by (auto simp: blocked_now_def)
    from res_map_input [OF ps u(1)] u(2) have "(u, ar_status r) \<in> set ps" by auto
    with u(3) show "\<exists>p\<in>set ps. snd p \<in> bad" by (intro bexI [of _ "(u, ar_status r)"]) simp_all
  qed
  moreover have "us \<noteq> [] \<longleftrightarrow> (\<exists>p\<in>set ps. snd p \<in> bad)" by (force simp: us filter_empty_conv)
  ultimately show ?thesis by blast
qed

lemma run_asset_Inr:
  assumes "run_asset wld policy previous node s = Inr (r, w')"
  shows "ar_id r = an_id node \<and> ar_ok r = (ar_status r \<notin> bad) \<and>
    (ar_status r = Blocked \<longleftrightarrow> blocked_now node (ch_completed s))"
proof -
  from assms obtain us fp where us: "blocked_by node (ch_completed s) = Inr us"
    and rest: "(if us \<noteq> []
        then Inr ((plain_result node fp Blocked)
                    \<lparr>ar_blocked_by := us, ar_error_type := Some ''UpstreamAssetFailure''\<rparr>, ch_world s)
        else res_bind (can_reuse wld node fp (map_of previous (an_id node)) policy (ch_world s)) (\<lambda>reuse.
               if reuse
               then res_bind (reused_result node fp (the (map_of previous (an_id node)))) (\<lambda>r. Inr (r, ch_world s))
               else Inr (execute_asset wld node fp (ch_world s)))) = Inr (r, w')"
    unfolding run_asset_def Let_def res_bind_eq_Inr by blast
  show ?thesis
  proof (cases "us = []")
    case False
    with rest have "r = (plain_result node fp Blocked)
        \<lparr>ar_blocked_by := us, ar_error_type := Some ''UpstreamAssetFailure''\<rparr>" by simp
    with False blocked_by_Inr [OF us] show ?thesis by (simp add: bad_def)
  next
    case True
    then consider fp' prior where "reused_result node fp' prior = Inr r"
      | "execute_asset wld node fp (ch_world s) = (r, w')"
      using rest by (auto simp: res_bind_eq_Inr split: if_splits)
    then have "ar_id r = an_id node \<and> ar_ok r = (ar_status r \<notin> bad) \<and> ar_status r \<noteq> Blocked"
    proof cases
      case 1
      then show ?thesis by (auto simp: reused_result_def res_bind_eq_Inr bad_def)
    next
      case 2
      from execute_asset_result [OF this] show ?thesis by auto
    qed
    with True blocked_by_Inr [OF us] show ?thesis by blast
  qed
qed

text \<open>The invariant of the loop: what each completed asset's result says about its upstreams.\<close>

definition node_of :: "chain_spec \<Rightarrow> string \<Rightarrow> asset_node option" where
  "node_of spec i = map_of (map (\<lambda>n. (an_id n, n)) (cs_assets spec)) i"

definition result_ok :: "chain_spec \<Rightarrow> (string \<times> asset_result) list \<Rightarrow> string \<Rightarrow> asset_result \<Rightarrow> bool" where
  "result_ok spec completed i r =
     (ar_id r = i \<and> ar_ok r = (ar_status r \<notin> bad) \<and>
      (\<exists>node. node_of spec i = Some node \<and> (ar_status r = Blocked \<longleftrightarrow> blocked_now node completed)))"

definition run_inv :: "chain_spec \<Rightarrow> string list \<Rightarrow> (string \<times> asset_result) list \<Rightarrow> bool" where
  "run_inv spec ids completed =
     (map fst completed = ids \<and> list_all (\<lambda>(i, r). result_ok spec completed i r) completed)"

text \<open>Results of later assets do not change what earlier ones were decided on.\<close>

lemma blocked_now_mono:
  assumes "\<And>u. u \<in> set (upstream_ids node) \<Longrightarrow> u \<in> fst ` set completed" and "i \<notin> fst ` set completed"
  shows "blocked_now node (completed @ [(i, r)]) = blocked_now node completed"
proof -
  have "map_of (completed @ [(i, r)]) u = map_of completed u" if "u \<in> set (upstream_ids node)" for u
  proof -
    have "map_of completed u \<noteq> None" using assms(1) [OF that] by (simp add: map_of_eq_None_iff)
    then show ?thesis by (auto simp: map_add_def)
  qed
  then show ?thesis by (simp add: blocked_now_def)
qed

lemma chain_step_inv:
  assumes "chain_step wld spec previous i s = Inr s'" and inv: "run_inv spec ids (ch_completed s)"
    and new: "i \<notin> set ids"
    and ups: "\<And>j node. j \<in> set (ids @ [i]) \<Longrightarrow> node_of spec j = Some node \<Longrightarrow>
      set (upstream_ids node) \<subseteq> set (takeWhile (\<lambda>k. k \<noteq> j) (ids @ [i]))"
  shows "run_inv spec (ids @ [i]) (ch_completed s')"
proof -
  let ?c = "ch_completed s"
  from assms(1) obtain node r w where node: "node_of spec i = Some node"
    and run: "run_asset wld (cs_unchanged_policy spec) previous node s = Inr (r, w)"
    and s': "ch_completed s' = ?c @ [(i, r)]"
    unfolding chain_step_def node_of_def by (auto simp: res_bind_eq_Inr split: option.splits)
  have ids: "map fst ?c = ids" and old: "\<And>j q. (j, q) \<in> set ?c \<Longrightarrow> result_ok spec ?c j q"
    using inv by (auto simp: run_inv_def list_all_iff)
  have fresh: "i \<notin> fst ` set ?c" using new ids by (metis set_map)
  have same: "blocked_now n (?c @ [(i, r)]) = blocked_now n ?c" if "j \<in> set (ids @ [i])" "node_of spec j = Some n" for j n
  proof (rule blocked_now_mono [OF _ fresh])
    fix u assume u: "u \<in> set (upstream_ids n)"
    have "set (takeWhile (\<lambda>k. k \<noteq> j) (ids @ [i])) \<subseteq> set ids"
      using that(1) new by (cases "j \<in> set ids") (auto simp: takeWhile_append dest: set_takeWhileD)
    with u ups [OF that] show "u \<in> fst ` set ?c" using ids by (metis in_mono set_map)
  qed
  have "an_id node = i" using node by (auto simp: node_of_def dest!: map_of_SomeD)
  then have new_ok: "result_ok spec (?c @ [(i, r)]) i r"
    using run_asset_Inr [OF run] node same [OF _ node] by (simp add: result_ok_def)
  have "result_ok spec (?c @ [(i, r)]) j q" if "(j, q) \<in> set ?c" for j q
  proof -
    have "j \<in> set ids" using that ids by (metis set_map fst_conv image_eqI)
    then show ?thesis using old [OF that] same [of j] by (auto simp: result_ok_def)
  qed
  with new_ok ids show ?thesis by (auto simp: run_inv_def s' list_all_iff)
qed

section \<open>The whole run\<close>

lemma before_takeWhile:
  assumes "before xs u j"
  shows "distinct xs \<Longrightarrow> u \<in> set (takeWhile (\<lambda>k. k \<noteq> j) xs)"
proof -
  assume dist: "distinct xs"
  from assms obtain a b where ab: "a < b" "b < length xs" "xs ! a = u" "xs ! b = j" by (auto simp: before_def)
  have "j \<notin> set (take b xs)"
    using dist ab by (auto simp: in_set_conv_nth nth_eq_iff_index_eq)
  then have "takeWhile (\<lambda>k. k \<noteq> j) (take b xs @ drop b xs) = take b xs @ takeWhile (\<lambda>k. k \<noteq> j) (drop b xs)"
    by (intro takeWhile_append2) auto
  moreover have "u \<in> set (take b xs)" using ab by (auto simp: in_set_conv_nth)
  ultimately show ?thesis by simp
qed

lemma node_of_Some: "node_of spec i = Some node \<Longrightarrow> node \<in> set (cs_assets spec) \<and> an_id node = i"
  by (auto simp: node_of_def dest!: map_of_SomeD)

lemma upstreams_before:
  assumes "load_asset_chain files doc = Inr spec" and "cs_order spec = xs @ ys" and "j \<in> set xs"
    and "node_of spec j = Some node"
  shows "set (upstream_ids node) \<subseteq> set (takeWhile (\<lambda>k. k \<noteq> j) xs)"
proof
  fix u assume "u \<in> set (upstream_ids node)"
  then have "(u, j) \<in> depends_on (cs_assets spec)" using node_of_Some [OF assms(4)] by (auto simp: depends_on_def)
  with load_asset_chain_order [OF assms(1)] have "distinct (cs_order spec)" "before (cs_order spec) u j" by blast+
  then have "u \<in> set (takeWhile (\<lambda>k. k \<noteq> j) (xs @ ys))" using before_takeWhile assms(2) by metis
  then show "u \<in> set (takeWhile (\<lambda>k. k \<noteq> j) xs)" using assms(3) by (simp add: takeWhile_append1)
qed

lemma run_fold_inv:
  assumes ld: "load_asset_chain files doc = Inr spec"
    and "res_fold (chain_step wld spec previous) ys s = Inr s'" and "cs_order spec = xs @ ys"
    and "run_inv spec xs (ch_completed s)"
  shows "run_inv spec (cs_order spec) (ch_completed s')"
  using assms(2-4)
proof (induction ys arbitrary: xs s)
  case (Cons y ys)
  from Cons.prems(1) obtain t where step: "chain_step wld spec previous y s = Inr t"
    and more: "res_fold (chain_step wld spec previous) ys t = Inr s'" by (auto simp: res_bind_eq_Inr)
  have order: "cs_order spec = (xs @ [y]) @ ys" using Cons.prems(2) by simp
  have "y \<notin> set xs" using load_asset_chain_order [OF ld] Cons.prems(2) by auto
  from chain_step_inv [OF step Cons.prems(3) this upstreams_before [OF ld order]]
  show ?case by (rule Cons.IH [OF more order])
qed simp

definition edges :: "chain_spec \<Rightarrow> (string \<times> string) set" where
  "edges spec = depends_on (cs_assets spec)"

lemma edges_wf:
  assumes "load_asset_chain files doc = Inr spec"
  shows "wf (edges spec)"
proof (rule finite_acyclic_wf)
  note ld = load_asset_chain_Inr [OF assms]
  have "edges spec \<subseteq> (\<lambda>(u, n). (u, an_id n)) ` (SIGMA n : set (cs_assets spec). set (upstream_ids n))\<inverse>"
    by (force simp: edges_def depends_on_def)
  then show "finite (edges spec)" by (rule finite_subset) (simp add: finite_SigmaI)
  show "acyclic (edges spec)"
    using chain_order_cyclic [of "cs_assets spec"] ld by (auto simp: edges_def)
qed

definition statuses :: "chain_result \<Rightarrow> string \<Rightarrow> asset_status option" where
  "statuses res i = map_of (map (\<lambda>r. (ar_id r, ar_status r)) (cr_assets res)) i"

lemma statuses_completed:
  assumes "run_inv spec xs completed" and "cr_assets res = map snd completed"
  shows "statuses res i = map_option ar_status (map_of completed i)" and "map ar_id (cr_assets res) = xs"
proof -
  have ids: "ar_id (snd p) = fst p" if "p \<in> set completed" for p
    using assms(1) that by (auto simp: run_inv_def list_all_iff result_ok_def)
  then have "map (\<lambda>r. (ar_id r, ar_status r)) (cr_assets res) = map (\<lambda>(k, r). (k, ar_status r)) completed"
    by (auto simp: assms(2))
  then show "statuses res i = map_option ar_status (map_of completed i)"
    by (simp add: statuses_def map_of_map)
  have "map ar_id (cr_assets res) = map fst completed" using ids by (simp add: assms(2))
  with assms(1) show "map ar_id (cr_assets res) = xs" by (simp add: run_inv_def)
qed

lemma edges_of_node:
  assumes "load_asset_chain files doc = Inr spec" and "node_of spec i = Some node"
  shows "(u, i) \<in> edges spec \<longleftrightarrow> u \<in> set (upstream_ids node)"
proof -
  have "distinct (map an_id (cs_assets spec))"
    using load_asset_chain_Inr [OF assms(1)] by (simp add: nodes_wf_def)
  then have "n = node" if "n \<in> set (cs_assets spec)" "an_id n = i" for n
    using that node_of_Some [OF assms(2)] by (auto simp: distinct_map inj_on_def)
  with node_of_Some [OF assms(2)] show ?thesis by (auto simp: edges_def depends_on_def)
qed

lemma blocked_rule:
  assumes ld: "load_asset_chain files doc = Inr spec" and inv: "run_inv spec xs completed"
    and res: "cr_assets res = map snd completed" and i: "statuses res i = Some st"
  shows "st = Blocked \<longleftrightarrow> (\<exists>u. (u, i) \<in> edges spec \<and> (\<exists>st'\<in>bad. statuses res u = Some st'))"
proof -
  from i obtain r where r: "map_of completed i = Some r" "ar_status r = st"
    by (auto simp: statuses_completed [OF inv res])
  then have "result_ok spec completed i r" using inv by (auto simp: run_inv_def list_all_iff dest!: map_of_SomeD)
  then obtain node where node: "node_of spec i = Some node"
    and "st = Blocked \<longleftrightarrow> blocked_now node completed" using r(2) by (auto simp: result_ok_def)
  then show ?thesis
    by (auto simp: blocked_now_def edges_of_node [OF ld node] statuses_completed [OF inv res])
qed

lemma run_asset_chain_inv:
  assumes "load_asset_chain files doc = Inr spec" and "run_asset_chain wld spec previous w = Inr (res, w')"
  obtains completed where "run_inv spec (cs_order spec) completed" "cr_assets res = map snd completed"
    "cr_ok res = list_all ar_ok (cr_assets res)"
proof -
  from assms(2) obtain s where s: "res_fold (chain_step wld spec previous) (cs_order spec)
      \<lparr>ch_completed = [], ch_world = w\<rparr> = Inr s"
    and res: "res = \<lparr>cr_ok = list_all ar_ok (map snd (ch_completed s)), cr_assets = map snd (ch_completed s)\<rparr>"
    by (auto simp: run_asset_chain_def Let_def res_bind_eq_Inr)
  have "run_inv spec (cs_order spec) (ch_completed s)"
    by (rule run_fold_inv [OF assms(1) s, of "[]"]) (simp_all add: run_inv_def)
  with res show ?thesis by (intro that) simp_all
qed

text \<open>
  C17: A run of a loaded chain reports every asset once, in the execution order. An asset is blocked
  exactly when some asset it depends on, directly or not, failed; and the chain is ok exactly when
  no asset failed or was blocked.
\<close>

theorem run_blocks_downstream:
  assumes "load_asset_chain files doc = Inr spec" and "run_asset_chain wld spec previous w = Inr (res, w')"
  shows "map ar_id (cr_assets res) = cs_order spec \<and>
    (cr_ok res \<longleftrightarrow> list_all (\<lambda>r. ar_status r \<in> {Executed, Reused}) (cr_assets res)) \<and>
    (\<forall>i st. statuses res i = Some st \<longrightarrow>
       (st = Blocked \<longleftrightarrow> (\<exists>a. statuses res a = Some Failed \<and> (a, i) \<in> (edges spec)\<^sup>+)))"
proof -
  from assms obtain completed where inv: "run_inv spec (cs_order spec) completed"
    and res: "cr_assets res = map snd completed" and ok: "cr_ok res = list_all ar_ok (cr_assets res)"
    by (rule run_asset_chain_inv)
  note rule = blocked_rule [OF assms(1) inv res]
  have known: "\<exists>st. statuses res i = Some st" if "(u, i) \<in> edges spec" for u i
  proof -
    have "i \<in> set (map an_id (cs_assets spec))" using that by (auto simp: edges_def depends_on_def)
    then have "i \<in> set (cs_order spec)" using load_asset_chain_order [OF assms(1)] by (metis mset_eq_setD)
    then have "i \<in> fst ` set completed" using inv by (metis run_inv_def set_map)
    then have "map_of completed i \<noteq> None" by (simp add: map_of_eq_None_iff)
    then show ?thesis by (auto simp: statuses_completed [OF inv res])
  qed
  have up: "\<exists>a. statuses res a = Some Failed \<and> (a, i) \<in> (edges spec)\<^sup>+" if "statuses res i = Some Blocked" for i
    using that
  proof (induction i rule: wf_induct_rule [OF edges_wf [OF assms(1)]])
    case (1 i)
    from rule [OF 1(2)] obtain u st' where u: "(u, i) \<in> edges spec" "st' \<in> bad" "statuses res u = Some st'" by auto
    then consider "statuses res u = Some Failed" | "statuses res u = Some Blocked" by (auto simp: bad_def)
    then show ?case
    proof cases
      case 1
      with u(1) show ?thesis by blast
    next
      case 2
      with "1.IH" [OF u(1)] u(1) show ?thesis by (meson trancl_into_trancl)
    qed
  qed
  have down: "statuses res i = Some Blocked" if "(a, i) \<in> (edges spec)\<^sup>+" "statuses res a = Some Failed" for a i
    using that(1)
  proof (induction rule: trancl_induct)
    case (base i)
    then obtain st where "statuses res i = Some st" using known by blast
    with rule [OF this] base that(2) show ?case by (auto simp: bad_def)
  next
    case (step i j)
    then obtain st where "statuses res j = Some st" using known by blast
    with rule [OF this] step show ?case by (auto simp: bad_def)
  qed
  have all_ok: "cr_ok res \<longleftrightarrow> list_all (\<lambda>r. ar_status r \<in> {Executed, Reused}) (cr_assets res)"
  proof -
    have "ar_ok r = (ar_status r \<in> {Executed, Reused})" if "r \<in> set (cr_assets res)" for r
    proof -
      from that obtain i where "(i, r) \<in> set completed" by (auto simp: res)
      moreover have "list_all (\<lambda>(i, r). result_ok spec completed i r) completed"
        using inv by (simp only: run_inv_def)
      ultimately have "result_ok spec completed i r" by (auto simp only: list_all_iff)
      then have "ar_ok r = (ar_status r \<notin> bad)" by (simp only: result_ok_def)
      then show ?thesis by (cases "ar_status r") (simp_all add: bad_def)
    qed
    then show ?thesis by (simp add: ok list_all_iff)
  qed
  show ?thesis
  proof (intro conjI allI impI)
    fix i st assume st: "statuses res i = Some st"
    show "(st = Blocked) = (\<exists>a. statuses res a = Some Failed \<and> (a, i) \<in> (edges spec)\<^sup>+)"
    proof
      assume "st = Blocked" with st show "\<exists>a. statuses res a = Some Failed \<and> (a, i) \<in> (edges spec)\<^sup>+"
        by (intro up) simp
    next
      assume "\<exists>a. statuses res a = Some Failed \<and> (a, i) \<in> (edges spec)\<^sup>+"
      with down [of _ i] st show "st = Blocked" by fastforce
    qed
  qed (rule statuses_completed(2) [OF inv res], rule all_ok)
qed

section \<open>A run always finishes\<close>

definition priors_ok :: "(string \<times> pydict) list \<Rightarrow> bool" where
  "priors_ok previous = list_all (\<lambda>(i, d). \<not> isl (path_list (get_key d ''output_paths''))) previous"

lemma not_isl_Inr: "\<not> isl m \<longleftrightarrow> (\<exists>x. m = Inr x)"
  by (cases m) auto

lemma priors_ok_lookup:
  "priors_ok previous \<Longrightarrow> map_of previous i = Some d \<Longrightarrow> \<exists>ps. path_list (get_key d ''output_paths'') = Inr ps"
  unfolding priors_ok_def list_all_iff not_isl_Inr by (drule map_of_SomeD) fastforce

lemma can_reuse_total:
  assumes "priors_ok previous"
  shows "\<exists>b. can_reuse wld node fp (map_of previous i) policy w = Inr b"
proof (cases "map_of previous i")
  case (Some d)
  with priors_ok_lookup [OF assms this] show ?thesis by (auto simp: can_reuse_def)
next
  case None
  then have "can_reuse wld node fp (map_of previous i) policy w = Inr False" by (simp add: can_reuse_def)
  then show ?thesis by blast
qed

lemma can_reuse_prior:
  "can_reuse wld node fp previous policy w = Inr True \<Longrightarrow> \<exists>prior. previous = Some prior"
  by (cases previous) (auto simp: can_reuse_def)

lemma run_asset_total:
  assumes "set (upstream_ids node) \<subseteq> fst ` set (ch_completed s)" and "priors_ok previous"
  shows "\<exists>r w'. run_asset wld policy previous node s = Inr (r, w')"
proof -
  let ?c = "ch_completed s" and ?w = "ch_world s"
  have known: "\<exists>r. map_of ?c u = Some r" if "u \<in> set (upstream_ids node)" for u
    using assms(1) that by (metis map_of_eq_None_iff not_None_eq subset_iff)
  have "\<exists>ys. res_map (\<lambda>u. case map_of ?c u of
           None \<Rightarrow> Inl (KeyError u) | Some r \<Rightarrow> Inr (u, ar_status r)) (upstream_ids node) = Inr ys"
    by (rule res_map_total) (use known in fastforce)
  then obtain us where us: "blocked_by node ?c = Inr us" by (auto simp: blocked_by_def)
  have "\<exists>ys. upstream_receipts node ?c = Inr ys"
    unfolding upstream_receipts_def
  proof (rule res_map_total)
    fix x assume "x \<in> set (sort_key fst (an_inputs node))"
    then have "snd x \<in> set (upstream_ids node)" by (simp add: upstream_ids_def)
    with known obtain r where "map_of ?c (snd x) = Some r" by blast
    then show "\<exists>y. (case x of (port, upstream) \<Rightarrow> case map_of ?c upstream of
        None \<Rightarrow> Inl (KeyError upstream) | Some r \<Rightarrow> Inr (port, opt_str (ar_receipt r))) = Inr y"
      by (simp add: case_prod_beta)
  qed
  then obtain fp where fp: "input_fingerprint wld node ?c ?w = Inr fp" by (auto simp: input_fingerprint_def)
  obtain b where b: "can_reuse wld node fp (map_of previous (an_id node)) policy ?w = Inr b"
    using can_reuse_total [OF assms(2), of wld node fp "an_id node" policy ?w] by (elim exE)
  have "\<exists>r. reused_result node fp (the (map_of previous (an_id node))) = Inr r" if b
  proof -
    from b that have "can_reuse wld node fp (map_of previous (an_id node)) policy ?w = Inr True" by simp
    from can_reuse_prior [OF this] obtain d where "map_of previous (an_id node) = Some d" by (elim exE)
    with priors_ok_lookup [OF assms(2) this] show ?thesis by (auto simp: reused_result_def)
  qed
  then show ?thesis
    by (cases "us = []"; cases b; cases "execute_asset wld node fp ?w") (auto simp: run_asset_def Let_def us fp b)
qed

lemma run_fold_total:
  assumes ld: "load_asset_chain files doc = Inr spec" and pr: "priors_ok previous"
    and "cs_order spec = xs @ ys" and "run_inv spec xs (ch_completed s)"
  shows "\<exists>s'. res_fold (chain_step wld spec previous) ys s = Inr s'"
  using assms(3,4)
proof (induction ys arbitrary: xs s)
  case (Cons y ys)
  have order: "cs_order spec = (xs @ [y]) @ ys" using Cons.prems(1) by simp
  have "y \<in> set (map an_id (cs_assets spec))"
  proof -
    have "set (cs_order spec) = set (map an_id (cs_assets spec))"
      using load_asset_chain_order [OF ld] by (blast dest: mset_eq_setD)
    with Cons.prems(1) show ?thesis by auto
  qed
  then have "node_of spec y \<noteq> None" 
    unfolding node_of_def map_of_eq_None_iff by (simp add: image_image)
  then obtain node where node: "node_of spec y = Some node" by blast
  have new: "y \<notin> set xs" using load_asset_chain_order [OF ld] Cons.prems(1) by auto
  have "set (upstream_ids node) \<subseteq> set (takeWhile (\<lambda>k. k \<noteq> y) (xs @ [y]))"
    by (rule upstreams_before [OF ld order _ node]) simp
  also have "\<dots> \<subseteq> set xs" using new by (auto simp: takeWhile_append dest: set_takeWhileD)
  also have "set xs = fst ` set (ch_completed s)" using Cons.prems(2) by (metis run_inv_def set_map)
  finally obtain r w where run: "run_asset wld (cs_unchanged_policy spec) previous node s = Inr (r, w)"
    using run_asset_total [OF _ pr] by blast
  then obtain t where step: "chain_step wld spec previous y s = Inr t"
    using node by (auto simp: chain_step_def node_of_def)
  from chain_step_inv [OF step Cons.prems(2) new upstreams_before [OF ld order]]
  have "run_inv spec (xs @ [y]) (ch_completed t)" .
  from Cons.IH [OF order this] step show ?case by simp
qed simp


text \<open>
  C18: An asset is reused only under the skip policy, when it has inputs and its previous entry was
  a success with the same input fingerprint, whose outputs all still exist and whose receipt,
  computed again on the files as they are, is the recorded one; nothing is executed for it.
\<close>

theorem reuse_is_current:
  assumes "run_asset wld policy previous node s = Inr (r, w')" and "ar_status r = Reused"
  shows "w' = ch_world s \<and> policy = ''skip'' \<and> an_inputs node \<noteq> [] \<and>
    (\<exists>prior. map_of previous (an_id node) = Some prior \<and>
       get_key prior ''input_fingerprint'' = VStr (ar_input_fingerprint r) \<and>
       get_key prior ''status'' \<in> set reusable_statuses \<and>
       ar_receipt r = Some (receipt_fingerprint wld node (ar_input_fingerprint r) (ar_output_paths r)
         (ar_metadata_path r) (ch_world s)) \<and>
       ar_output_paths r \<noteq> [] \<and> list_all (\<lambda>p. w_exists wld p (ch_world s)) (ar_output_paths r))"
proof -
  from assms(1) obtain us fp where us: "blocked_by node (ch_completed s) = Inr us"
    and rest: "(if us \<noteq> []
        then Inr ((plain_result node fp Blocked)
                    \<lparr>ar_blocked_by := us, ar_error_type := Some ''UpstreamAssetFailure''\<rparr>, ch_world s)
        else res_bind (can_reuse wld node fp (map_of previous (an_id node)) policy (ch_world s)) (\<lambda>reuse.
               if reuse
               then res_bind (reused_result node fp (the (map_of previous (an_id node)))) (\<lambda>r. Inr (r, ch_world s))
               else Inr (execute_asset wld node fp (ch_world s)))) = Inr (r, w')"
    unfolding run_asset_def Let_def res_bind_eq_Inr by blast
  have "us = []" using rest assms(2) by (auto split: if_splits)
  with rest obtain reuse where reuse: "can_reuse wld node fp (map_of previous (an_id node)) policy (ch_world s) = Inr reuse"
    and next_step: "(if reuse then res_bind (reused_result node fp (the (map_of previous (an_id node)))) (\<lambda>r. Inr (r, ch_world s))
               else Inr (execute_asset wld node fp (ch_world s))) = Inr (r, w')"
    by (auto simp: res_bind_eq_Inr)
  have reuse_now: "reuse"
  proof (rule ccontr)
    assume "\<not> reuse"
    with next_step have "execute_asset wld node fp (ch_world s) = (r, w')" by simp
    from execute_asset_result [OF this] assms(2) show False by auto
  qed
  with reuse have "can_reuse wld node fp (map_of previous (an_id node)) policy (ch_world s) = Inr True" by simp
  from can_reuse_prior [OF this] obtain prior where prior: "map_of previous (an_id node) = Some prior"
    by (elim exE)
  from next_step reuse_now prior have rr: "reused_result node fp prior = Inr r" and w': "w' = ch_world s"
    by (auto simp: res_bind_eq_Inr)
  from rr obtain outputs where out: "path_list (get_key prior ''output_paths'') = Inr outputs"
    and r: "r = (plain_result node fp Reused)
              \<lparr>ar_receipt := Some (py_str (get_key prior ''receipt_fingerprint'')),
               ar_output_paths := outputs,
               ar_metadata_path := optional_path (get_key prior ''metadata_path'')\<rparr>"
    by (auto simp: reused_result_def res_bind_eq_Inr)
  from reuse reuse_now prior out have c: "policy = ''skip''" "an_inputs node \<noteq> []"
    "get_key prior ''input_fingerprint'' = VStr fp" "get_key prior ''status'' \<in> set reusable_statuses"
    "outputs \<noteq> []" "list_all (\<lambda>p. w_exists wld p (ch_world s)) outputs"
    "get_key prior ''receipt_fingerprint'' = VStr (receipt_fingerprint wld node fp outputs
       (optional_path (get_key prior ''metadata_path'')) (ch_world s))"
    unfolding can_reuse_def by (auto split: if_splits)
  show ?thesis
    by (intro conjI exI [of _ prior]) (simp_all add: w' r c prior)
qed

section \<open>A concrete chain\<close>

definition sample_definition :: "string \<Rightarrow> string \<Rightarrow> pyval" where
  "sample_definition code schema =
     VDict [(''yaml'', VDict [(''schema_version'', VStr schema), (''asset_code'', VStr code)])]"

definition sample_files :: definition_files where
  "sample_files = \<lparr>df_resolve = id, df_document = map_of
     [(''raw.yaml'', sample_definition ''0101'' ''smoking-data.source.v5''),
      (''fact.yaml'', sample_definition ''0102'' ''smoking-data.calculated-fact.v4''),
      (''view.yaml'', sample_definition ''0201'' ''smoking-data.pipeline.v7'')]\<rparr>"

definition sample_asset :: "string \<Rightarrow> string \<Rightarrow> pydict \<Rightarrow> pyval" where
  "sample_asset i code inputs =
     VDict [(''id'', VStr i), (''asset_code'', VStr code), (''definition'', VStr (i @ ''.yaml'')),
            (''inputs'', VDict inputs)]"

definition sample_chain :: pyval where
  "sample_chain =
     VDict [(''yaml'', VDict [(''schema_version'', VStr ASSET_CHAIN_SCHEMA_VERSION)]),
            (''chain'', VDict [(''name'', VStr ''daily'')]),
            (''assets'', VList [sample_asset ''view'' ''0201'' [(''left'', VStr ''fact'')],
               sample_asset ''fact'' ''0102'' [(''base'', VStr ''raw'')], sample_asset ''raw'' ''0101'' []])]"

definition sample_spec :: chain_spec where
  "sample_spec =
     \<lparr>cs_name = ''daily'',
      cs_assets = [\<lparr>an_id = ''view'', an_code = ''0201'', an_definition = ''view.yaml'', an_inputs = [(''left'', ''fact'')]\<rparr>,
        \<lparr>an_id = ''fact'', an_code = ''0102'', an_definition = ''fact.yaml'', an_inputs = [(''base'', ''raw'')]\<rparr>,
        \<lparr>an_id = ''raw'', an_code = ''0101'', an_definition = ''raw.yaml'', an_inputs = []\<rparr>],
      cs_order = [''raw'', ''fact'', ''view''], cs_failure_policy = ''stop_downstream'',
      cs_unchanged_policy = ''skip'', cs_max_parallel = 1\<rparr>"

text \<open>Executors that count their runs; the one of calculated facts fails when \<open>broken\<close>.\<close>

definition sample_world :: "bool \<Rightarrow> nat world" where
  "sample_world broken =
     \<lparr>w_run = (\<lambda>ex d n. if broken \<and> ex = RunCalculatedFact then (Inl (RuntimeError ''boom''), Suc n)
                 else (Inr (True, [(''output_paths'', VList [VStr d])]), Suc n)),
      w_digest = (\<lambda>v. ''digest''), w_config_fingerprint = (\<lambda>c w. VNone),
      w_contract_fingerprint = (\<lambda>c w. VNone), w_file_sha256 = (\<lambda>p w. p),
      w_path_receipt = (\<lambda>p w. VStr p), w_exists = (\<lambda>p w. True)\<rparr>"

definition sample_prior :: "(string \<times> pydict) list" where
  "sample_prior = read_previous_assets (Some (VDict [(''assets'', VList
     [VDict [(''asset_id'', VStr ''fact''), (''status'', VStr ''executed''),
       (''input_fingerprint'', VStr ''digest''), (''receipt_fingerprint'', VStr ''digest''),
       (''output_paths'', VList [VStr ''fact.parquet''])]])]))"

lemma sample_loads: "load_asset_chain sample_files (Some sample_chain) = Inr sample_spec"
  by code_simp

theorem loaded_chain_order_witness:
  "before (cs_order sample_spec) ''fact'' ''view''"
proof -
  have "(''fact'', ''view'') \<in> depends_on (cs_assets sample_spec)"
    unfolding depends_on_def
    by (rule CollectI, rule exI [of _ "''fact''"], rule exI [of _ "cs_assets sample_spec ! 0"])
      (simp add: sample_spec_def upstream_ids_def)
  from bspec [OF conjunct1 [OF conjunct2 [OF conjunct2 [OF loaded_chain_order [OF sample_loads]]]] this]
  show ?thesis by (simp only: case_prod_conv)
qed

theorem chain_cycle_iff_witness:
  "\<not> acyclic (depends_on [\<lparr>an_id = ''a'', an_code = ''0201'', an_definition = ''a'', an_inputs = [(''x'', ''b'')]\<rparr>,
     \<lparr>an_id = ''b'', an_code = ''0201'', an_definition = ''b'', an_inputs = [(''x'', ''a'')]\<rparr>])"
proof -
  let ?nodes = "[\<lparr>an_id = ''a'', an_code = ''0201'', an_definition = ''a'', an_inputs = [(''x'', ''b'')]\<rparr>,
     \<lparr>an_id = ''b'', an_code = ''0201'', an_definition = ''b'', an_inputs = [(''x'', ''a'')]\<rparr>]"
  have wf: "nodes_wf ?nodes" by code_simp
  have c: "topological_order ?nodes = Inl (ValidationError ''asset_chain.cycle'')" by code_simp
  show ?thesis by (rule iffD1 [OF chain_cycle_iff [OF wf] c])
qed

lemma sample_run:
  "\<exists>res. run_asset_chain (sample_world True) sample_spec [] 0 = Inr (res, 2) \<and>
     map ar_status (cr_assets res) = [Executed, Failed, Blocked]"
proof -
  have "case run_asset_chain (sample_world True) sample_spec [] 0 of Inl _ \<Rightarrow> False
    | Inr (res, n) \<Rightarrow> n = 2 \<and> map ar_status (cr_assets res) = [Executed, Failed, Blocked]" by code_simp
  then show ?thesis by (cases "run_asset_chain (sample_world True) sample_spec [] 0") auto
qed

theorem run_blocks_downstream_witness:
  "\<exists>res w. run_asset_chain (sample_world True) sample_spec [] 0 = Inr (res, w) \<and>
     map ar_id (cr_assets res) = cs_order sample_spec \<and> \<not> cr_ok res"
proof -
  obtain res where run: "run_asset_chain (sample_world True) sample_spec [] 0 = Inr (res, 2)"
    and st: "map ar_status (cr_assets res) = [Executed, Failed, Blocked]"
    using sample_run by (elim exE conjE)
  have "list_all (\<lambda>st. st \<in> {Executed, Reused}) (map ar_status (cr_assets res)) = False" by (simp add: st)
  then have "\<not> list_all (\<lambda>r. ar_status r \<in> {Executed, Reused}) (cr_assets res)" by (simp add: list_all_iff)
  then have "\<not> cr_ok res" 
    using conjunct1 [OF conjunct2 [OF run_blocks_downstream [OF sample_loads run]]] by (simp only: not_False_eq_True)
  moreover have "map ar_id (cr_assets res) = cs_order sample_spec"
    using run_blocks_downstream [OF sample_loads run] by (rule conjunct1)
  ultimately show ?thesis using run by (intro exI conjI)
qed


definition sample_state :: "nat chain_state" where
  "sample_state = \<lparr>ch_completed = [(''raw'', (plain_result (last (cs_assets sample_spec)) ''f'' Executed)
     \<lparr>ar_receipt := Some ''r''\<rparr>)], ch_world = 7\<rparr>"

theorem reuse_is_current_witness:
  "\<exists>r. run_asset (sample_world False) ''skip'' sample_prior (cs_assets sample_spec ! 1) sample_state = Inr (r, 7) \<and>
     ar_status r = Reused \<and> ar_output_paths r \<noteq> []"
proof -
  have "case run_asset (sample_world False) ''skip'' sample_prior (cs_assets sample_spec ! 1) sample_state of
      Inl _ \<Rightarrow> False | Inr (r, w) \<Rightarrow> ar_status r = Reused" by code_simp
  then obtain r w where run: "run_asset (sample_world False) ''skip'' sample_prior (cs_assets sample_spec ! 1)
      sample_state = Inr (r, w)" and st: "ar_status r = Reused"
    by (cases "run_asset (sample_world False) ''skip'' sample_prior (cs_assets sample_spec ! 1) sample_state") auto
  note current = reuse_is_current [OF run st]
  have w: "w = 7" using conjunct1 [OF current] by (simp add: sample_state_def)
  have "ar_output_paths r \<noteq> []"
    using current by (elim conjE exE) assumption
  with run st show ?thesis unfolding w by (intro exI conjI)
qed

end
