(* ===== verification/Cron.thy ===== *)
theory Cron
  imports PyValue
begin

text \<open>
  The cron expressions of \<open>runtime/scheduler.py\<close>: parsing a field and an expression, matching a
  local time, and the scan for the occurrence that is due. An instant is a number of
  microseconds since the epoch; the conversion to a local calendar time is the time zone
  database's and is an argument.
\<close>

section \<open>Fields\<close>

text \<open>\<open>range(a, b, step)\<close> for a positive step.\<close>

definition py_range :: "int \<Rightarrow> int \<Rightarrow> int \<Rightarrow> int list" where
  "py_range a b step = map (\<lambda>k. a + int k * step) [0..<nat ((b - a + step - 1) div step)]"

definition cron_int :: "string \<Rightarrow> int result" where
  "cron_int s = py_int (VStr s)"

definition cron_item_bounds :: "string \<Rightarrow> int \<Rightarrow> int \<Rightarrow> (int \<times> int) result" where
  "cron_item_bounds base minimum maximum =
     (if base = ''*'' then Inr (minimum, maximum)
      else case partition_on (CHR ''-'') base of (start_value, found, end_value) \<Rightarrow>
        if found
        then res_bind (cron_int start_value) (\<lambda>start.
             res_bind (cron_int end_value) (\<lambda>last. Inr (start, last)))
        else res_bind (cron_int base) (\<lambda>v. Inr (v, v)))"

definition parse_cron_item :: "string \<Rightarrow> int \<Rightarrow> int \<Rightarrow> int list result" where
  "parse_cron_item item minimum maximum =
     (case partition_on (CHR ''/'') item of (base, separator, step_value) \<Rightarrow>
        res_bind (if separator then cron_int step_value else Inr 1) (\<lambda>step.
        raise_if (step < 1) (ValueError ''cron_step'')
       (res_bind (cron_item_bounds base minimum maximum) (\<lambda>(start, last).
        raise_if (start < minimum \<or> last > maximum \<or> start > last) (ValueError ''cron_value'')
          (Inr (py_range start (last + 1) step))))))"

definition parse_cron_field :: "string \<Rightarrow> int \<Rightarrow> int \<Rightarrow> int set result" where
  "parse_cron_field value minimum maximum =
     res_bind (res_map (\<lambda>item. parse_cron_item item minimum maximum) (split_on (CHR '','') value))
       (\<lambda>ranges. Inr (set (concat ranges)))"

section \<open>Expressions\<close>

record cron =
  cr_minutes :: "int set"
  cr_hours :: "int set"
  cr_days :: "int set"
  cr_months :: "int set"
  cr_weekdays :: "int set"

definition cron_ranges :: "(int \<times> int) list" where
  "cron_ranges = [(0, 59), (0, 23), (1, 31), (1, 12), (0, 7)]"

definition cron_error :: "'a result \<Rightarrow> 'a result" where
  "cron_error r = (case r of Inl (ValueError _) \<Rightarrow> Inl (ValidationError ''schedule.invalid_cron'') | _ \<Rightarrow> r)"

definition parse_cron :: "string \<Rightarrow> cron result" where
  "parse_cron expression =
     (let fields = split_ws expression in
      raise_if (length fields \<noteq> 5) (ValidationError ''schedule.invalid_cron'')
        (res_bind (cron_error (res_map (\<lambda>(value, lo, hi). parse_cron_field value lo hi)
             (zip fields cron_ranges))) (\<lambda>parsed.
           Inr \<lparr>cr_minutes = parsed ! 0, cr_hours = parsed ! 1, cr_days = parsed ! 2,
                cr_months = parsed ! 3,
                cr_weekdays = (\<lambda>v. if v = 7 then 0 else v) ` (parsed ! 4)\<rparr>)))"

record civil_time =
  cv_minute :: int
  cv_hour :: int
  cv_day :: int
  cv_month :: int
  cv_weekday :: int

definition cron_matches :: "string \<Rightarrow> civil_time \<Rightarrow> bool result" where
  "cron_matches expression value =
     res_bind (parse_cron expression) (\<lambda>c.
       let cron_weekday = (cv_weekday value + 1) mod 7;
           fields = split_ws expression;
           day_match = cv_day value \<in> cr_days c;
           weekday_match = cron_weekday \<in> cr_weekdays c;
           calendar_match =
             (if fields ! 2 \<noteq> ''*'' \<and> fields ! 4 \<noteq> ''*'' then day_match \<or> weekday_match
              else day_match \<and> weekday_match)
       in Inr (cv_minute value \<in> cr_minutes c \<and> cv_hour value \<in> cr_hours c
               \<and> cv_month value \<in> cr_months c \<and> calendar_match))"

section \<open>The due occurrence\<close>

type_synonym instant = int

definition MINUTE :: int where
  "MINUTE = 60 * 1000000"

definition MAX_CATCH_UP_MINUTES :: int where
  "MAX_CATCH_UP_MINUTES = 7 * 24 * 60"

text \<open>The loop over the minutes of the window; the last match wins.\<close>

function latest_match ::
  "(instant \<Rightarrow> bool result) \<Rightarrow> instant \<Rightarrow> instant \<Rightarrow> instant option \<Rightarrow> instant option result" where
  "latest_match matches candidate current latest =
     (if candidate \<le> current
      then res_bind (matches candidate) (\<lambda>m.
             latest_match matches (candidate + MINUTE) current (if m then Some candidate else latest))
      else Inr latest)"
  by pat_completeness auto
termination
  by (relation "measure (\<lambda>(m, candidate, current, l). nat (current - candidate + 1))")
    (auto simp: MINUTE_def)

declare latest_match.simps [simp del]

definition due_occurrence ::
  "(instant \<Rightarrow> civil_time) \<Rightarrow> string \<Rightarrow> string \<Rightarrow> instant option \<Rightarrow> instant \<Rightarrow> instant option result" where
  "due_occurrence local cron misfire last_checked current =
     (let now_only = res_bind (cron_matches cron (local current)) (\<lambda>m.
                       Inr (if m then Some current else None)) in
      case last_checked of
        None \<Rightarrow> now_only
      | Some previous \<Rightarrow>
          if misfire = ''skip'' then now_only
          else latest_match (\<lambda>t. cron_matches cron (local t))
                 (max (previous + MINUTE) (current - MAX_CATCH_UP_MINUTES * MINUTE)) current None)"

section \<open>What a field denotes\<close>

lemma int_le_div_iff: "0 < c \<Longrightarrow> a \<le> b div c \<longleftrightarrow> a * c \<le> (b::int)"
proof
  assume "0 < c" "a \<le> b div c"
  then have "a * c \<le> (b div c) * c" by (intro mult_right_mono) auto
  also have "\<dots> = b - b mod c" by (simp add: minus_mod_eq_div_mult)
  also have "\<dots> \<le> b" using \<open>0 < c\<close> by (simp add: pos_mod_sign)
  finally show "a * c \<le> b" .
next
  assume "0 < c" "a * c \<le> b"
  then have "a * c div c \<le> b div c" by (intro zdiv_mono1)
  with \<open>0 < c\<close> show "a \<le> b div c" by simp
qed

lemma py_range_set:
  assumes "1 \<le> step"
  shows "set (py_range a b step) = {a + k * step | k. 0 \<le> k \<and> a + k * step < b}"
proof -
  have "k < nat ((b - a + step - 1) div step) \<longleftrightarrow> a + int k * step < b" for k
  proof -
    have "k < nat ((b - a + step - 1) div step) \<longleftrightarrow> int k + 1 \<le> (b - a + step - 1) div step" by linarith
    also have "\<dots> \<longleftrightarrow> (int k + 1) * step \<le> b - a + step - 1" using assms by (intro int_le_div_iff) simp
    also have "\<dots> \<longleftrightarrow> a + int k * step < b" by (auto simp: algebra_simps)
    finally show ?thesis .
  qed
  then have "set (py_range a b step) = (\<lambda>k. a + int k * step) ` {k. a + int k * step < b}"
    by (auto simp: py_range_def)
  moreover have "\<dots> = {a + k * step | k. 0 \<le> k \<and> a + k * step < b}"
    by (auto simp: image_iff) (metis nat_0_le)
  ultimately show ?thesis by simp
qed

text \<open>What an item of a field denotes: a first value, a last value and a step.\<close>

definition item_triple :: "string \<Rightarrow> int \<Rightarrow> int \<Rightarrow> (int \<times> int \<times> int) result" where
  "item_triple item minimum maximum =
     (case partition_on (CHR ''/'') item of (base, separator, step_value) \<Rightarrow>
        res_bind (if separator then cron_int step_value else Inr 1) (\<lambda>step.
        res_bind (cron_item_bounds base minimum maximum) (\<lambda>(a, b). Inr (a, b, step))))"

lemma parse_cron_item_Inr:
  "parse_cron_item item minimum maximum = Inr xs \<longleftrightarrow>
     (\<exists>a b step. item_triple item minimum maximum = Inr (a, b, step) \<and> 1 \<le> step \<and>
        minimum \<le> a \<and> a \<le> b \<and> b \<le> maximum \<and> xs = py_range a (b + 1) step)"
  by (auto simp: parse_cron_item_def item_triple_def res_simps split: prod.splits)

definition field_denotes :: "string \<Rightarrow> int \<Rightarrow> int \<Rightarrow> int set" where
  "field_denotes value minimum maximum =
     {a + k * step | a b step k item. item \<in> set (split_on (CHR '','') value) \<and>
        item_triple item minimum maximum = Inr (a, b, step) \<and> 0 \<le> k \<and> a + k * step \<le> b}"

text \<open>
  C35: A cron field that parses denotes the union of its items, each the values from its first to
  its last in steps, and never a value outside the limits of the field; every item contributes.
\<close>

theorem cron_field_meaning:
  assumes "parse_cron_field value minimum maximum = Inr vals"
  shows "vals = field_denotes value minimum maximum \<and> vals \<noteq> {} \<and> vals \<subseteq> {minimum..maximum}"
proof -
  from assms obtain ranges where ranges:
    "res_map (\<lambda>item. parse_cron_item item minimum maximum) (split_on (CHR '','') value) = Inr ranges"
    and vals: "vals = set (concat ranges)" by (auto simp: parse_cron_field_def res_simps)
  have item: "\<exists>a b step. item_triple item minimum maximum = Inr (a, b, step) \<and> 1 \<le> step \<and>
      minimum \<le> a \<and> a \<le> b \<and> b \<le> maximum \<and> set xs = {a + k * step | k. 0 \<le> k \<and> a + k * step \<le> b}"
    if "parse_cron_item item minimum maximum = Inr xs" for item xs
    using that by (auto simp: parse_cron_item_Inr py_range_set zle_add1_eq_le simp del: set_map)
  have "set (concat ranges) = field_denotes value minimum maximum"
  proof (intro set_eqI iffI)
    fix v assume "v \<in> set (concat ranges)"
    then obtain xs where xs: "xs \<in> set ranges" "v \<in> set xs" by auto
    from res_map_output [OF ranges xs(1)] obtain i where "i \<in> set (split_on (CHR '','') value)"
      "parse_cron_item i minimum maximum = Inr xs" by auto
    with item [OF this(2)] xs(2) show "v \<in> field_denotes value minimum maximum"
      unfolding field_denotes_def by blast
  next
    fix v assume "v \<in> field_denotes value minimum maximum"
    then obtain a b step k i where i: "i \<in> set (split_on (CHR '','') value)"
      "item_triple i minimum maximum = Inr (a, b, step)" "0 \<le> k" "v = a + k * step" "a + k * step \<le> b"
      unfolding field_denotes_def by blast
    from res_map_input [OF ranges i(1)] obtain xs where xs: "xs \<in> set ranges"
      "parse_cron_item i minimum maximum = Inr xs" by auto
    from item [OF xs(2)] i have "v \<in> set xs" by auto
    with xs(1) show "v \<in> set (concat ranges)" by auto
  qed
  moreover have "set (concat ranges) \<subseteq> {minimum..maximum}"
  proof
    fix v assume "v \<in> set (concat ranges)"
    then obtain xs where xs: "xs \<in> set ranges" "v \<in> set xs" by auto
    from res_map_output [OF ranges xs(1)] obtain i where "parse_cron_item i minimum maximum = Inr xs" by auto
    from item [OF this] xs(2) obtain a b step k where "minimum \<le> a" "b \<le> maximum" "1 \<le> step" "0 \<le> k"
      "v = a + k * step" "v \<le> b" by auto
    moreover from this have "0 \<le> k * step" by (intro mult_nonneg_nonneg) auto
    ultimately show "v \<in> {minimum..maximum}" unfolding atLeastAtMost_iff by linarith
  qed
  moreover have "set (concat ranges) \<noteq> {}"
  proof -
    obtain i where "i \<in> set (split_on (CHR '','') value)" by (metis split_on_not_Nil list.set_sel(1))
    from res_map_input [OF ranges this] obtain xs where xs: "xs \<in> set ranges"
      "parse_cron_item i minimum maximum = Inr xs" by auto
    from item [OF xs(2)] obtain a b step where "a \<le> b"
      "set xs = {a + k * step | k. 0 \<le> k \<and> a + k * step \<le> b}" by blast
    then have "a + 0 * step \<in> set xs" by (intro ssubst [of "set xs"]) auto
    with xs(1) have "a + 0 * step \<in> set (concat ranges)" unfolding set_concat by (rule UN_I)
    then show ?thesis by (metis empty_iff)
  qed
  ultimately show ?thesis using vals by blast
qed

theorem cron_field_meaning_witness:
  "parse_cron_field ''1-20/7,*/30'' 0 59 = Inr {0, 1, 8, 15, 30} \<and> {0, 1, 8, 15, 30} \<subseteq> {0..59::int}"
proof -
  have "parse_cron_field ''1-20/7,*/30'' 0 59 = Inr {0, 1, 8, 15, 30}" by code_simp
  with cron_field_meaning [OF this] show ?thesis by blast
qed

section \<open>Which occurrence is due\<close>

text \<open>The minutes from \<open>start\<close> to \<open>current\<close>.\<close>

definition window :: "instant \<Rightarrow> instant \<Rightarrow> instant set" where
  "window start current = {t. start \<le> t \<and> t \<le> current \<and> MINUTE dvd (t - start)}"

lemma finite_window: "finite (window start current)"
  by (rule finite_subset [of _ "{start..current}"]) (auto simp: window_def)

lemma window_unfold:
  "window start current = (if start \<le> current then insert start (window (start + MINUTE) current) else {})"
proof -
  have "start + MINUTE \<le> t" if "start \<le> t" "MINUTE dvd (t - start)" "t \<noteq> start" for t
    using zdvd_imp_le [OF that(2)] that by simp
  moreover have "MINUTE dvd (t - (start + MINUTE)) \<longleftrightarrow> MINUTE dvd (t - start)" for t
    using dvd_add_right_iff [of MINUTE MINUTE "t - (start + MINUTE)"] by simp
  moreover have "0 < MINUTE" by (simp add: MINUTE_def)
  ultimately show ?thesis by (auto simp: window_def)
qed

lemma latest_match_max:
  assumes "latest_match matches start current latest = Inr r"
  defines "hits \<equiv> {t \<in> window start current. matches t = Inr True}"
  shows "r = (if hits = {} then latest else Some (Max hits))"
  using assms(1) unfolding hits_def
proof (induction matches start current latest rule: latest_match.induct)
  case (1 matches start current latest)
  let ?hits = "\<lambda>s. {t \<in> window s current. matches t = Inr True}"
  show ?case
  proof (cases "start \<le> current")
    case True
    with 1(2) obtain m where m: "matches start = Inr m"
      and rest: "latest_match matches (start + MINUTE) current (if m then Some start else latest) = Inr r"
      by (subst (asm) latest_match.simps) (auto simp: res_simps)
    define H where "H = ?hits (start + MINUTE)"
    from 1(1) [OF True m rest]
    have IH: "r = (if H = {} then (if m then Some start else latest) else Some (Max H))" unfolding H_def .
    have hits: "?hits start = (if m then {start} else {}) \<union> H"
      using True m by (subst window_unfold) (auto simp: H_def)
    have fin: "finite H" using finite_window by (simp add: H_def)
    show ?thesis
    proof (cases "H = {}")
      case True
      then show ?thesis unfolding IH hits by (cases m) simp_all
    next
      case False
      with fin have "Max H \<in> H" by (rule Max_in)
      then have "start + MINUTE \<le> Max H" unfolding window_def H_def by blast
      then have "start \<le> Max H" by (simp add: MINUTE_def)
      with False fin show ?thesis unfolding IH hits by (cases m) (simp_all add: max_def)
    qed
  next
    case False
    with 1(2) show ?thesis by (subst (asm) latest_match.simps) (simp add: window_unfold)
  qed
qed

text \<open>
  C34: Under the catch-up policy a checked schedule is due at the latest minute that matches its
  cron expression after the last check, at most seven days back, and is not due when none does.
\<close>

theorem due_is_latest_match:
  assumes "due_occurrence local cron ''catch_up_once'' (Some previous) current = Inr due"
    and "MINUTE dvd previous" and "MINUTE dvd current"
  defines "hits \<equiv> {t. previous < t \<and> t \<le> current \<and> current - 7 * 24 * 60 * MINUTE \<le> t \<and> MINUTE dvd t \<and>
      cron_matches cron (local t) = Inr True}"
  shows "due = (if hits = {} then None else Some (Max hits))"
proof -
  let ?start = "max (previous + MINUTE) (current - MAX_CATCH_UP_MINUTES * MINUTE)"
  from assms(1) have "latest_match (\<lambda>t. cron_matches cron (local t)) ?start current None = Inr due"
    by (simp add: due_occurrence_def)
  note due = latest_match_max [OF this]
  have "MINUTE dvd ?start" using assms(2,3) by (simp add: max_def)
  then have dvd: "MINUTE dvd (t - ?start) \<longleftrightarrow> MINUTE dvd t" for t
    using dvd_add_right_iff [of MINUTE ?start "t - ?start"] by simp
  have "previous < t \<longleftrightarrow> previous + MINUTE \<le> t" if "MINUTE dvd t" for t
    using zdvd_imp_le [of MINUTE "t - previous"] assms(2) that by (auto simp: MINUTE_def)
  then have "t \<in> hits \<longleftrightarrow> t \<in> {t \<in> window ?start current. cron_matches cron (local t) = Inr True}" for t
    unfolding hits_def window_def mem_Collect_eq dvd by (auto simp: MAX_CATCH_UP_MINUTES_def)
  then have "hits = {t \<in> window ?start current. cron_matches cron (local t) = Inr True}" by blast
  with due show ?thesis by simp
qed

definition utc_minute_of_hour :: "instant \<Rightarrow> civil_time" where
  "utc_minute_of_hour t =
     \<lparr>cv_minute = (t div MINUTE) mod 60, cv_hour = (t div (60 * MINUTE)) mod 24, cv_day = 1, cv_month = 1,
      cv_weekday = 0\<rparr>"

theorem due_is_latest_match_witness:
  "\<exists>due. due_occurrence utc_minute_of_hour ''*/10 * * * *'' ''catch_up_once'' (Some 0) (25 * MINUTE) = Inr (Some due) \<and>
     due = Max {t. 0 < t \<and> t \<le> 25 * MINUTE \<and> 25 * MINUTE - 7 * 24 * 60 * MINUTE \<le> t \<and> MINUTE dvd t \<and>
       cron_matches ''*/10 * * * *'' (utc_minute_of_hour t) = Inr True}"
proof -
  have run: "due_occurrence utc_minute_of_hour ''*/10 * * * *'' ''catch_up_once'' (Some 0) (25 * MINUTE)
      = Inr (Some (20 * MINUTE))" by code_simp
  have "Some (20 * MINUTE) = (if H = {} then None else Some (Max H)) \<Longrightarrow> 20 * MINUTE = Max H" for H
    by (simp split: if_splits)
  note latest = this [OF due_is_latest_match [OF run dvd_0_right dvd_triv_right]]
  show ?thesis by (intro exI conjI, rule run, rule latest)
qed

end
