(* ===== verification/Scheduler.thy ===== *)
theory Scheduler
  imports Cron AssetChain
begin

text \<open>
  \<open>runtime/scheduler.py\<close>: loading a schedule, and the tick that claims and runs what is due. The
  three SQLite tables are dictionaries by primary key; a transaction is one state change. Clock,
  time zones, hashes and the targets' executors are the world.
\<close>

section \<open>Specification\<close>

record schedule_target =
  tg_alias :: string
  tg_kind :: string
  tg_definition :: string
  tg_key :: string

record schedule_spec =
  sc_alias :: string
  sc_yaml_path :: string
  sc_definition_key :: string
  sc_revision :: string
  sc_enabled :: bool
  sc_timezone :: string
  sc_cron :: string
  sc_targets :: "schedule_target list"
  sc_misfire :: string
  sc_timeout_minutes :: int

definition SCHEDULE_SCHEMA_VERSION :: string where
  "SCHEDULE_SCHEMA_VERSION = ''smoking-data.schedule.v1''"

text \<open>
  What loading reads outside: the file names, which paths are files, the parsed documents (None
  when a file cannot be read or parsed), the time zones, SHA-256 of a text and canonical JSON.
\<close>

record schedule_files =
  sf_resolve :: "string \<Rightarrow> string"
  sf_is_file :: "string \<Rightarrow> bool"
  sf_document :: "string \<Rightarrow> pyval option"
  sf_zone_known :: "string \<Rightarrow> bool"
  sf_sha :: "string \<Rightarrow> string"
  sf_json :: "pyval \<Rightarrow> string"

definition path_name :: "string \<Rightarrow> string" where
  "path_name p = last (split_on (CHR ''/'') p)"

definition code_from_name :: "string \<Rightarrow> string" where
  "code_from_name path =
     (let parts = split_on (CHR ''.'') (path_name path) in
      if length parts \<ge> 3 then parts ! (length parts - 2) else [])"

definition stripped_key :: "pydict \<Rightarrow> string \<Rightarrow> string" where
  "stripped_key d k = py_strip (str_or (get_key d k) [])"

definition target_asset_code :: "string \<Rightarrow> pyval option \<Rightarrow> string" where
  "target_asset_code path doc =
     (case doc of
        Some (VDict payload) \<Rightarrow>
          let yaml = get_key payload ''yaml'';
              code = (if is_dict yaml then stripped_key (dict_of yaml) ''asset_code'' else []);
              version = (if is_dict yaml then stripped_key (dict_of yaml) ''schema_version'' else [])
          in if code \<noteq> [] then code
             else if version = ASSET_CHAIN_SCHEMA_VERSION then ''chain''
             else if is_dict (get_key payload ''chain'') then ''chain''
             else if stripped_key payload ''asset_code'' \<noteq> [] then stripped_key payload ''asset_code''
             else code_from_name path
      | _ \<Rightarrow> code_from_name path)"

definition validate_target_definition :: "schedule_files \<Rightarrow> string \<Rightarrow> string \<Rightarrow> unit result" where
  "validate_target_definition files path kind =
     raise_if (\<not> sf_is_file files path) (ValidationError ''schedule.target_missing'')
       (let code = target_asset_code path (sf_document files path) in
        raise_if (kind = ''chain'' \<and> code \<noteq> ''chain'') (ValidationError ''schedule.target_kind_mismatch'')
       (raise_if (kind = ''asset'' \<and> code \<notin> set supported_asset_codes)
          (ValidationError ''schedule.target_kind_mismatch'') (Inr ())))"

definition load_target :: "schedule_files \<Rightarrow> string list \<Rightarrow> pyval \<Rightarrow> schedule_target result" where
  "load_target files aliases raw =
     res_bind (chain_mapping raw) (\<lambda>target.
     res_bind (reject_unknown target [''alias'', ''kind'', ''definition'']) (\<lambda>_.
     res_bind (required_string (get_key target ''alias'')) (\<lambda>alias.
     raise_if (alias \<in> set aliases) (ValidationError ''schedule.duplicate_target_alias'')
    (res_bind (required_string (get_key target ''kind'')) (\<lambda>kind.
     raise_if (kind \<notin> set [''asset'', ''chain'']) (ValidationError ''schedule.unsupported_target_kind'')
    (res_bind (required_string (get_key target ''definition'')) (\<lambda>value.
     let path = sf_resolve files value in
     res_bind (validate_target_definition files path kind) (\<lambda>_.
       Inr \<lparr>tg_alias = alias, tg_kind = kind, tg_definition = path,
            tg_key = sf_sha files (sf_json files
              (VDict [(''kind'', VStr kind), (''definition'', VStr path)]))\<rparr>))))))))"

fun load_targets :: "schedule_files \<Rightarrow> string list \<Rightarrow> pyval list \<Rightarrow> schedule_target list result" where
  "load_targets files aliases [] = Inr []"
| "load_targets files aliases (raw # rest) =
     res_bind (load_target files aliases raw) (\<lambda>t.
     res_bind (load_targets files (tg_alias t # aliases) rest) (\<lambda>ts. Inr (t # ts)))"

definition load_policy :: "pyval \<Rightarrow> (string \<times> int) result" where
  "load_policy v =
     res_bind (chain_mapping (py_or v (VDict []))) (\<lambda>policy.
     res_bind (reject_unknown policy [''misfire'', ''timeout_minutes'']) (\<lambda>_.
       let misfire = str_or (get_key policy ''misfire'') ''catch_up_once'' in
       raise_if (misfire \<notin> set [''skip'', ''catch_up_once'']) (ValidationError ''schedule.invalid_misfire_policy'')
         (case get_default policy ''timeout_minutes'' (VInt 180) of
            VInt n \<Rightarrow> raise_if (n < 1) (ValidationError ''yaml.invalid_type'') (Inr (misfire, n))
          | _ \<Rightarrow> Inl (ValidationError ''yaml.invalid_type''))))"

definition canonical_schedule ::
  "bool \<Rightarrow> string \<Rightarrow> string \<Rightarrow> schedule_target list \<Rightarrow> string \<Rightarrow> int \<Rightarrow> pyval" where
  "canonical_schedule enabled tz cron targets misfire timeout =
     VDict [(''schema_version'', VStr SCHEDULE_SCHEMA_VERSION),
       (''schedule'', VDict [(''enabled'', VBool enabled), (''timezone'', VStr tz), (''cron'', VStr cron)]),
       (''targets'', VList (map (\<lambda>t. VDict [(''kind'', VStr (tg_kind t)),
          (''definition'', VStr (tg_definition t))]) targets)),
       (''policy'', VDict [(''misfire'', VStr misfire), (''timeout_minutes'', VInt timeout)])]"

definition load_schedule_spec :: "schedule_files \<Rightarrow> string \<Rightarrow> schedule_spec result" where
  "load_schedule_spec files path =
     raise_if (\<not> sf_is_file files path) (ValidationError ''schedule.definition_missing'')
    (res_bind (case sf_document files path of None \<Rightarrow> Inl (ValueError ''yaml'') | Some v \<Rightarrow> Inr v) (\<lambda>loaded.
     res_bind (chain_mapping (py_or loaded (VDict []))) (\<lambda>payload.
     res_bind (reject_unknown payload [''yaml'', ''schedule'', ''targets'', ''policy'']) (\<lambda>_.
     res_bind (chain_mapping (get_key payload ''yaml'')) (\<lambda>header.
     res_bind (reject_unknown header [''schema_version'']) (\<lambda>_.
     raise_if (get_key header ''schema_version'' \<noteq> VStr SCHEDULE_SCHEMA_VERSION)
       (ValidationError ''schedule.invalid_schema_version'')
    (res_bind (chain_mapping (get_key payload ''schedule'')) (\<lambda>schedule.
     res_bind (reject_unknown schedule [''alias'', ''enabled'', ''timezone'', ''cron'']) (\<lambda>_.
     res_bind (required_string (get_key schedule ''alias'')) (\<lambda>alias.
     res_bind (case get_default schedule ''enabled'' (VBool True) of VBool b \<Rightarrow> Inr b
                 | _ \<Rightarrow> Inl (ValidationError ''yaml.invalid_type'')) (\<lambda>enabled.
     res_bind (required_string (get_key schedule ''timezone'')) (\<lambda>tz.
     raise_if (\<not> sf_zone_known files tz) (ValidationError ''schedule.invalid_timezone'')
    (res_bind (required_string (get_key schedule ''cron'')) (\<lambda>cron.
     res_bind (parse_cron cron) (\<lambda>_.
     let raw_targets = get_key payload ''targets'' in
     raise_if (\<not> is_list raw_targets \<or> items_of raw_targets = []) (ValidationError ''yaml.invalid_type'')
    (res_bind (load_targets files [] (items_of raw_targets)) (\<lambda>targets.
     res_bind (load_policy (get_key payload ''policy'')) (\<lambda>(misfire, timeout).
       Inr \<lparr>sc_alias = alias, sc_yaml_path = path, sc_definition_key = sf_sha files path,
            sc_revision = sf_sha files (sf_json files
              (canonical_schedule enabled tz cron targets misfire timeout)),
            sc_enabled = enabled, sc_timezone = tz, sc_cron = cron, sc_targets = targets,
            sc_misfire = misfire, sc_timeout_minutes = timeout\<rparr>))))))))))))))))))"

text \<open>The files of a directory in path order; aliases are unique.\<close>

definition load_schedule_directory :: "schedule_files \<Rightarrow> string list option \<Rightarrow> schedule_spec list result" where
  "load_schedule_directory files listing =
     (case listing of
        None \<Rightarrow> Inl (ValidationError ''schedule.directory_missing'')
      | Some found \<Rightarrow>
          let paths = sort (dict_fromkeys found) in
          raise_if (paths = []) (ValidationError ''schedule.definition_required'')
            (res_bind (res_map (load_schedule_spec files) paths) (\<lambda>specs.
             raise_if (\<not> distinct (map sc_alias specs)) (ValidationError ''schedule.duplicate_alias'')
               (Inr specs))))"

section \<open>The database\<close>

datatype occurrence_status = Running | TimedOut | Succeeded | FailedRun

datatype target_status = TargetSuccess | TargetFailed | TargetBlocked

record schedule_row =
  sr_yaml_path :: string
  sr_revision :: string
  sr_alias :: string
  sr_last_checked :: instant

record occurrence_row =
  or_definition :: string
  or_revision :: string
  or_alias :: string
  or_scheduled_at :: string
  or_status :: occurrence_status
  or_started :: instant
  or_finished :: "instant option"
  or_error :: "string option"

record target_result =
  tr_index :: nat
  tr_alias :: string
  tr_key :: string
  tr_kind :: string
  tr_definition :: string
  tr_status :: target_status
  tr_run_id :: "string option"
  tr_started :: "instant option"
  tr_finished :: "instant option"
  tr_error :: "string option"

record sched_db =
  db_schedules :: "(string \<times> schedule_row) list"
  db_occurrences :: "(string \<times> occurrence_row) list"
  db_targets :: "((string \<times> nat) \<times> target_result) list"

definition empty_db :: sched_db where
  "empty_db = \<lparr>db_schedules = [], db_occurrences = [], db_targets = []\<rparr>"

definition upsert_schedule_state :: "schedule_spec \<Rightarrow> instant \<Rightarrow> sched_db \<Rightarrow> sched_db" where
  "upsert_schedule_state spec checked_at db =
     db\<lparr>db_schedules := dict_put (sc_definition_key spec)
          \<lparr>sr_yaml_path = sc_yaml_path spec, sr_revision = sc_revision spec, sr_alias = sc_alias spec,
           sr_last_checked = checked_at\<rparr> (db_schedules db)\<rparr>"

definition write_target_result :: "string \<Rightarrow> target_result \<Rightarrow> sched_db \<Rightarrow> sched_db" where
  "write_target_result key r db = db\<lparr>db_targets := dict_put (key, tr_index r) r (db_targets db)\<rparr>"

text \<open>\<open>UPDATE occurrences SET ... WHERE occurrence_key = ?\<close>.\<close>

definition update_occurrence :: "string \<Rightarrow> (occurrence_row \<Rightarrow> occurrence_row) \<Rightarrow> sched_db \<Rightarrow> sched_db" where
  "update_occurrence key f db =
     db\<lparr>db_occurrences := map (\<lambda>(k, r). (k, if k = key then f r else r)) (db_occurrences db)\<rparr>"

definition time_out :: "string \<Rightarrow> instant \<Rightarrow> sched_db \<Rightarrow> sched_db" where
  "time_out key at = update_occurrence key (\<lambda>r. r\<lparr>or_status := TimedOut, or_finished := Some at\<rparr>)"

definition finish_occurrence ::
  "string \<Rightarrow> occurrence_status \<Rightarrow> string option \<Rightarrow> instant \<Rightarrow> sched_db \<Rightarrow> sched_db" where
  "finish_occurrence key status err at =
     update_occurrence key (\<lambda>r. r\<lparr>or_status := status, or_finished := Some at, or_error := err\<rparr>)"

definition insert_occurrence :: "schedule_spec \<Rightarrow> string \<Rightarrow> string \<Rightarrow> instant \<Rightarrow> sched_db \<Rightarrow> sched_db" where
  "insert_occurrence spec key scheduled_at started db =
     db\<lparr>db_occurrences := db_occurrences db @
          [(key, \<lparr>or_definition = sc_definition_key spec, or_revision = sc_revision spec,
                  or_alias = sc_alias spec, or_scheduled_at = scheduled_at, or_status = Running,
                  or_started = started, or_finished = None, or_error = None\<rparr>)]\<rparr>"

definition running_rows :: "string \<Rightarrow> sched_db \<Rightarrow> (string \<times> occurrence_row) list" where
  "running_rows def db =
     filter (\<lambda>(k, r). or_definition r = def \<and> or_status r = Running) (db_occurrences db)"

text \<open>\<open>ORDER BY started_at DESC LIMIT 1\<close>.\<close>

definition latest_running :: "string \<Rightarrow> sched_db \<Rightarrow> (string \<times> occurrence_row) option" where
  "latest_running def db =
     (case sort_key (or_started \<circ> snd) (running_rows def db) of [] \<Rightarrow> None | r # rs \<Rightarrow> Some (last (r # rs)))"

section \<open>Claiming an occurrence\<close>

datatype claim = Granted | Duplicate | RuntimeBusy

definition claim_occurrence ::
  "schedule_spec \<Rightarrow> string \<Rightarrow> string \<Rightarrow> instant \<Rightarrow> instant \<Rightarrow> instant \<Rightarrow> sched_db \<Rightarrow> claim \<times> sched_db" where
  "claim_occurrence spec key scheduled_at now timed_out_at started_at db =
     (if map_of (db_occurrences db) key \<noteq> None then (Duplicate, db)
      else case latest_running (sc_definition_key spec) db of
             None \<Rightarrow> (Granted, insert_occurrence spec key scheduled_at started_at db)
           | Some (running_key, row) \<Rightarrow>
               if now - or_started row < sc_timeout_minutes spec * MINUTE then (RuntimeBusy, db)
               else (Granted, insert_occurrence spec key scheduled_at started_at
                                (time_out running_key timed_out_at db)))"

section \<open>Running the targets\<close>

record 'w sched_world =
  sw_clock :: "'w \<Rightarrow> instant \<times> 'w"
  sw_execute :: "schedule_target \<Rightarrow> schedule_spec \<Rightarrow> 'w \<Rightarrow> pydict result \<times> 'w"
  sw_local :: "string \<Rightarrow> instant \<Rightarrow> civil_time"
  sw_iso :: "string \<Rightarrow> instant \<Rightarrow> string"
  sw_sha :: "string \<Rightarrow> string"

record 'w sched_state =
  ss_db :: sched_db
  ss_world :: 'w

definition extract_run_id :: "pydict \<Rightarrow> string option" where
  "extract_run_id payload =
     (let run_id = get_key (dict_of (get_key (dict_of (get_key payload ''details'')) ''operation_registry''))
                     ''run_id''
      in if py_truthy run_id then Some (py_str run_id) else None)"

definition target_outcome :: "pydict result \<Rightarrow> target_status \<times> string option \<times> string option" where
  "target_outcome run =
     (case run of
        Inl e \<Rightarrow> (TargetFailed, None, Some (error_type_name e))
      | Inr payload \<Rightarrow>
          if py_truthy (get_default payload ''ok'' (VBool True))
          then (TargetSuccess, extract_run_id payload, None)
          else (TargetFailed, extract_run_id payload,
                Some (str_or (get_key payload ''error_type'') ''ScheduledRunFailure'')))"

definition target_row ::
  "nat \<Rightarrow> schedule_target \<Rightarrow> target_status \<Rightarrow> string option \<Rightarrow> instant option \<Rightarrow> instant option
   \<Rightarrow> string option \<Rightarrow> target_result" where
  "target_row i t st run_id started finished err =
     \<lparr>tr_index = i, tr_alias = tg_alias t, tr_key = tg_key t, tr_kind = tg_kind t,
      tr_definition = tg_definition t, tr_status = st, tr_run_id = run_id, tr_started = started,
      tr_finished = finished, tr_error = err\<rparr>"

definition blocked_target :: "nat \<Rightarrow> schedule_target \<Rightarrow> target_result" where
  "blocked_target i t = target_row i t TargetBlocked None None None (Some ''UpstreamScheduledTargetFailure'')"

definition run_target ::
  "'w sched_world \<Rightarrow> schedule_spec \<Rightarrow> nat \<Rightarrow> schedule_target \<Rightarrow> 'w \<Rightarrow> target_result \<times> 'w" where
  "run_target wld spec i t w =
     (case sw_clock wld w of (started, w1) \<Rightarrow>
      case sw_execute wld t spec w1 of (run, w2) \<Rightarrow>
      case sw_clock wld w2 of (finished, w3) \<Rightarrow>
      case target_outcome run of (st, run_id, err) \<Rightarrow>
        (target_row i t st run_id (Some started) (Some finished) err, w3))"

fun run_targets ::
  "'w sched_world \<Rightarrow> schedule_spec \<Rightarrow> string \<Rightarrow> nat \<Rightarrow> bool \<Rightarrow> schedule_target list \<Rightarrow> 'w sched_state
   \<Rightarrow> target_result list \<times> 'w sched_state" where
  "run_targets wld spec key i blocked [] s = ([], s)"
| "run_targets wld spec key i blocked (t # ts) s =
     (let (r, w) = (if blocked then (blocked_target i t, ss_world s) else run_target wld spec i t (ss_world s));
          (rs, s') = run_targets wld spec key (Suc i) (blocked \<or> tr_status r = TargetFailed) ts
                       \<lparr>ss_db = write_target_result key r (ss_db s), ss_world = w\<rparr>
      in (r # rs, s'))"

section \<open>A tick\<close>

datatype occurrence_outcome = ClaimRefused claim | Ran occurrence_status "target_result list" "string option"

record tick_occurrence =
  to_key :: string
  to_alias :: string
  to_scheduled_at :: string
  to_outcome :: occurrence_outcome

definition first_failure :: "target_result list \<Rightarrow> target_result option" where
  "first_failure rs = find (\<lambda>r. tr_status r = TargetFailed) rs"

definition run_claimed ::
  "'w sched_world \<Rightarrow> schedule_spec \<Rightarrow> string \<Rightarrow> 'w sched_state \<Rightarrow> occurrence_outcome \<times> 'w sched_state" where
  "run_claimed wld spec key s =
     (let (results, s1) = run_targets wld spec key 0 False (sc_targets spec) s;
          failed = first_failure results;
          status = (if failed = None then Succeeded else FailedRun);
          err = (case failed of None \<Rightarrow> None | Some r \<Rightarrow> tr_error r);
          (finished, w) = sw_clock wld (ss_world s1)
      in (Ran status results err, \<lparr>ss_db = finish_occurrence key status err finished (ss_db s1), ss_world = w\<rparr>))"

definition claim_now ::
  "'w sched_world \<Rightarrow> schedule_spec \<Rightarrow> string \<Rightarrow> string \<Rightarrow> 'w sched_state \<Rightarrow> claim \<times> 'w sched_state" where
  "claim_now wld spec key scheduled_at s =
     (let (now, w1) = sw_clock wld (ss_world s);
          stale = (latest_running (sc_definition_key spec) (ss_db s) \<noteq> None);
          (timed_out_at, w2) = (if stale then sw_clock wld w1 else (now, w1));
          (started_at, w3) = sw_clock wld w2;
          (outcome, db) = claim_occurrence spec key scheduled_at now timed_out_at started_at (ss_db s)
      in (outcome, \<lparr>ss_db = db, ss_world = (if outcome = Granted then w3 else w1)\<rparr>))"

definition run_due ::
  "'w sched_world \<Rightarrow> schedule_spec \<Rightarrow> instant \<Rightarrow> 'w sched_state \<Rightarrow> tick_occurrence \<times> 'w sched_state" where
  "run_due wld spec at s =
     (let scheduled_at = sw_iso wld (sc_timezone spec) at;
          key = sw_sha wld (sc_definition_key spec @ '':'' @ scheduled_at);
          (outcome, s1) = claim_now wld spec key scheduled_at s;
          (res, s2) = (if outcome = Granted then run_claimed wld spec key s1 else (ClaimRefused outcome, s1))
      in (\<lparr>to_key = key, to_alias = sc_alias spec, to_scheduled_at = scheduled_at, to_outcome = res\<rparr>, s2))"

definition tick_due ::
  "'w sched_world \<Rightarrow> schedule_spec \<Rightarrow> instant option \<Rightarrow> 'w sched_state \<Rightarrow> tick_occurrence list \<times> 'w sched_state" where
  "tick_due wld spec due s =
     (case due of
        None \<Rightarrow> ([], s)
      | Some at \<Rightarrow> if \<not> sc_enabled spec then ([], s)
                   else (case run_due wld spec at s of (occ, s') \<Rightarrow> ([occ], s')))"

definition tick_spec ::
  "'w sched_world \<Rightarrow> instant \<Rightarrow> schedule_spec \<Rightarrow> 'w sched_state \<Rightarrow> (tick_occurrence list \<times> 'w sched_state) result" where
  "tick_spec wld current spec s =
     res_bind (due_occurrence (sw_local wld (sc_timezone spec)) (sc_cron spec) (sc_misfire spec)
         (map_option sr_last_checked (map_of (db_schedules (ss_db s)) (sc_definition_key spec))) current)
       (\<lambda>due. Inr (tick_due wld spec due (s\<lparr>ss_db := upsert_schedule_state spec current (ss_db s)\<rparr>)))"

fun tick_specs ::
  "'w sched_world \<Rightarrow> instant \<Rightarrow> schedule_spec list \<Rightarrow> 'w sched_state
   \<Rightarrow> (tick_occurrence list \<times> 'w sched_state) result" where
  "tick_specs wld current [] s = Inr ([], s)"
| "tick_specs wld current (spec # specs) s =
     res_bind (tick_spec wld current spec s) (\<lambda>(os, s1).
     res_bind (tick_specs wld current specs s1) (\<lambda>(os', s2). Inr (os @ os', s2)))"

record tick_result =
  tk_ok :: bool
  tk_busy :: bool
  tk_count :: nat
  tk_occurrences :: "tick_occurrence list"

definition occurrence_ok :: "tick_occurrence \<Rightarrow> bool" where
  "occurrence_ok o' = (case to_outcome o' of Ran st _ _ \<Rightarrow> st \<noteq> FailedRun | _ \<Rightarrow> True)"

text \<open>\<open>locked\<close>: another process holds the runner lock. The time is cut to its minute.\<close>

definition tick_schedules ::
  "'w sched_world \<Rightarrow> bool \<Rightarrow> schedule_spec list \<Rightarrow> instant \<Rightarrow> 'w sched_state \<Rightarrow> (tick_result \<times> 'w sched_state) result" where
  "tick_schedules wld locked specs now s =
     (let current = now - now mod MINUTE in
      if locked then Inr (\<lparr>tk_ok = True, tk_busy = True, tk_count = length specs, tk_occurrences = []\<rparr>, s)
      else res_bind (tick_specs wld current specs s) (\<lambda>(os, s').
             Inr (\<lparr>tk_ok = list_all occurrence_ok os, tk_busy = False, tk_count = length specs,
                   tk_occurrences = os\<rparr>, s')))"

section \<open>The executor of a target\<close>

datatype scheduled_runner = ChainRunner | SourceRunner | CalculatedFactRunner | CsvRunner | PipelineRunner

definition scheduled_runner :: "string \<Rightarrow> string \<Rightarrow> scheduled_runner result" where
  "scheduled_runner kind code =
     (if kind = ''chain'' then Inr ChainRunner
      else if code = ''0101'' then Inr SourceRunner
      else if code = ''0102'' then Inr CalculatedFactRunner
      else if code = ''0103'' then Inr CsvRunner
      else if code \<in> set [''0201'', ''0301'', ''0401''] then Inr PipelineRunner
      else Inl (ValidationError ''schedule.unsupported_asset''))"

text \<open>\<open>run\<close> runs a definition and returns the result's dictionary with its count of failed tasks.\<close>

definition execute_schedule_target ::
  "schedule_files \<Rightarrow> (scheduled_runner \<Rightarrow> string \<Rightarrow> 'w \<Rightarrow> (pydict \<times> int) result \<times> 'w)
   \<Rightarrow> schedule_target \<Rightarrow> schedule_spec \<Rightarrow> 'w \<Rightarrow> pydict result \<times> 'w" where
  "execute_schedule_target files run t spec w =
     (case scheduled_runner (tg_kind t)
             (target_asset_code (tg_definition t) (sf_document files (tg_definition t))) of
        Inl e \<Rightarrow> (Inl e, w)
      | Inr r \<Rightarrow>
          (case run r (tg_definition t) w of
             (Inl e, w') \<Rightarrow> (Inl e, w')
           | (Inr (payload, errors), w') \<Rightarrow>
               (Inr (if r = SourceRunner then dict_put ''ok'' (VBool (errors = 0)) payload else payload), w')))"

section \<open>The steps of the database\<close>

text \<open>
  What a runner may do to the database, one transaction at a time. A runner that is killed stops
  between two steps, so every state a crash leaves behind is reached by such steps too.
\<close>

inductive db_step :: "sched_db \<Rightarrow> sched_db \<Rightarrow> bool" where
  Checked: "db_step db (upsert_schedule_state spec at db)"
| Claimed: "claim_occurrence spec key sched now t1 t2 db = (Granted, db') \<Longrightarrow> db_step db db'"
| TargetDone: "db_step db (write_target_result key r db)"
| Finished: "status \<in> {Succeeded, FailedRun} \<Longrightarrow> db_step db (finish_occurrence key status err at db)"

inductive_cases db_stepE [elim]: "db_step db db'"

abbreviation db_steps :: "sched_db \<Rightarrow> sched_db \<Rightarrow> bool" where
  "db_steps \<equiv> db_step\<^sup>*\<^sup>*"

definition occ_keys :: "sched_db \<Rightarrow> string list" where
  "occ_keys db = map fst (db_occurrences db)"

named_theorems db_simps "what the statements of the scheduler do to the occurrences table"

lemma occurrences_frame [db_simps]:
  "db_occurrences (upsert_schedule_state spec at db) = db_occurrences db"
  "db_occurrences (write_target_result key r db) = db_occurrences db"
  by (simp_all add: upsert_schedule_state_def write_target_result_def)

lemma occ_keys_simps [db_simps]:
  "occ_keys (update_occurrence key f db) = occ_keys db"
  "occ_keys (insert_occurrence spec key sched at db) = occ_keys db @ [key]"
  by (simp_all add: occ_keys_def update_occurrence_def insert_occurrence_def case_prod_beta)

lemma occ_keys_frame [db_simps]:
  "occ_keys (upsert_schedule_state spec at db) = occ_keys db"
  "occ_keys (write_target_result key r db) = occ_keys db"
  "occ_keys (time_out key at db) = occ_keys db"
  "occ_keys (finish_occurrence key st err at db) = occ_keys db"
  by (simp_all add: occ_keys_def [of "upsert_schedule_state _ _ _"] occ_keys_def [of "write_target_result _ _ _"]
      occurrences_frame occ_keys_simps time_out_def finish_occurrence_def) (simp_all add: occ_keys_def)

lemma running_frame [db_simps]:
  "running_rows def (upsert_schedule_state spec at db) = running_rows def db"
  "running_rows def (write_target_result key r db) = running_rows def db"
  by (simp_all add: running_rows_def occurrences_frame)

lemma running_insert [db_simps]:
  "length (running_rows def (insert_occurrence spec key sched at db)) =
     length (running_rows def db) + (if def = sc_definition_key spec then 1 else 0)"
  by (simp add: running_rows_def insert_occurrence_def)

text \<open>An update to a status that is not running can only end runs.\<close>

lemma running_update:
  assumes "\<And>r. or_status (f r) \<noteq> Running" and "\<And>r. or_definition (f r) = or_definition r"
  shows "running_rows def (update_occurrence key f db) = filter (\<lambda>p. fst p \<noteq> key) (running_rows def db)"
proof -
  have "filter (\<lambda>(k, r). or_definition r = def \<and> or_status r = Running)
          (map (\<lambda>(k, r). (k, if k = key then f r else r)) xs)
      = filter (\<lambda>p. fst p \<noteq> key) (filter (\<lambda>(k, r). or_definition r = def \<and> or_status r = Running) xs)" for xs
    using assms by (induction xs) auto
  then show ?thesis by (simp add: running_rows_def update_occurrence_def)
qed

lemma running_time_out [db_simps]:
  "running_rows def (time_out key at db) = filter (\<lambda>p. fst p \<noteq> key) (running_rows def db)"
  unfolding time_out_def by (rule running_update) simp_all

lemma running_finish [db_simps]:
  "status \<noteq> Running \<Longrightarrow>
     running_rows def (finish_occurrence key status err at db) = filter (\<lambda>p. fst p \<noteq> key) (running_rows def db)"
  unfolding finish_occurrence_def by (rule running_update) simp_all

lemma latest_running_cases:
  "latest_running def db = None \<Longrightarrow> running_rows def db = []"
  "latest_running def db = Some p \<Longrightarrow> p \<in> set (running_rows def db)"
proof -
  let ?s = "sort_key (or_started \<circ> snd) (running_rows def db)"
  have s: "set ?s = set (running_rows def db)" by simp
  { assume "latest_running def db = None"
    then have "?s = []" by (simp add: latest_running_def split: list.splits)
    with s show "running_rows def db = []" by (metis set_empty) }
  { assume p: "latest_running def db = Some p"
    then have "?s \<noteq> []" and "p = last ?s" by (auto simp: latest_running_def split: list.splits)
    then have "p \<in> set ?s" by (metis last_in_set)
    with s show "p \<in> set (running_rows def db)" by simp }
qed

definition occurrences_inv :: "sched_db \<Rightarrow> bool" where
  "occurrences_inv db = (distinct (occ_keys db) \<and> (\<forall>def. length (running_rows def db) \<le> 1))"

lemma claim_granted:
  assumes "claim_occurrence spec key sched now t1 t2 db = (Granted, db')"
  shows "key \<notin> set (occ_keys db)" and "occ_keys db' = occ_keys db @ [key]"
    and "length (running_rows def db) \<le> 1 \<Longrightarrow> length (running_rows def db') \<le> 1"
proof -
  from assms show new: "key \<notin> set (occ_keys db)"
    by (auto simp: claim_occurrence_def occ_keys_def map_of_eq_None_iff split: if_splits)
  from assms consider
      "latest_running (sc_definition_key spec) db = None" "db' = insert_occurrence spec key sched t2 db"
    | rk row where "latest_running (sc_definition_key spec) db = Some (rk, row)"
        "db' = insert_occurrence spec key sched t2 (time_out rk t1 db)"
    by (auto simp: claim_occurrence_def split: if_splits option.splits)
  note cases = this
  from cases show "occ_keys db' = occ_keys db @ [key]" by cases (simp_all add: db_simps)
  assume le: "length (running_rows def db) \<le> 1"
  from cases show "length (running_rows def db') \<le> 1"
  proof cases
    case 1
    with le show ?thesis by (auto simp: db_simps dest: latest_running_cases(1))
  next
    case 2
    show ?thesis
    proof (cases "def = sc_definition_key spec")
      case True
      then have "(rk, row) \<in> set (running_rows def db)" using latest_running_cases(2) [OF 2(1)] by simp
      with le have "running_rows def db = [(rk, row)]"
        by (cases "running_rows def db") auto
      with 2(2) True show ?thesis by (simp add: db_simps)
    next
      case False
      with le 2(2) show ?thesis by (simp add: db_simps) (metis le_trans length_filter_le One_nat_def)
    qed
  qed
qed

lemma db_step_inv: "db_step db db' \<Longrightarrow> occurrences_inv db \<Longrightarrow> occurrences_inv db'"
proof (induction rule: db_step.induct)
  case (Claimed spec key sched now t1 t2 db db')
  then show ?case using claim_granted [OF Claimed(1)] by (simp add: occurrences_inv_def)
next
  case (Finished status db key err at)
  then have "status \<noteq> Running" by auto
  with Finished(2) show ?case
    by (auto simp: occurrences_inv_def db_simps intro: le_trans [OF length_filter_le])
qed (simp_all add: occurrences_inv_def db_simps)

lemma db_step_keys: "db_step db db' \<Longrightarrow> set (occ_keys db) \<subseteq> set (occ_keys db')"
  by (induction rule: db_step.induct) (auto simp: db_simps claim_granted)

lemma db_steps_keys: "db_steps db db' \<Longrightarrow> set (occ_keys db) \<subseteq> set (occ_keys db')"
  by (induction rule: rtranclp_induct) (auto dest: db_step_keys)

lemma db_steps_inv: "db_steps db db' \<Longrightarrow> occurrences_inv db \<Longrightarrow> occurrences_inv db'"
  by (induction rule: rtranclp_induct) (auto dest: db_step_inv)

text \<open>
  C31: Whatever runners do and wherever they are killed, the occurrence keys of the database stay
  unique and no definition has more than one occurrence that is recorded as running.
\<close>

theorem one_running_occurrence:
  assumes "db_steps empty_db db"
  shows "distinct (occ_keys db) \<and> length (running_rows def db) \<le> 1"
proof -
  have "occurrences_inv empty_db" by (simp add: occurrences_inv_def occ_keys_def running_rows_def empty_db_def)
  with db_steps_inv [OF assms] show ?thesis by (simp add: occurrences_inv_def)
qed

text \<open>
  C30: An occurrence is run at most once: once a runner was granted it, every later claim of the
  same occurrence is refused as a duplicate, also after a crash of the runner.
\<close>

theorem occurrence_runs_once:
  assumes "claim_occurrence spec key sched now t1 t2 db = (Granted, db1)" and "db_steps db1 db2"
  shows "claim_occurrence spec' key sched' now' t1' t2' db2 = (Duplicate, db2)"
proof -
  have "key \<in> set (occ_keys db2)" using claim_granted(2) [OF assms(1)] db_steps_keys [OF assms(2)] by auto
  then have "map_of (db_occurrences db2) key \<noteq> None" by (simp add: occ_keys_def map_of_eq_None_iff)
  then show ?thesis by (simp add: claim_occurrence_def)
qed

section \<open>A tick consists of such steps\<close>

lemma run_targets_steps:
  "run_targets wld spec key i blocked ts s = (rs, s') \<Longrightarrow> db_steps (ss_db s) (ss_db s')"
proof (induction wld spec key i blocked ts s arbitrary: rs s' rule: run_targets.induct)
  case (2 wld spec key i blocked t ts s)
  obtain r w where rw: "(if blocked then (blocked_target i t, ss_world s) else run_target wld spec i t (ss_world s))
      = (r, w)" by force
  let ?s1 = "\<lparr>ss_db = write_target_result key r (ss_db s), ss_world = w\<rparr>"
  obtain rs1 s1 where rest: "run_targets wld spec key (Suc i) (blocked \<or> tr_status r = TargetFailed) ts ?s1 = (rs1, s1)"
    by force
  with 2(2) rw have "s' = s1" by simp
  moreover have "db_steps (ss_db ?s1) (ss_db s1)" using 2(1) [OF rw [symmetric] refl rest] .
  moreover have "db_step (ss_db s) (ss_db ?s1)" by (simp add: db_step.TargetDone)
  ultimately show ?case by (metis converse_rtranclp_into_rtranclp)
qed simp

lemma run_claimed_steps:
  assumes "run_claimed wld spec key s = (res, s')"
  shows "db_steps (ss_db s) (ss_db s')"
proof -
  obtain rs s1 where rs: "run_targets wld spec key 0 False (sc_targets spec) s = (rs, s1)" by force
  with assms obtain st err at where "ss_db s' = finish_occurrence key st err at (ss_db s1)"
    "st \<in> {Succeeded, FailedRun}"
    by (auto simp: run_claimed_def Let_def split: prod.splits)
  then have "db_step (ss_db s1) (ss_db s')" by (simp only: db_step.Finished)
  with run_targets_steps [OF rs] show ?thesis by (rule rtranclp.rtrancl_into_rtrancl)
qed

lemma claim_now_steps:
  assumes "claim_now wld spec key sched s = (c, s')"
  shows "db_steps (ss_db s) (ss_db s')"
proof -
  from assms obtain now t1 t2 db where "claim_occurrence spec key sched now t1 t2 (ss_db s) = (c, db)"
    and db: "ss_db s' = db" by (auto simp: claim_now_def Let_def split: prod.splits)
  moreover have "c = Granted \<or> db = ss_db s"
    using calculation by (auto simp: claim_occurrence_def split: if_splits option.splits)
  ultimately show ?thesis by (auto intro: db_step.Claimed)
qed

lemma run_due_steps:
  assumes "run_due wld spec at s = (occ, s')"
  shows "db_steps (ss_db s) (ss_db s')"
proof -
  obtain sched key c s1 where claim: "claim_now wld spec key sched s = (c, s1)"
    and rest: "s' = s1 \<or> (\<exists>res. run_claimed wld spec key s1 = (res, s'))"
    using assms by (simp add: run_due_def Let_def split: prod.splits if_splits)
  from rest have "db_steps (ss_db s1) (ss_db s')" by (auto dest: run_claimed_steps)
  with claim_now_steps [OF claim] show ?thesis by (rule rtranclp_trans)
qed

lemma tick_due_steps:
  "tick_due wld spec due s = (os, s') \<Longrightarrow> db_steps (ss_db s) (ss_db s')"
  by (auto simp: tick_due_def split: option.splits if_splits prod.splits dest: run_due_steps)

lemma tick_spec_steps:
  assumes "tick_spec wld current spec s = Inr (os, s')"
  shows "db_steps (ss_db s) (ss_db s')"
proof -
  let ?s1 = "s\<lparr>ss_db := upsert_schedule_state spec current (ss_db s)\<rparr>"
  have "db_step (ss_db s) (ss_db ?s1)" by (simp add: db_step.Checked)
  moreover obtain due where "tick_due wld spec due ?s1 = (os, s')"
    using assms by (auto simp: tick_spec_def res_simps)
  then have "db_steps (ss_db ?s1) (ss_db s')" by (rule tick_due_steps)
  ultimately show ?thesis by (rule converse_rtranclp_into_rtranclp)
qed

lemma tick_specs_steps:
  "tick_specs wld current specs s = Inr (os, s') \<Longrightarrow> db_steps (ss_db s) (ss_db s')"
proof (induction wld current specs s arbitrary: os s' rule: tick_specs.induct)
  case (2 wld current spec specs s)
  then obtain os1 s1 os2 where "tick_spec wld current spec s = Inr (os1, s1)"
    and rest: "tick_specs wld current specs s1 = Inr (os2, s')" by (auto simp: res_simps)
  with 2(1) [OF _ refl rest] tick_spec_steps show ?case by (metis rtranclp_trans)
qed simp

text \<open>
  C32: A tick changes the database only by the transactions of the step relation, and a tick that
  finds the runner lock taken changes nothing.
\<close>

theorem tick_is_db_steps:
  assumes "tick_schedules wld locked specs now s = Inr (res, s')"
  shows "db_steps (ss_db s) (ss_db s') \<and> (locked \<longrightarrow> s' = s \<and> tk_busy res)"
  using assms by (auto simp: tick_schedules_def Let_def res_simps split: if_splits dest: tick_specs_steps)

section \<open>Sequential targets\<close>

lemma run_target_not_blocked: "run_target wld spec i t w = (r, w') \<Longrightarrow> tr_status r \<noteq> TargetBlocked"
  by (auto simp: run_target_def target_row_def target_outcome_def split: prod.splits sum.splits if_splits)

lemma run_target_index: "run_target wld spec i t w = (r, w') \<Longrightarrow> tr_index r = i \<and> tr_alias r = tg_alias t"
  by (auto simp: run_target_def target_row_def split: prod.splits)

lemma run_targets_blocked:
  "run_targets wld spec key i True ts s = (rs, s') \<Longrightarrow>
     map tr_status rs = replicate (length ts) TargetBlocked \<and> ss_world s' = ss_world s"
  by (induction ts arbitrary: i s rs s')
    (auto simp: blocked_target_def target_row_def Let_def split: prod.splits)

lemma run_targets_rows:
  "run_targets wld spec key i blocked ts s = (rs, s') \<Longrightarrow>
     map tr_index rs = [i..<i + length ts] \<and> map tr_alias rs = map tg_alias ts"
proof (induction wld spec key i blocked ts s arbitrary: rs s' rule: run_targets.induct)
  case (2 wld spec key i blocked t ts s)
  obtain r w where rw: "(if blocked then (blocked_target i t, ss_world s) else run_target wld spec i t (ss_world s))
      = (r, w)" by force
  let ?s1 = "\<lparr>ss_db = write_target_result key r (ss_db s), ss_world = w\<rparr>"
  obtain rs1 s1 where rest: "run_targets wld spec key (Suc i) (blocked \<or> tr_status r = TargetFailed) ts ?s1 = (rs1, s1)"
    by force
  have "tr_index r = i \<and> tr_alias r = tg_alias t"
    using rw by (cases blocked) (auto simp: blocked_target_def target_row_def dest: run_target_index)
  moreover have "rs = r # rs1" using 2(2) rw rest by simp
  ultimately show ?case using 2(1) [OF rw [symmetric] refl rest] by (simp add: upt_conv_Cons del: upt_Suc)
qed simp

lemma run_targets_shape:
  "run_targets wld spec key i False ts s = (rs, s') \<Longrightarrow>
     \<exists>k \<le> length ts. map tr_status rs = replicate k TargetSuccess @
       (if k = length ts then [] else TargetFailed # replicate (length ts - Suc k) TargetBlocked)"
proof (induction ts arbitrary: i s rs s')
  case (Cons t ts)
  obtain r w where r: "run_target wld spec i t (ss_world s) = (r, w)" by force
  let ?s1 = "\<lparr>ss_db = write_target_result key r (ss_db s), ss_world = w\<rparr>"
  obtain rs1 where rest: "run_targets wld spec key (Suc i) (tr_status r = TargetFailed) ts ?s1 = (rs1, s')"
    and rs: "rs = r # rs1" using Cons.prems r by (auto split: prod.splits)
  show ?case
  proof (cases "tr_status r = TargetFailed")
    case True
    with rest have "map tr_status rs1 = replicate (length ts) TargetBlocked"
      by (auto dest: run_targets_blocked)
    with True rs show ?thesis by (intro exI [of _ 0]) simp
  next
    case False
    with run_target_not_blocked [OF r] have "tr_status r = TargetSuccess" by (cases "tr_status r") auto
    moreover from False rest have "run_targets wld spec key (Suc i) False ts ?s1 = (rs1, s')" by simp
    then obtain k where "k \<le> length ts" "map tr_status rs1 = replicate k TargetSuccess @
       (if k = length ts then [] else TargetFailed # replicate (length ts - Suc k) TargetBlocked)"
      using Cons.IH by blast
    ultimately show ?thesis using rs by (intro exI [of _ "Suc k"]) auto
  qed
qed simp

lemma first_failure_status:
  assumes "map tr_status rs = replicate k TargetSuccess @ zs"
  shows "first_failure rs = None \<longleftrightarrow> TargetFailed \<notin> set zs"
proof -
  have "first_failure rs = None \<longleftrightarrow> TargetFailed \<notin> set (map tr_status rs)"
    unfolding first_failure_def find_None_iff set_map by (metis (mono_tags, lifting) image_iff)
  then show ?thesis unfolding assms by auto
qed


section \<open>A loaded schedule never makes a tick fail\<close>

definition cron_parses :: "string \<Rightarrow> bool" where
  "cron_parses expression = (\<exists>c. parse_cron expression = Inr c)"

lemma cron_matches_total: "cron_parses cron \<Longrightarrow> \<exists>b. cron_matches cron t = Inr b"
  by (auto simp: cron_parses_def cron_matches_def Let_def)

lemma latest_match_total:
  "(\<And>t. \<exists>b. matches t = Inr b) \<Longrightarrow> \<exists>r. latest_match matches start current latest = Inr r"
proof (induction matches start current latest rule: latest_match.induct)
  case (1 matches start current latest)
  obtain b where "matches start = Inr b" using 1(2) by blast
  with 1 show ?case by (subst latest_match.simps) auto
qed

lemma due_total: "cron_parses cron \<Longrightarrow> \<exists>r. due_occurrence local cron misfire last_checked current = Inr r"
proof -
  assume p: "cron_parses cron"
  then obtain b where "cron_matches cron (local current) = Inr b" using cron_matches_total by blast
  moreover obtain r where "latest_match (\<lambda>t. cron_matches cron (local t))
      (max (the last_checked + MINUTE) (current - MAX_CATCH_UP_MINUTES * MINUTE)) current None = Inr r"
    using latest_match_total [of "\<lambda>t. cron_matches cron (local t)"] cron_matches_total [OF p] by blast
  ultimately show ?thesis by (cases last_checked) (auto simp: due_occurrence_def)
qed

lemma tick_specs_total:
  "list_all (\<lambda>spec. cron_parses (sc_cron spec)) specs \<Longrightarrow> \<exists>os s'. tick_specs wld current specs s = Inr (os, s')"
proof (induction specs arbitrary: s)
  case (Cons spec specs)
  from Cons.prems have "cron_parses (sc_cron spec)" by simp
  from due_total [OF this] obtain due where due: "due_occurrence (sw_local wld (sc_timezone spec)) (sc_cron spec)
      (sc_misfire spec) (map_option sr_last_checked (map_of (db_schedules (ss_db s)) (sc_definition_key spec)))
      current = Inr due" by blast
  obtain os s1 where "tick_due wld spec due (s\<lparr>ss_db := upsert_schedule_state spec current (ss_db s)\<rparr>) = (os, s1)"
    by force
  then have "tick_spec wld current spec s = Inr (os, s1)" by (simp add: tick_spec_def due)
  moreover obtain os' s2 where "tick_specs wld current specs s1 = Inr (os', s2)"
    using Cons.IH [of s1] Cons.prems by auto
  ultimately show ?case by simp
qed simp

lemma load_schedule_spec_cron: "load_schedule_spec files path = Inr spec \<Longrightarrow> cron_parses (sc_cron spec)"
  unfolding load_schedule_spec_def Let_def raise_if_eq_Inr
  by (elim conjE) (clarsimp simp only: res_bind_eq_Inr raise_if_eq_Inr split_paired_all case_prod_conv
      split_paired_Ex cron_parses_def, auto simp: cron_parses_def)

lemma load_directory_crons:
  assumes "load_schedule_directory files listing = Inr specs"
  shows "list_all (\<lambda>spec. cron_parses (sc_cron spec)) specs"
proof -
  from assms obtain paths where "res_map (load_schedule_spec files) paths = Inr specs"
    by (auto simp: load_schedule_directory_def Let_def res_simps split: option.splits)
  then have "\<exists>path. load_schedule_spec files path = Inr spec" if "spec \<in> set specs" for spec
    using that by (blast dest: res_map_output)
  then show ?thesis by (auto simp: list_all_iff dest: load_schedule_spec_cron)
qed


section \<open>A concrete schedule\<close>

definition sample_schedule_files :: schedule_files where
  "sample_schedule_files =
     \<lparr>sf_resolve = id, sf_is_file = (\<lambda>_. True), sf_document = map_of
        [(''hourly.schedule.yaml'', VDict
           [(''yaml'', VDict [(''schema_version'', VStr SCHEDULE_SCHEMA_VERSION)]),
            (''schedule'', VDict [(''alias'', VStr ''hourly''), (''timezone'', VStr ''UTC''),
               (''cron'', VStr ''0 * * * *'')]),
            (''targets'', VList
              [VDict [(''alias'', VStr ''load''), (''kind'', VStr ''asset''), (''definition'', VStr ''a.0101.yaml'')],
               VDict [(''alias'', VStr ''view''), (''kind'', VStr ''asset''), (''definition'', VStr ''b.0201.yaml'')]])])],
      sf_zone_known = (\<lambda>_. True), sf_sha = id, sf_json = (\<lambda>_. ''json'')\<rparr>"

definition sample_schedule_target :: "string \<Rightarrow> string \<Rightarrow> schedule_target" where
  "sample_schedule_target alias path =
     \<lparr>tg_alias = alias, tg_kind = ''asset'', tg_definition = path, tg_key = ''json''\<rparr>"

definition sample_schedule :: schedule_spec where
  "sample_schedule =
     \<lparr>sc_alias = ''hourly'', sc_yaml_path = ''hourly.schedule.yaml'',
      sc_definition_key = ''hourly.schedule.yaml'', sc_revision = ''json'', sc_enabled = True,
      sc_timezone = ''UTC'', sc_cron = ''0 * * * *'',
      sc_targets = [sample_schedule_target ''load'' ''a.0101.yaml'', sample_schedule_target ''view'' ''b.0201.yaml''],
      sc_misfire = ''catch_up_once'', sc_timeout_minutes = 180\<rparr>"

text \<open>A clock that advances by a second at each reading; the first target fails.\<close>

definition sample_sched_world :: "int sched_world" where
  "sample_sched_world =
     \<lparr>sw_clock = (\<lambda>w. (w, w + 1000000)),
      sw_execute = (\<lambda>t spec w. (Inr [(''ok'', VBool (tg_alias t \<noteq> ''load''))], w)),
      sw_local = (\<lambda>_. utc_minute_of_hour), sw_iso = (\<lambda>tz t. int_str (t div MINUTE)), sw_sha = id\<rparr>"

definition sample_start :: "int sched_state" where
  "sample_start = \<lparr>ss_db = empty_db, ss_world = 60 * MINUTE\<rparr>"

lemma sample_directory_loads:
  "load_schedule_directory sample_schedule_files (Some [''hourly.schedule.yaml'']) = Inr [sample_schedule]"
  by code_simp


definition sample_after :: "int sched_state" where
  "sample_after =
     (case tick_schedules sample_sched_world False [sample_schedule] (60 * MINUTE) sample_start of
        Inr (_, s) \<Rightarrow> s | Inl _ \<Rightarrow> sample_start)"

lemma sample_tick:
  "\<exists>res. tick_schedules sample_sched_world False [sample_schedule] (60 * MINUTE) sample_start = Inr (res, sample_after) \<and>
     \<not> tk_ok res \<and> \<not> tk_busy res"
proof -
  have "case tick_schedules sample_sched_world False [sample_schedule] (60 * MINUTE) sample_start of
      Inl _ \<Rightarrow> False | Inr (res, s) \<Rightarrow> \<not> tk_ok res \<and> \<not> tk_busy res" by code_simp
  then show ?thesis unfolding sample_after_def
    by (cases "tick_schedules sample_sched_world False [sample_schedule] (60 * MINUTE) sample_start")
      (auto split: prod.splits)
qed

theorem tick_is_db_steps_witness:
  "db_steps empty_db (ss_db sample_after) \<and> occ_keys (ss_db sample_after) = [''hourly.schedule.yaml:60'']"
proof -
  obtain res where "tick_schedules sample_sched_world False [sample_schedule] (60 * MINUTE) sample_start
      = Inr (res, sample_after)" using sample_tick by (elim exE conjE)
  from tick_is_db_steps [OF this] have "db_steps empty_db (ss_db sample_after)"
    by (simp add: sample_start_def)
  moreover have "occ_keys (ss_db sample_after) = [''hourly.schedule.yaml:60'']" by code_simp
  ultimately show ?thesis by (rule conjI)
qed

definition sample_running :: sched_db where
  "sample_running = insert_occurrence sample_schedule ''first'' ''t'' 0 empty_db"

lemma sample_running_reached: "db_steps empty_db sample_running"
proof -
  have "claim_occurrence sample_schedule ''first'' ''t'' 0 0 0 empty_db = (Granted, sample_running)" by code_simp
  then show ?thesis by (blast intro: db_step.Claimed)
qed

theorem one_running_occurrence_witness:
  "distinct (occ_keys sample_running) \<and> length (running_rows (sc_definition_key sample_schedule) sample_running) \<le> 1"
  by (rule one_running_occurrence [OF sample_running_reached])

theorem occurrence_runs_once_witness:
  "claim_occurrence sample_schedule ''first'' ''t'' (300 * MINUTE) 0 0 (finish_occurrence ''first'' Succeeded None 9 sample_running)
     = (Duplicate, finish_occurrence ''first'' Succeeded None 9 sample_running)"
proof -
  have "claim_occurrence sample_schedule ''first'' ''t'' 0 0 0 empty_db = (Granted, sample_running)" by code_simp
  moreover have "db_steps sample_running (finish_occurrence ''first'' Succeeded None 9 sample_running)"
    by (intro r_into_rtranclp db_step.Finished) simp
  ultimately show ?thesis by (rule occurrence_runs_once)
qed


text \<open>
  After a runner was killed the due occurrences of the timeout are refused as busy, and since the
  check time has moved on they are not due any more at the next tick.
\<close>

lemma busy_occurrence_is_lost:
  "case tick_schedules sample_sched_world False [sample_schedule] (60 * MINUTE)
      \<lparr>ss_db = sample_running, ss_world = 60 * MINUTE\<rparr> of
     Inl _ \<Rightarrow> False
   | Inr (res, s) \<Rightarrow>
       map to_outcome (tk_occurrences res) = [ClaimRefused RuntimeBusy] \<and>
       (case tick_schedules sample_sched_world False [sample_schedule] (61 * MINUTE)
          (s\<lparr>ss_db := finish_occurrence ''first'' Succeeded None 0 (ss_db s)\<rparr>) of
          Inl _ \<Rightarrow> False | Inr (res2, s2) \<Rightarrow> tk_occurrences res2 = [])"
  by code_simp

end
