(* ===== verification/SpotfireAst.thy ===== *)
theory SpotfireAst
  imports PyValue
begin

text \<open>
  \<open>spotfire_expr_normalizer/ast.py\<close> and \<open>tokenizer.py\<close>: the expression trees with their
  dictionary form and their rendering as Spotfire text, and the tokens of such a text. A token's
  position is used only in error messages and is not kept.
\<close>

section \<open>Expression trees\<close>

text \<open>A window's order is a list of expression, direction and placement of nulls.\<close>

datatype expr =
    Column string
  | Literal string pyval
  | Unary string expr
  | Binary string expr expr
  | Call string "expr list"
  | Case "(expr \<times> expr) list" expr
  | Cast expr string
  | Window expr "expr list" "(expr \<times> string \<times> string) list" "pydict option"
  | Alias string expr

fun expr_to_dict :: "expr \<Rightarrow> pyval" where
  "expr_to_dict (Column n) = VDict [(''kind'', VStr ''column''), (''name'', VStr n)]"
| "expr_to_dict (Literal d v) = VDict [(''kind'', VStr ''literal''), (''dtype'', VStr d), (''value'', v)]"
| "expr_to_dict (Unary op e) =
     VDict [(''kind'', VStr ''unary''), (''operator'', VStr op), (''operand'', expr_to_dict e)]"
| "expr_to_dict (Binary op l r) =
     VDict [(''kind'', VStr ''binary''), (''operator'', VStr op), (''left'', expr_to_dict l),
            (''right'', expr_to_dict r)]"
| "expr_to_dict (Call f args) =
     VDict [(''kind'', VStr ''call''), (''function'', VStr f), (''arguments'', VList (map expr_to_dict args))]"
| "expr_to_dict (Case branches other) =
     VDict [(''kind'', VStr ''case''),
            (''branches'', VList (map (\<lambda>b. VDict [(''when'', expr_to_dict (fst b)), (''then'', expr_to_dict (snd b))])
               branches)),
            (''otherwise'', expr_to_dict other)]"
| "expr_to_dict (Cast e t) =
     VDict [(''kind'', VStr ''cast''), (''expression'', expr_to_dict e), (''target_dtype'', VStr t)]"
| "expr_to_dict (Window e ps os frame) =
     VDict [(''kind'', VStr ''window''), (''expression'', expr_to_dict e),
            (''partition_by'', VList (map expr_to_dict ps)),
            (''order_by'', VList (map (\<lambda>item. VDict [(''expression'', expr_to_dict (fst item)),
               (''direction'', VStr (fst (snd item))), (''nulls'', VStr (snd (snd item)))]) os)),
            (''frame'', case frame of None \<Rightarrow> VNone | Some d \<Rightarrow> VDict d)]"
| "expr_to_dict (Alias n e) =
     VDict [(''kind'', VStr ''alias''), (''name'', VStr n), (''expression'', expr_to_dict e)]"

section \<open>Rendering\<close>

definition quote_doubled :: "string \<Rightarrow> string" where
  "quote_doubled s = concat (map (\<lambda>c. if c = CHR 0x22 then [c, c] else [c]) s)"

definition render_literal :: "string \<Rightarrow> pyval \<Rightarrow> string" where
  "render_literal dtype value =
     (if value = VNone then ''Null''
      else if dtype = ''bool'' then (if py_truthy value then ''True'' else ''False'')
      else if dtype = ''string'' then [CHR 0x22] @ quote_doubled (py_str value) @ [CHR 0x22]
      else py_str value)"

text \<open>The dictionary lookup \<open>{...}[node.operator]\<close> fails on any other operator.\<close>

definition unary_text :: "string \<Rightarrow> string option" where
  "unary_text = map_of [(''negate'', ''-''), (''positive'', ''+''), (''not'', ''Not '')]"

definition binary_text :: "string \<Rightarrow> string" where
  "binary_text op = (case map_of [(''contains'', ''~=''), (''concat'', ''&'')] op of None \<Rightarrow> op | Some t \<Rightarrow> t)"

definition cast_text :: "string \<Rightarrow> string" where
  "cast_text t =
     (case map_of [(''bool'', ''Boolean''), (''int32'', ''Integer''), (''int64'', ''LongInteger''),
                   (''float32'', ''SingleReal''), (''float64'', ''Real''), (''string'', ''String'')] t of
        None \<Rightarrow> ''Cast'' | Some f \<Rightarrow> f)"

fun render_spotfire :: "expr \<Rightarrow> string result" where
  "render_spotfire (Column n) = Inr (''['' @ n @ '']'')"
| "render_spotfire (Literal d v) = Inr (render_literal d v)"
| "render_spotfire (Unary op e) =
     (case unary_text op of
        None \<Rightarrow> Inl (KeyError op)
      | Some t \<Rightarrow> res_bind (render_spotfire e) (\<lambda>s. Inr (t @ ''('' @ s @ '')'')))"
| "render_spotfire (Binary op l r) =
     res_bind (render_spotfire l) (\<lambda>a. res_bind (render_spotfire r) (\<lambda>b.
       Inr (''('' @ a @ '' '' @ binary_text op @ '' '' @ b @ '')'')))"
| "render_spotfire (Call f args) =
     res_bind (res_map render_spotfire args) (\<lambda>ts. Inr (f @ ''('' @ join_with '', '' ts @ '')''))"
| "render_spotfire (Case branches other) =
     res_bind (res_map (\<lambda>b. res_bind (render_spotfire (fst b)) (\<lambda>c.
                            res_bind (render_spotfire (snd b)) (\<lambda>v. Inr (c, v)))) branches) (\<lambda>bs.
     res_bind (render_spotfire other) (\<lambda>e.
       Inr (case bs of
              [(c, v)] \<Rightarrow> ''If('' @ c @ '', '' @ v @ '', '' @ e @ '')''
            | _ \<Rightarrow> join_with '' '' ([''CASE''] @ map (\<lambda>(c, v). ''WHEN '' @ c @ '' THEN '' @ v) bs
                                     @ [''ELSE '' @ e @ '' END'']))))"
| "render_spotfire (Cast e t) = res_bind (render_spotfire e) (\<lambda>s. Inr (cast_text t @ ''('' @ s @ '')''))"
| "render_spotfire (Window e ps os frame) =
     res_bind (res_map render_spotfire ps) (\<lambda>ts. res_bind (render_spotfire e) (\<lambda>s.
       Inr (s @ '' OVER ('' @ join_with '', '' ts @ '')'')))"
| "render_spotfire (Alias n e) = render_spotfire e"

section \<open>Tokens\<close>

datatype token_kind = TColumn | TString | TNumber | TIdent | TOperator | TPunct | TEof

type_synonym token = "token_kind \<times> string"

text \<open>The text up to a closing character that is not doubled, and what follows it.\<close>

fun read_until :: "char \<Rightarrow> string \<Rightarrow> (string \<times> string) result" where
  "read_until q [] = Inl (ValueError ''unclosed'')"
| "read_until q [c] = (if c = q then Inr ([], []) else Inl (ValueError ''unclosed''))"
| "read_until q (c # d # cs) =
     (if c = q
      then (if d = q then res_bind (read_until q cs) (\<lambda>(v, r). Inr (q # v, r)) else Inr ([], d # cs))
      else res_bind (read_until q (d # cs)) (\<lambda>(v, r). Inr (c # v, r)))"

definition read_bracket_identifier :: "string \<Rightarrow> (string \<times> string) result" where
  "read_bracket_identifier s = read_until (CHR '']'') s"

definition read_string_literal :: "char \<Rightarrow> string \<Rightarrow> (string \<times> string) result" where
  "read_string_literal q s = read_until q s"

text \<open>The optional exponent of a number: its text and what follows.\<close>

definition match_exponent :: "string \<Rightarrow> string \<times> string" where
  "match_exponent s =
     (case s of
        e # r \<Rightarrow>
          if e = CHR ''e'' \<or> e = CHR ''E''
          then let (sign, body) = (case r of c # cs \<Rightarrow> if c = CHR ''+'' \<or> c = CHR ''-'' then ([c], cs) else ([], r)
                                   | [] \<Rightarrow> ([], []));
                   ds = takeWhile is_digit body
               in if ds = [] then ([], s) else (e # sign @ ds, dropWhile is_digit body)
          else ([], s)
      | [] \<Rightarrow> ([], []))"

definition match_mantissa :: "string \<Rightarrow> (string \<times> string) option" where
  "match_mantissa s =
     (let ds = takeWhile is_digit s; r = dropWhile is_digit s in
      case r of
        c # cs \<Rightarrow>
          if c = CHR ''.'' \<and> (ds \<noteq> [] \<or> takeWhile is_digit cs \<noteq> [])
          then Some (ds @ c # takeWhile is_digit cs, dropWhile is_digit cs)
          else if ds \<noteq> [] then Some (ds, r) else None
      | [] \<Rightarrow> if ds \<noteq> [] then Some (ds, []) else None)"

definition match_number :: "string \<Rightarrow> (string \<times> string) option" where
  "match_number s =
     (case match_mantissa s of
        None \<Rightarrow> None
      | Some (m, r) \<Rightarrow> (case match_exponent r of (e, r') \<Rightarrow> Some (m @ e, r')))"

definition is_ident_start :: "char \<Rightarrow> bool" where
  "is_ident_start c = (let n = code_point c in (65 \<le> n \<and> n \<le> 90) \<or> (97 \<le> n \<and> n \<le> 122) \<or> n = 95)"

definition is_ident_char :: "char \<Rightarrow> bool" where
  "is_ident_char c = (is_ident_start c \<or> is_digit c)"

definition two_char_operators :: "string list" where
  "two_char_operators = [''>='', ''<='', ''!='', ''<>'', ''~='']"

definition single_characters :: string where
  "single_characters = ''+-*/%=<>&(),''"

text \<open>One round of the loop: a token or nothing (white space, a comment), and the rest.\<close>

definition next_token :: "string \<Rightarrow> (token option \<times> string) result" where
  "next_token s =
     (let c = hd s in
      if py_isspace c then Inr (None, tl s)
      else if starts_with s ''//'' then Inr (None, tl (dropWhile (\<lambda>d. d \<noteq> CHR 0x0A) s))
      else if c = CHR ''['' then
        res_bind (read_bracket_identifier (tl s)) (\<lambda>(v, r). Inr (Some (TColumn, v), r))
      else if c = CHR 0x27 \<or> c = CHR 0x22 then
        res_bind (read_string_literal c (tl s)) (\<lambda>(v, r). Inr (Some (TString, v), r))
      else (case match_number s of
              Some (v, r) \<Rightarrow> Inr (Some (TNumber, v), r)
            | None \<Rightarrow>
                if is_ident_start c then Inr (Some (TIdent, takeWhile is_ident_char s), dropWhile is_ident_char s)
                else (case find (starts_with s) two_char_operators of
                        Some op \<Rightarrow> Inr (Some (TOperator, op), drop 2 s)
                      | None \<Rightarrow>
                          if c \<in> set single_characters
                          then Inr (Some (if c \<in> set ''(),'' then TPunct else TOperator, [c]), tl s)
                          else Inl (ValueError ''unsupported_token''))))"

lemma read_until_shorter: "read_until q s = Inr (v, r) \<Longrightarrow> length r < length s"
proof (induction q s arbitrary: v r rule: read_until.induct)
  case (3 q c d cs)
  then show ?case by (fastforce simp: res_simps split: if_splits)
qed (auto split: if_splits)

lemma length_tl_less: "xs \<noteq> [] \<Longrightarrow> length (tl xs) < length xs"
  by (cases xs) simp_all

lemma match_exponent_shorter: "match_exponent s = (e, r) \<Longrightarrow> length r \<le> length s"
  by (auto simp: match_exponent_def Let_def split: list.splits if_splits prod.splits
      intro: le_SucI order_trans [OF length_dropWhile_le])

lemma match_number_shorter:
  assumes "match_number s = Some (v, r)"
  shows "length r < length s"
proof -
  have drop_less: "takeWhile P t \<noteq> [] \<Longrightarrow> length (dropWhile P t) < length t" for P and t :: string
    using takeWhile_dropWhile_id [of P t] by (metis length_append length_greater_0_conv less_add_same_cancel2)
  from assms obtain m r1 e where m: "match_mantissa s = Some (m, r1)" and "match_exponent r1 = (e, r)"
    by (auto simp: match_number_def split: option.splits prod.splits)
  then have "length r \<le> length r1" using match_exponent_shorter by blast
  moreover have "length r1 < length s"
  proof (cases "dropWhile is_digit s")
    case Nil
    with m show ?thesis by (auto simp: match_mantissa_def Let_def split: if_splits)
  next
    case (Cons c cs)
    have "length (dropWhile is_digit cs) \<le> length cs" by (rule length_dropWhile_le)
    also have "\<dots> < length (dropWhile is_digit s)" using Cons by simp
    also have "\<dots> \<le> length s" by (rule length_dropWhile_le)
    finally have "length (dropWhile is_digit cs) < length s" .
    moreover note drop_less [of is_digit s]
    moreover have "r1 = dropWhile is_digit cs \<or> (r1 = dropWhile is_digit s \<and> takeWhile is_digit s \<noteq> [])"
      using m Cons by (auto simp: match_mantissa_def Let_def split: if_splits)
    ultimately show ?thesis by auto
  qed
  ultimately show ?thesis by simp
qed

lemma next_token_shorter:
  assumes "next_token s = Inr (t, r)" and "s \<noteq> []"
  shows "length r < length s"
proof -
  have drop: "length (dropWhile P (tl s)) < length s" for P
    using assms(2) length_dropWhile_le [of P "tl s"] by (cases s) auto
  have ident: "is_ident_start (hd s) \<Longrightarrow> length (dropWhile is_ident_char s) < length s"
    using assms(2) drop [of is_ident_char] by (cases s) (auto simp: is_ident_char_def)
  have comment: "starts_with s ''//'' \<Longrightarrow> length (tl (dropWhile (\<lambda>d. d \<noteq> CHR 0x0A) s)) < length s"
    using assms(2) length_dropWhile_le [of "\<lambda>d. d \<noteq> CHR 0x0A" s]
    by (cases s) (auto intro: le_less_trans [OF _ length_tl_less])
  show ?thesis
    using assms(1) length_tl_less [OF assms(2)] ident comment match_number_shorter [of s]
    unfolding next_token_def Let_def read_bracket_identifier_def read_string_literal_def
    by (auto simp: res_simps assms(2) split: if_splits option.splits
        dest!: read_until_shorter intro: less_trans)
qed

function tokenize_expression :: "string \<Rightarrow> token list result" where
  "tokenize_expression s =
     (if s = [] then Inr [(TEof, [])]
      else res_bind (next_token s) (\<lambda>(t, r).
           res_bind (tokenize_expression r) (\<lambda>ts.
             Inr (case t of None \<Rightarrow> ts | Some t \<Rightarrow> t # ts))))"
  by pat_completeness auto
termination
  by (relation "measure length") (auto dest: next_token_shorter)

declare tokenize_expression.simps [simp del]

end
