(* ===== verification/SpotfireParser.thy ===== *)
theory SpotfireParser
  imports SpotfireAst
begin

text \<open>
  \<open>spotfire_expr_normalizer/parser.py\<close>: the precedence climbing parser over the tokens that are
  left. Running past the last token is the IndexError it is in Python. Every call has a fuel
  argument; the fuel \<open>parse_expression\<close> starts with always suffices (\<open>parse_enough_fuel\<close>).
  \<open>fl\<close> stands for Python's \<open>float(text)\<close>, as the text \<open>repr\<close> prints for the float.
\<close>

section \<open>Tables\<close>

definition binary_precedence :: "string \<Rightarrow> nat option" where
  "binary_precedence =
     map_of [(''or'', 10), (''and'', 20), (''='', 30), (''!='', 30), (''<>'', 30), (''<'', 30), (''<='', 30),
             (''>'', 30), (''>='', 30), (''~='', 30), (''+'', 40), (''-'', 40), (''&'', 40), (''*'', 50),
             (''/'', 50), (''%'', 50)]"

definition canonical_binary :: "string \<Rightarrow> string" where
  "canonical_binary op =
     (case map_of [(''<>'', ''!=''), (''~='', ''contains''), (''&'', ''concat'')] op of
        None \<Rightarrow> op | Some t \<Rightarrow> t)"

definition cast_functions :: "string \<Rightarrow> string option" where
  "cast_functions =
     map_of [(''boolean'', ''bool''), (''integer'', ''int32''), (''longinteger'', ''int64''),
             (''single'', ''float32''), (''singlereal'', ''float32''), (''real'', ''float64''),
             (''decimal'', ''decimal128_38_10''), (''currency'', ''decimal128_38_10''),
             (''string'', ''string''), (''date'', ''date32''), (''datetime'', ''timestamp_us''),
             (''time'', ''time64_us''), (''timespan'', ''duration_us'')]"

definition cast_type_names :: "string \<Rightarrow> string option" where
  "cast_type_names =
     map_of [(''boolean'', ''bool''), (''integer'', ''int32''), (''bigint'', ''int64''),
             (''longinteger'', ''int64''), (''real'', ''float64''), (''double'', ''float64''),
             (''single'', ''float32''), (''singlereal'', ''float32''), (''string'', ''string''),
             (''varchar'', ''string''), (''date'', ''date32''), (''datetime'', ''timestamp_us''),
             (''timestamp'', ''timestamp_us''), (''time'', ''time64_us''), (''timespan'', ''duration_us''),
             (''decimal'', ''decimal128_38_10''), (''currency'', ''decimal128_38_10'')]"

section \<open>Tokens in hand\<close>

definition out_of_fuel :: py_error where
  "out_of_fuel = RuntimeError ''fuel''"

definition syntax_error :: py_error where
  "syntax_error = ValueError ''syntax''"

fun peek :: "token list \<Rightarrow> token result" where
  "peek [] = Inl (IndexError ''tokens'')"
| "peek (t # ts) = Inr t"

definition match_tok :: "string \<Rightarrow> token list \<Rightarrow> (bool \<times> token list) result" where
  "match_tok value ts =
     res_bind (peek ts) (\<lambda>t. Inr (if py_lower (snd t) = value then (True, tl ts) else (False, ts)))"

definition expect :: "string \<Rightarrow> token list \<Rightarrow> token list result" where
  "expect value ts =
     res_bind (match_tok value ts) (\<lambda>(ok, ts'). if ok then Inr ts' else Inl syntax_error)"

definition is_word :: "string \<Rightarrow> token \<Rightarrow> bool" where
  "is_word w t = (fst t = TIdent \<and> py_lower (snd t) = w)"

definition number_literal :: "(string \<Rightarrow> string) \<Rightarrow> string \<Rightarrow> expr" where
  "number_literal fl text =
     (if CHR ''.'' \<in> set (py_lower text) \<or> CHR ''e'' \<in> set (py_lower text)
      then Literal ''float64'' (VFloat (fl text)) else Literal ''int64'' (VInt (int (digits_val text))))"

definition cast_to :: "expr \<Rightarrow> string \<Rightarrow> expr result" where
  "cast_to e target = (case cast_type_names target of None \<Rightarrow> Inl syntax_error | Some t \<Rightarrow> Inr (Cast e t))"

definition call_node :: "string \<Rightarrow> expr list \<Rightarrow> expr" where
  "call_node lowered args =
     (if lowered = ''if'' \<and> length args = 3 then Case [(args ! 0, args ! 1)] (args ! 2)
      else if cast_functions lowered \<noteq> None \<and> length args = 1
           then Cast (args ! 0) (the (cast_functions lowered))
      else Call lowered args)"

text \<open>The direction and the placement of nulls of a window's order item.\<close>

definition order_options :: "token list \<Rightarrow> ((string \<times> string) \<times> token list) result" where
  "order_options ts =
     res_bind (peek ts) (\<lambda>t.
       let (direction, ts1) = (if is_word ''asc'' t \<or> is_word ''desc'' t then (py_lower (snd t), tl ts)
                               else (''asc'', ts))
       in res_bind (peek ts1) (\<lambda>t1.
          if is_word ''nulls'' t1
          then res_bind (peek (tl ts1)) (\<lambda>t2.
                 let nulls = py_lower (snd t2) in
                 if nulls = ''first'' \<or> nulls = ''last'' then Inr ((direction, nulls), tl (tl ts1))
                 else Inl syntax_error)
          else Inr ((direction, ''last''), ts1)))"

section \<open>The parser\<close>

text \<open>
  The loops take the expression parser \<open>pe\<close> they call (with the minimum precedence) and the
  number of rounds they may take, which is more than the tokens in hand.
\<close>

type_synonym expr_parser = "nat \<Rightarrow> token list \<Rightarrow> (expr \<times> token list) result"

fun climb :: "expr_parser \<Rightarrow> nat \<Rightarrow> nat \<Rightarrow> expr \<Rightarrow> token list \<Rightarrow> (expr \<times> token list) result" where
  "climb pe 0 prec l ts = Inl out_of_fuel"
| "climb pe (Suc n) prec l ts =
     res_bind (peek ts) (\<lambda>t.
       let op = py_lower (snd t) in
       case binary_precedence op of
         None \<Rightarrow> Inr (l, ts)
       | Some p \<Rightarrow>
           if p < prec then Inr (l, ts)
           else res_bind (pe (Suc p) (tl ts)) (\<lambda>(r, ts1).
                  climb pe n prec (Binary (canonical_binary op) l r) ts1))"

fun parse_whens :: "expr_parser \<Rightarrow> nat \<Rightarrow> token list \<Rightarrow> ((expr \<times> expr) list \<times> token list) result" where
  "parse_whens pe 0 ts = Inl out_of_fuel"
| "parse_whens pe (Suc n) ts =
     res_bind (match_tok ''when'' ts) (\<lambda>(ok, ts1).
       if \<not> ok then Inr ([], ts1)
       else res_bind (pe 0 ts1) (\<lambda>(c, ts2).
            res_bind (expect ''then'' ts2) (\<lambda>ts3.
            res_bind (pe 0 ts3) (\<lambda>(v, ts4).
            res_bind (parse_whens pe n ts4) (\<lambda>(bs, ts5). Inr ((c, v) # bs, ts5))))))"

fun parse_args :: "expr_parser \<Rightarrow> nat \<Rightarrow> token list \<Rightarrow> (expr list \<times> token list) result" where
  "parse_args pe 0 ts = Inl out_of_fuel"
| "parse_args pe (Suc n) ts =
     res_bind (pe 0 ts) (\<lambda>(a, ts1).
     res_bind (match_tok '')'' ts1) (\<lambda>(closed, ts2).
       if closed then Inr ([a], ts2)
       else res_bind (expect '','' ts2) (\<lambda>ts3.
            res_bind (parse_args pe n ts3) (\<lambda>(as, ts4). Inr (a # as, ts4)))))"

fun parse_window ::
  "expr_parser \<Rightarrow> nat \<Rightarrow> token list \<Rightarrow> ((expr list \<times> (expr \<times> string \<times> string) list) \<times> token list) result" where
  "parse_window pe 0 ts = Inl out_of_fuel"
| "parse_window pe (Suc n) ts =
     res_bind (peek ts) (\<lambda>t.
       if is_word ''order'' t
       then res_bind (expect ''by'' (tl ts)) (\<lambda>ts1.
            res_bind (pe 0 ts1) (\<lambda>(e, ts2).
            res_bind (order_options ts2) (\<lambda>((direction, nulls), ts3).
            res_bind (match_tok '','' ts3) (\<lambda>(more, ts4).
              if more
              then res_bind (parse_window pe n ts4) (\<lambda>((ps, os), ts5).
                     Inr ((ps, (e, direction, nulls) # os), ts5))
              else res_bind (expect '')'' ts4) (\<lambda>ts5. Inr (([], [(e, direction, nulls)]), ts5))))))
       else res_bind (pe 0 ts) (\<lambda>(p, ts1).
            res_bind (match_tok '')'' ts1) (\<lambda>(closed, ts2).
              if closed then Inr (([p], []), ts2)
              else res_bind (peek ts2) (\<lambda>t2.
                   res_bind (if is_word ''order'' t2 then Inr ts2 else expect '','' ts2) (\<lambda>ts3.
                   res_bind (parse_window pe n ts3) (\<lambda>((ps, os), ts4). Inr ((p # ps, os), ts4)))))))"

definition parse_over :: "expr_parser \<Rightarrow> expr \<Rightarrow> token list \<Rightarrow> (expr \<times> token list) result" where
  "parse_over pe node ts =
     res_bind (peek ts) (\<lambda>t.
       if \<not> is_word ''over'' t then Inr (node, ts)
       else res_bind (expect ''('' (tl ts)) (\<lambda>ts1.
            res_bind (peek ts1) (\<lambda>t1.
            res_bind (if is_word ''partition'' t1 then expect ''by'' (tl ts1) else Inr ts1) (\<lambda>ts2.
            res_bind (match_tok '')'' ts2) (\<lambda>(closed, ts3).
              if closed then Inr (Window node [] [] None, ts3)
              else res_bind (parse_window pe (Suc (length ts3)) ts3) (\<lambda>((ps, os), ts4).
                     Inr (Window node ps os None, ts4)))))))"

definition parse_case :: "expr_parser \<Rightarrow> token list \<Rightarrow> (expr \<times> token list) result" where
  "parse_case pe ts =
     res_bind (parse_whens pe (Suc (length ts)) ts) (\<lambda>(branches, ts1).
     res_bind (match_tok ''else'' ts1) (\<lambda>(has_else, ts2).
     res_bind (if has_else then pe 0 ts2 else Inr (Literal ''null'' VNone, ts2)) (\<lambda>(other, ts3).
     res_bind (expect ''end'' ts3) (\<lambda>ts4.
       if branches = [] then Inl syntax_error else Inr (Case branches other, ts4)))))"

definition parse_cast :: "expr_parser \<Rightarrow> token list \<Rightarrow> (expr \<times> token list) result" where
  "parse_cast pe ts =
     res_bind (pe 0 ts) (\<lambda>(e, ts1).
     res_bind (peek ts1) (\<lambda>t.
       if is_word ''as'' t
       then res_bind (peek (tl ts1)) (\<lambda>target.
            res_bind (expect '')'' (tl (tl ts1))) (\<lambda>ts2.
            res_bind (cast_to e (py_lower (snd target))) (\<lambda>c. Inr (c, ts2))))
       else res_bind (expect '','' ts1) (\<lambda>ts2.
            res_bind (pe 0 ts2) (\<lambda>(target, ts3).
            res_bind (expect '')'' ts3) (\<lambda>ts4.
            case target of
              Literal dtype v \<Rightarrow>
                if dtype \<noteq> ''string'' then Inl syntax_error
                else res_bind (cast_to e (py_lower (py_str v))) (\<lambda>c. Inr (c, ts4))
            | _ \<Rightarrow> Inl syntax_error)))))"

definition parse_call :: "expr_parser \<Rightarrow> string \<Rightarrow> token list \<Rightarrow> (expr \<times> token list) result" where
  "parse_call pe lowered ts =
     res_bind (match_tok '')'' ts) (\<lambda>(closed, ts1).
     res_bind (if closed then Inr ([], ts1) else parse_args pe (Suc (length ts1)) ts1) (\<lambda>(args, ts2).
       parse_over pe (call_node lowered args) ts2))"

definition parse_word :: "expr_parser \<Rightarrow> string \<Rightarrow> token list \<Rightarrow> (expr \<times> token list) result" where
  "parse_word pe value ts =
     (let lowered = py_lower value in
      if lowered = ''null'' then Inr (Literal ''null'' VNone, ts)
      else if lowered = ''true'' \<or> lowered = ''false'' then Inr (Literal ''bool'' (VBool (lowered = ''true'')), ts)
      else if lowered = ''case'' then parse_case pe ts
      else res_bind (match_tok ''('' ts) (\<lambda>(called, ts1).
             if \<not> called then Inr (Column value, ts)
             else if lowered = ''cast'' then parse_cast pe ts1
             else parse_call pe lowered ts1))"

definition parse_unary :: "expr_parser \<Rightarrow> string \<Rightarrow> token list \<Rightarrow> (expr \<times> token list) result" where
  "parse_unary pe op ts = res_bind (pe 60 ts) (\<lambda>(e, ts1). Inr (Unary op e, ts1))"

definition parse_prefix :: "(string \<Rightarrow> string) \<Rightarrow> expr_parser \<Rightarrow> token list \<Rightarrow> (expr \<times> token list) result" where
  "parse_prefix fl pe ts =
     res_bind (peek ts) (\<lambda>(kind, value).
       let rest = tl ts in
       if kind = TOperator \<and> (value = ''+'' \<or> value = ''-'')
       then parse_unary pe (if value = ''+'' then ''positive'' else ''negate'') rest
       else if kind = TIdent \<and> py_lower value = ''not'' then parse_unary pe ''not'' rest
       else if kind = TColumn then Inr (Column value, rest)
       else if kind = TString then Inr (Literal ''string'' (VStr value), rest)
       else if kind = TNumber then Inr (number_literal fl value, rest)
       else if kind = TIdent then parse_word pe value rest
       else if value = ''('' then
         res_bind (pe 0 rest) (\<lambda>(e, ts1). res_bind (expect '')'' ts1) (\<lambda>ts2. Inr (e, ts2)))
       else Inl syntax_error)"

fun parse_expr :: "(string \<Rightarrow> string) \<Rightarrow> nat \<Rightarrow> expr_parser" where
  "parse_expr fl 0 prec ts = Inl out_of_fuel"
| "parse_expr fl (Suc f) prec ts =
     res_bind (parse_prefix fl (parse_expr fl f) ts) (\<lambda>(l, ts1).
       climb (parse_expr fl f) (Suc (length ts1)) prec l ts1)"

definition parse_tokens :: "(string \<Rightarrow> string) \<Rightarrow> token list \<Rightarrow> expr result" where
  "parse_tokens fl ts =
     res_bind (parse_expr fl (Suc (length ts)) 0 ts) (\<lambda>(node, rest).
     res_bind (peek rest) (\<lambda>t. if fst t \<noteq> TEof then Inl syntax_error else Inr node))"

definition parse_expression :: "(string \<Rightarrow> string) \<Rightarrow> string \<Rightarrow> expr result" where
  "parse_expression fl s = res_bind (tokenize_expression s) (parse_tokens fl)"

text \<open>A second sort key after a comma is read as a partition key; literals close a call.\<close>

lemma second_order_key_partitions:
  "parse_expression id ''Sum([b]) OVER (PARTITION BY [g] ORDER BY [t] desc, [u])'' =
     Inr (Window (Call ''sum'' [Column ''b'']) [Column ''g'', Column ''u''] [(Column ''t'', ''desc'', ''last'')] None)"
  by code_simp

lemma paren_literal_closes_call:
  "parse_expression id (''Find('' @ [CHR 0x22, CHR '')'', CHR 0x22] @ '', [x])'') = Inl syntax_error"
  by code_simp

lemma quoted_word_is_operator:
  "parse_expression id ''[a] [and] [b]'' = Inr (Binary ''and'' (Column ''a'') (Column ''b''))"
  by code_simp

section \<open>Enough fuel\<close>

named_theorems fuel_simps "which errors the small parsing steps can raise"

lemma fuel_errors [fuel_simps]:
  "syntax_error \<noteq> out_of_fuel" "IndexError x \<noteq> out_of_fuel" "ValueError x \<noteq> out_of_fuel"
  "out_of_fuel \<noteq> syntax_error" "out_of_fuel \<noteq> IndexError x" "out_of_fuel \<noteq> ValueError x"
  by (simp_all add: out_of_fuel_def syntax_error_def)

text \<open>A result that is not a lack of fuel and, when there is a value, satisfies \<open>P\<close>.\<close>

definition res_ok :: "('a \<Rightarrow> bool) \<Rightarrow> 'a result \<Rightarrow> bool" where
  "res_ok P r = (case r of Inl e \<Rightarrow> e \<noteq> out_of_fuel | Inr x \<Rightarrow> P x)"

named_theorems wp_intros "weakest preconditions of the parsing steps"

lemma res_ok_simps [simp]:
  "res_ok P (Inr x) = P x" "res_ok P (Inl e) = (e \<noteq> out_of_fuel)"
  "res_ok P (res_bind m g) = res_ok (\<lambda>x. res_ok P (g x)) m"
  by (cases m; simp add: res_ok_def)+

lemma res_ok_mono: "res_ok P r \<Longrightarrow> (\<And>x. P x \<Longrightarrow> Q x) \<Longrightarrow> res_ok Q r"
  by (auto simp: res_ok_def split: sum.splits)

lemma res_okD: "res_ok P r \<Longrightarrow> r = Inr x \<Longrightarrow> P x"
  by simp

text \<open>An expression parser that leaves fewer tokens and has fuel for lists shorter than \<open>n\<close>.\<close>

definition good_parser :: "nat \<Rightarrow> expr_parser \<Rightarrow> bool" where
  "good_parser n pe =
     (\<forall>prec ts. length ts < n \<longrightarrow> res_ok (\<lambda>(e, r). length r < length ts) (pe prec ts))"

lemma wp_pe [wp_intros]:
  "good_parser n pe \<Longrightarrow> length ts < n \<Longrightarrow> (\<And>e r. length r < length ts \<Longrightarrow> P (e, r)) \<Longrightarrow> res_ok P (pe prec ts)"
  unfolding good_parser_def by (blast intro: res_ok_mono)

lemma wp_peek [wp_intros]:
  "(\<And>t. length (tl ts) < length ts \<Longrightarrow> P t) \<Longrightarrow> res_ok P (peek ts)"
  by (cases ts) (simp_all add: fuel_simps)

lemma wp_match_tok [wp_intros]:
  assumes "\<And>r. length r < length ts \<Longrightarrow> P (True, r)" and "\<And>r. length r \<le> length ts \<Longrightarrow> P (False, r)"
  shows "res_ok P (match_tok v ts)"
  using assms(1) [of "tl ts"] assms(2) [of ts] by (cases ts) (simp_all add: match_tok_def fuel_simps)

lemma wp_expect [wp_intros]:
  "(\<And>r. length r < length ts \<Longrightarrow> P r) \<Longrightarrow> res_ok P (expect v ts)"
  unfolding expect_def by (simp add: wp_match_tok fuel_simps)

lemma wp_order_options [wp_intros]:
  assumes "\<And>d nl r. length r \<le> length ts \<Longrightarrow> P ((d, nl), r)"
  shows "res_ok P (order_options ts)"
  unfolding order_options_def Let_def
  by (auto intro!: wp_peek assms simp: fuel_simps split: if_splits)

lemma wp_cast_to [wp_intros]: "(\<And>c. P c) \<Longrightarrow> res_ok P (cast_to e t)"
  by (simp add: cast_to_def fuel_simps split: option.split)

declare climb.simps [simp del] parse_whens.simps [simp del] parse_args.simps [simp del] parse_window.simps [simp del]

lemma wp_post:
  assumes "res_ok (\<lambda>(x, r). length r \<le> b) m" and "\<And>x r. length r \<le> b \<Longrightarrow> P (x, r)"
  shows "res_ok P m"
  using assms(1) by (rule res_ok_mono) (use assms(2) in auto)

lemma climb_ok:
  assumes "good_parser n pe"
  shows "length ts < k \<Longrightarrow> length ts \<le> n \<Longrightarrow> res_ok (\<lambda>(e, r). length r \<le> length ts) (climb pe k prec l ts)"
proof (induction k arbitrary: l ts)
  case (Suc k)
  show ?case using Suc.prems
    unfolding climb.simps
    by (auto intro!: wp_peek wp_pe [OF assms] wp_post [OF Suc.IH] simp: Let_def split: option.split)
qed (simp add: climb.simps)

lemma parse_whens_ok:
  assumes "good_parser n pe"
  shows "length ts < k \<Longrightarrow> length ts \<le> n \<Longrightarrow> res_ok (\<lambda>(e, r). length r \<le> length ts) (parse_whens pe k ts)"
proof (induction k arbitrary: ts)
  case (Suc k)
  show ?case using Suc.prems
    unfolding parse_whens.simps
    by (auto intro!: wp_match_tok wp_expect wp_pe [OF assms] wp_post [OF Suc.IH])
qed (simp add: parse_whens.simps)

lemma parse_args_ok:
  assumes "good_parser n pe"
  shows "length ts < k \<Longrightarrow> length ts < n \<Longrightarrow> res_ok (\<lambda>(e, r). length r \<le> length ts) (parse_args pe k ts)"
proof (induction k arbitrary: ts)
  case (Suc k)
  show ?case using Suc.prems
    unfolding parse_args.simps
    by (auto intro!: wp_match_tok wp_expect wp_pe [OF assms] wp_post [OF Suc.IH])
qed (simp add: parse_args.simps)

lemma parse_window_ok:
  assumes "good_parser n pe"
  shows "length ts < k \<Longrightarrow> length ts < n \<Longrightarrow> res_ok (\<lambda>(e, r). length r \<le> length ts) (parse_window pe k ts)"
proof (induction k arbitrary: ts)
  case (Suc k)
  show ?case using Suc.prems
    unfolding parse_window.simps
    by (auto intro!: wp_peek wp_match_tok wp_expect wp_order_options wp_pe [OF assms] wp_post [OF Suc.IH]
        split: if_splits)
qed (simp add: parse_window.simps)

lemma parse_over_ok:
  assumes "good_parser n pe" and "length ts \<le> n"
  shows "res_ok (\<lambda>(e, r). length r \<le> length ts) (parse_over pe node ts)"
  unfolding parse_over_def using assms(2)
  by (auto intro!: wp_peek wp_match_tok wp_expect wp_post [OF parse_window_ok [OF assms(1)]] split: if_splits)

lemma parse_case_ok:
  assumes "good_parser n pe" and "length ts \<le> n"
  shows "res_ok (\<lambda>(e, r). length r \<le> length ts) (parse_case pe ts)"
  unfolding parse_case_def using assms(2)
  by (auto intro!: wp_match_tok wp_expect wp_pe [OF assms(1)] wp_post [OF parse_whens_ok [OF assms(1)]]
      simp: fuel_simps split: if_splits)

lemma parse_cast_ok:
  assumes "good_parser n pe" and "length ts < n"
  shows "res_ok (\<lambda>(e, r). length r \<le> length ts) (parse_cast pe ts)"
  unfolding parse_cast_def using assms(2)
  by (auto intro!: wp_peek wp_match_tok wp_expect wp_cast_to wp_pe [OF assms(1)] simp: fuel_simps
      split: if_splits expr.split)

lemma parse_call_ok:
  assumes "good_parser n pe" and "length ts < n"
  shows "res_ok (\<lambda>(e, r). length r \<le> length ts) (parse_call pe lowered ts)"
  unfolding parse_call_def using assms(2)
  by (auto intro!: wp_match_tok wp_post [OF parse_args_ok [OF assms(1)]] wp_post [OF parse_over_ok [OF assms(1)]]
      split: if_splits)

lemma parse_word_ok:
  assumes "good_parser n pe" and "length ts \<le> n"
  shows "res_ok (\<lambda>(e, r). length r \<le> length ts) (parse_word pe value ts)"
  unfolding parse_word_def Let_def using assms(2)
  by (auto intro!: wp_match_tok wp_post [OF parse_case_ok [OF assms(1)]] wp_post [OF parse_cast_ok [OF assms(1)]]
      wp_post [OF parse_call_ok [OF assms(1)]] split: if_splits)

lemma parse_prefix_ok:
  assumes "good_parser n pe" and "length ts \<le> n"
  shows "res_ok (\<lambda>(e, r). length r < length ts) (parse_prefix fl pe ts)"
  unfolding parse_prefix_def Let_def parse_unary_def using assms(2)
  by (auto intro!: wp_peek wp_expect wp_pe [OF assms(1)] wp_post [OF parse_word_ok [OF assms(1)]]
      simp: fuel_simps split: if_splits)

lemma parse_expr_good: "good_parser n (parse_expr fl n)"
proof (induction n)
  case 0
  then show ?case by (simp add: good_parser_def)
next
  case (Suc n)
  have "res_ok (\<lambda>(e, r). length r < length ts) (parse_expr fl (Suc n) prec ts)" if "length ts \<le> n" for prec ts
  proof -
    note prefix = parse_prefix_ok [OF Suc that, of fl]
    have "res_ok (\<lambda>(e, r). length r < length ts) (climb (parse_expr fl n) (Suc (length r)) prec e r)"
      if "length r < length ts" for e r
      using that \<open>length ts \<le> n\<close> by (auto intro: wp_post [OF climb_ok [OF Suc]])
    then show ?thesis using prefix by (auto elim!: res_ok_mono)
  qed
  then show ?case unfolding good_parser_def less_Suc_eq_le by blast
qed

text \<open>
  C37: The parser always has an answer: parsing a text gives a tree or one of Python's errors,
  never a lack of fuel, so the loops of the parser end on every input.
\<close>

theorem parse_enough_fuel:
  "parse_expression fl s \<noteq> Inl out_of_fuel"
proof -
  have tokens: "parse_tokens fl ts \<noteq> Inl out_of_fuel" for ts
  proof -
    have "res_ok (\<lambda>(e, r). length r < length ts) (parse_expr fl (Suc (length ts)) 0 ts)"
      using parse_expr_good [of "Suc (length ts)" fl] by (simp add: good_parser_def)
    then have "res_ok (\<lambda>_. True) (parse_tokens fl ts)"
      unfolding parse_tokens_def by (auto elim!: res_ok_mono intro!: wp_peek simp: fuel_simps split: if_splits)
    then show ?thesis by (auto simp: res_ok_def)
  qed
  have "tokenize_expression s \<noteq> Inl out_of_fuel" for s
  proof (induction s rule: tokenize_expression.induct)
    case (1 s)
    have read: "read_until q t \<noteq> Inl out_of_fuel" for q t
      by (induction q t rule: read_until.induct) (auto simp: res_simps fuel_simps)
    have "next_token s \<noteq> Inl out_of_fuel"
      by (auto simp: next_token_def Let_def res_simps fuel_simps read read_bracket_identifier_def
          read_string_literal_def split: if_splits option.splits prod.splits)
    with 1 show ?case by (subst tokenize_expression.simps) (auto simp: res_simps)
  qed
  with tokens show ?thesis by (auto simp: parse_expression_def res_simps)
qed

end
