(* ===== verification/SpotfireRoundtrip.thy ===== *)
theory SpotfireRoundtrip
  imports SpotfireParser
begin

text \<open>
  Rendering and parsing of Spotfire expressions: which trees come back unchanged. \<open>toks\<close> are the
  tokens of a rendered tree; the rendered text lexes to them, and the parser reads them back.
\<close>

section \<open>The tokens of a rendered tree\<close>

fun join_toks :: "token list list \<Rightarrow> token list" where
  "join_toks [] = []"
| "join_toks [x] = x"
| "join_toks (x # xs) = x @ (TPunct, '','') # join_toks xs"

definition parens :: "token list \<Rightarrow> token list" where
  "parens ts = (TPunct, ''('') # ts @ [(TPunct, '')'')]"

definition literal_tok :: "pyval \<Rightarrow> token" where
  "literal_tok v =
     (case v of
        VNone \<Rightarrow> (TIdent, ''Null'')
      | VBool b \<Rightarrow> (TIdent, if b then ''True'' else ''False'')
      | VStr s \<Rightarrow> (TString, s)
      | v \<Rightarrow> (TNumber, py_str v))"

definition unary_tok :: "string \<Rightarrow> token" where
  "unary_tok op = (if op = ''not'' then (TIdent, ''Not'') else (TOperator, if op = ''negate'' then ''-'' else ''+''))"

definition binary_tok :: "string \<Rightarrow> token" where
  "binary_tok op = (if op = ''and'' \<or> op = ''or'' then TIdent else TOperator, binary_text op)"

fun toks :: "expr \<Rightarrow> token list" where
  "toks (Column n) = [(TColumn, n)]"
| "toks (Literal d v) = [literal_tok v]"
| "toks (Unary op e) = unary_tok op # parens (toks e)"
| "toks (Binary op l r) = parens (toks l @ binary_tok op # toks r)"
| "toks (Call f args) = (TIdent, f) # parens (join_toks (map toks args))"
| "toks (Case bs e) =
     (case bs of
        [b] \<Rightarrow> (TIdent, ''If'') # parens (join_toks [toks (fst b), toks (snd b), toks e])
      | _ \<Rightarrow> (TIdent, ''CASE'') #
             concat (map (\<lambda>b. (TIdent, ''WHEN'') # toks (fst b) @ (TIdent, ''THEN'') # toks (snd b)) bs) @
             (TIdent, ''ELSE'') # toks e @ [(TIdent, ''END'')])"
| "toks (Cast e t) = (TIdent, cast_text t) # parens (toks e)"
| "toks (Window e ps os frame) = toks e @ (TIdent, ''OVER'') # parens (join_toks (map toks ps))"
| "toks (Alias n e) = toks e"

section \<open>Trees that can be rendered\<close>

definition not_paren :: "expr \<Rightarrow> bool" where
  "not_paren e = (py_lower (snd (hd (toks e))) \<noteq> '')'')"

definition not_word :: "string \<Rightarrow> expr \<Rightarrow> bool" where
  "not_word w e = (\<not> is_word w (hd (toks e)))"

definition canonical_operators :: "string list" where
  "canonical_operators =
     [''or'', ''and'', ''='', ''!='', ''<'', ''<='', ''>'', ''>='', ''contains'', ''+'', ''-'', ''concat'', ''*'',
      ''/'', ''%'']"

text \<open>A lower-case function name that is not a word of the grammar and builds a call node.\<close>

definition callable :: "string \<Rightarrow> nat \<Rightarrow> bool" where
  "callable f n =
     (f \<noteq> [] \<and> is_ident_start (hd f) \<and> list_all is_ident_char f \<and> py_lower f = f \<and>
      f \<notin> set [''not'', ''null'', ''true'', ''false'', ''case'', ''cast''] \<and>
      \<not> (f = ''if'' \<and> n = 3) \<and> \<not> (cast_functions f \<noteq> None \<and> n = 1))"

fun is_call :: "expr \<Rightarrow> bool" where
  "is_call (Call f args) = True" | "is_call _ = False"

definition renderable_literal :: "string \<Rightarrow> pyval \<Rightarrow> bool" where
  "renderable_literal d v =
     (case v of
        VNone \<Rightarrow> d = ''null'' | VBool b \<Rightarrow> d = ''bool'' | VStr s \<Rightarrow> d = ''string''
      | VInt i \<Rightarrow> d = ''int64'' \<and> 0 \<le> i | _ \<Rightarrow> False)"

definition cast_targets :: "string list" where
  "cast_targets = [''bool'', ''int32'', ''int64'', ''float32'', ''float64'', ''string'']"

fun renderable :: "expr \<Rightarrow> bool" where
  "renderable (Column n) = (CHR '']'' \<notin> set n)"
| "renderable (Literal d v) = renderable_literal d v"
| "renderable (Unary op e) = (op \<in> set [''negate'', ''positive'', ''not''] \<and> renderable e)"
| "renderable (Binary op l r) = (op \<in> set canonical_operators \<and> renderable l \<and> renderable r)"
| "renderable (Call f args) =
     (callable f (length args) \<and> list_all renderable args \<and> (args \<noteq> [] \<longrightarrow> not_paren (hd args)))"
| "renderable (Case bs e) =
     (bs \<noteq> [] \<and> list_all (\<lambda>b. renderable (fst b) \<and> renderable (snd b)) bs \<and> renderable e \<and>
      (length bs = 1 \<longrightarrow> not_paren (fst (hd bs))))"
| "renderable (Cast e t) = (t \<in> set cast_targets \<and> renderable e \<and> not_paren e)"
| "renderable (Window e ps os frame) =
     (is_call e \<and> renderable e \<and> os = [] \<and> frame = None \<and> list_all renderable ps \<and>
      list_all (not_word ''order'') ps \<and>
      (ps \<noteq> [] \<longrightarrow> not_paren (hd ps) \<and> not_word ''partition'' (hd ps)))"
| "renderable (Alias n e) = False"

section \<open>Lexing rendered text\<close>

text \<open>What may follow a word, a number or a quoted text.\<close>

definition delimits :: "string \<Rightarrow> bool" where
  "delimits s = (s = [] \<or> hd s \<in> set '' (),'')"

definition lexes :: "string \<Rightarrow> token list \<Rightarrow> bool" where
  "lexes s ts =
     (\<forall>rest. delimits rest \<longrightarrow>
        tokenize_expression (s @ rest) = res_bind (tokenize_expression rest) (\<lambda>us. Inr (ts @ us)))"

definition lexes_any :: "string \<Rightarrow> token list \<Rightarrow> bool" where
  "lexes_any s ts =
     (\<forall>rest. tokenize_expression (s @ rest) = res_bind (tokenize_expression rest) (\<lambda>us. Inr (ts @ us)))"

lemma lexes_append: "lexes s a \<Longrightarrow> lexes t b \<Longrightarrow> t \<noteq> [] \<Longrightarrow> delimits t \<Longrightarrow> lexes (s @ t) (a @ b)"
  unfolding lexes_def
proof (intro allI impI)
  fix rest
  assume s: "\<forall>rest. delimits rest \<longrightarrow>
      tokenize_expression (s @ rest) = res_bind (tokenize_expression rest) (\<lambda>us. Inr (a @ us))"
    and t: "\<forall>rest. delimits rest \<longrightarrow>
      tokenize_expression (t @ rest) = res_bind (tokenize_expression rest) (\<lambda>us. Inr (b @ us))"
    and "t \<noteq> []" "delimits t" and d: "delimits rest"
  then have "delimits (t @ rest)" by (cases t) (auto simp: delimits_def)
  with s t d show "tokenize_expression ((s @ t) @ rest)
      = res_bind (tokenize_expression rest) (\<lambda>us. Inr ((a @ b) @ us))" by (simp add: res_bind_assoc)
qed

lemma lexes_any_append: "lexes_any s a \<Longrightarrow> lexes t b \<Longrightarrow> lexes (s @ t) (a @ b)"
  unfolding lexes_def lexes_any_def by (simp add: res_bind_assoc)

lemma lexes_any_any: "lexes_any s a \<Longrightarrow> lexes_any t b \<Longrightarrow> lexes_any (s @ t) (a @ b)"
  unfolding lexes_any_def by (simp add: res_bind_assoc)

lemma lexes_any_lexes: "lexes_any s a \<Longrightarrow> lexes s a"
  unfolding lexes_def lexes_any_def by simp

lemma tokenize_step:
  assumes "next_token s = Inr (t, r)" and "s \<noteq> []"
  shows "tokenize_expression s = res_bind (tokenize_expression r) (\<lambda>us. Inr (case t of None \<Rightarrow> us | Some t \<Rightarrow> t # us))"
  using assms by (subst tokenize_expression.simps) simp

lemma char_codes:
  "code_point CHR '' '' = 32" "code_point CHR ''('' = 40" "code_point CHR '')'' = 41" "code_point CHR '','' = 44"
  "code_point CHR 0x5B = 91" "code_point CHR 0x22 = 34" "code_point CHR 0x27 = 39" "code_point CHR ''/'' = 47"
  "code_point CHR ''.'' = 46" "code_point CHR ''e'' = 101" "code_point CHR ''E'' = 69" "code_point CHR '']'' = 93"
  by (simp_all add: code_point_def)

lemma delimits_next:
  assumes "delimits rest" and "rest \<noteq> []"
  shows "\<not> is_ident_char (hd rest)" "\<not> is_digit (hd rest)" "hd rest \<noteq> CHR ''.''" "hd rest \<noteq> CHR ''e''"
    "hd rest \<noteq> CHR ''E''" "hd rest \<noteq> CHR 0x22" "hd rest \<noteq> CHR '']''"
  using assms by (auto simp: delimits_def is_ident_char_def is_ident_start_def is_digit_def char_codes Let_def)

lemma takeWhile_delimited:
  assumes "list_all P s" and "rest = [] \<or> \<not> P (hd rest)"
  shows "takeWhile P (s @ rest) = s" "dropWhile P (s @ rest) = rest"
proof -
  have "takeWhile P rest = []" "dropWhile P rest = rest" using assms(2) by (cases rest; simp)+
  with assms(1) show "takeWhile P (s @ rest) = s" "dropWhile P (s @ rest) = rest"
    by (auto simp: list_all_iff takeWhile_append dropWhile_append)
qed

lemma lexes_ident:
  assumes "f \<noteq> []" and "is_ident_start (hd f)" and "list_all is_ident_char f"
  shows "lexes f [(TIdent, f)]"
  unfolding lexes_def
proof (intro allI impI)
  fix rest assume d: "delimits rest"
  let ?c = "hd f"
  have c: "\<not> py_isspace ?c" "?c \<noteq> CHR 0x5B" "?c \<noteq> CHR 0x22" "?c \<noteq> CHR 0x27" "?c \<noteq> CHR ''/''" "?c \<noteq> CHR ''.''"
    "\<not> is_digit ?c"
    using assms(2) by (auto simp: is_ident_start_def py_isspace_def is_digit_def Let_def char_codes)
  obtain cs where f: "f = ?c # cs" using assms(1) by (cases f) auto
  have num: "match_number (f @ rest) = None"
    using c by (subst f) (simp add: match_number_def match_mantissa_def Let_def)
  have sl: "\<not> starts_with (f @ rest) ''//''" using c by (subst f) (cases "cs @ rest"; simp)
  have "rest = [] \<or> \<not> is_ident_char (hd rest)" using delimits_next(1) [OF d] by blast
  from takeWhile_delimited [OF assms(3) this]
  have "next_token (f @ rest) = Inr (Some (TIdent, f), rest)"
    using c num sl assms(1,2) by (simp add: next_token_def Let_def)
  from tokenize_step [OF this] assms(1)
  show "tokenize_expression (f @ rest) = res_bind (tokenize_expression rest) (\<lambda>us. Inr ([(TIdent, f)] @ us))"
    by simp
qed

lemma lexes_number: "lexes (nat_str n) [(TNumber, nat_str n)]"
  unfolding lexes_def
proof (intro allI impI)
  fix rest assume d: "delimits rest"
  have digits: "list_all is_digit (nat_str n)" by (rule nat_str_digits)
  have ne: "nat_str n \<noteq> []" by (subst nat_str.simps) simp
  let ?c = "hd (nat_str n)"
  have dc: "is_digit ?c" using digits ne by (cases "nat_str n") auto
  then have c: "\<not> py_isspace ?c" "?c \<noteq> CHR 0x5B" "?c \<noteq> CHR 0x22" "?c \<noteq> CHR 0x27" "?c \<noteq> CHR ''/''"
    by (auto simp: py_isspace_def is_digit_def Let_def char_codes)
  have sl: "\<not> starts_with (nat_str n @ rest) ''//''"
    using c(5) ne by (cases "nat_str n") auto
  have "rest = [] \<or> \<not> is_digit (hd rest)" using delimits_next(2) [OF d] by blast
  note tw = takeWhile_delimited [OF digits this]
  have "match_mantissa (nat_str n @ rest) = Some (nat_str n, rest)"
    unfolding match_mantissa_def tw Let_def using delimits_next(3) [OF d] ne by (cases rest) simp_all
  moreover have "match_exponent rest = ([], rest)"
    unfolding match_exponent_def using delimits_next(4,5) [OF d] by (cases rest) simp_all
  ultimately have "match_number (nat_str n @ rest) = Some (nat_str n, rest)" by (simp add: match_number_def)
  then have "next_token (nat_str n @ rest) = Inr (Some (TNumber, nat_str n), rest)"
    using c sl ne by (simp add: next_token_def Let_def)
  from tokenize_step [OF this] ne
  show "tokenize_expression (nat_str n @ rest)
      = res_bind (tokenize_expression rest) (\<lambda>us. Inr ([(TNumber, nat_str n)] @ us))" by simp
qed

lemma read_until_doubled:
  "rest = [] \<or> hd rest \<noteq> q \<Longrightarrow>
     read_until q (concat (map (\<lambda>c. if c = q then [c, c] else [c]) v) @ q # rest) = Inr (v, rest)"
proof (induction v)
  case Nil
  then show ?case by (cases rest) simp_all
next
  case (Cons c v)
  let ?t = "concat (map (\<lambda>c. if c = q then [c, c] else [c]) v) @ q # rest"
  obtain d ds where t: "?t = d # ds" by (cases ?t) auto
  have "read_until q (c # ?t) = res_bind (read_until q ?t) (\<lambda>(v, r). Inr (c # v, r))" if "c \<noteq> q"
    using that by (simp add: t)
  moreover have "read_until q (q # q # ?t) = res_bind (read_until q ?t) (\<lambda>(v, r). Inr (q # v, r))" by simp
  ultimately show ?case using Cons by (cases "c = q") simp_all
qed

lemma lexes_string: "lexes ([CHR 0x22] @ quote_doubled v @ [CHR 0x22]) [(TString, v)]"
  unfolding lexes_def
proof (intro allI impI)
  fix rest assume d: "delimits rest"
  let ?s = "CHR 0x22 # quote_doubled v @ CHR 0x22 # rest"
  have "read_until (CHR 0x22) (quote_doubled v @ CHR 0x22 # rest) = Inr (v, rest)"
    unfolding quote_doubled_def using delimits_next(6) [OF d] by (intro read_until_doubled) blast
  then have "next_token ?s = Inr (Some (TString, v), rest)"
    by (simp add: next_token_def Let_def read_string_literal_def py_isspace_def char_codes)
  from tokenize_step [OF this]
  show "tokenize_expression (([CHR 0x22] @ quote_doubled v @ [CHR 0x22]) @ rest)
      = res_bind (tokenize_expression rest) (\<lambda>us. Inr ([(TString, v)] @ us))" by simp
qed

lemma lexes_column:
  assumes "CHR '']'' \<notin> set n"
  shows "lexes (''['' @ n @ '']'') [(TColumn, n)]"
  unfolding lexes_def
proof (intro allI impI)
  fix rest assume d: "delimits rest"
  let ?s = "CHR ''['' # n @ CHR '']'' # rest"
  have n: "concat (map (\<lambda>c. if c = CHR '']'' then [c, c] else [c]) n) = n" using assms by (induction n) auto
  have "read_until (CHR '']'') (concat (map (\<lambda>c. if c = CHR '']'' then [c, c] else [c]) n) @ CHR '']'' # rest)
      = Inr (n, rest)"
    using delimits_next(7) [OF d] by (intro read_until_doubled) blast
  then have "next_token ?s = Inr (Some (TColumn, n), rest)"
    by (simp add: next_token_def Let_def read_bracket_identifier_def py_isspace_def char_codes n)
  from tokenize_step [OF this]
  show "tokenize_expression ((''['' @ n @ '']'') @ rest)
      = res_bind (tokenize_expression rest) (\<lambda>us. Inr ([(TColumn, n)] @ us))" by simp
qed

lemma lexes_step:
  assumes "\<And>rest. next_token (s @ rest) = Inr (t, rest)" and "s \<noteq> []"
  shows "lexes_any s (case t of None \<Rightarrow> [] | Some t \<Rightarrow> [t])"
  unfolding lexes_any_def using tokenize_step [OF assms(1)] assms(2)
  by (auto split: option.splits)

lemma lexes_then:
  assumes "lexes s a" and "lexes_any t b" and "t \<noteq> []" and "delimits t"
  shows "lexes_any (s @ t) (a @ b)"
  unfolding lexes_any_def
proof
  fix rest
  have "delimits (t @ rest)" using assms(3,4) by (cases t) (auto simp: delimits_def)
  with assms(1,2) show "tokenize_expression ((s @ t) @ rest)
      = res_bind (tokenize_expression rest) (\<lambda>us. Inr ((a @ b) @ us))"
    by (simp add: lexes_def lexes_any_def res_bind_assoc)
qed

definition plain_char :: "char \<Rightarrow> bool" where
  "plain_char c =
     (\<not> py_isspace c \<and> c \<noteq> CHR ''['' \<and> c \<noteq> CHR 0x27 \<and> c \<noteq> CHR 0x22 \<and> c \<noteq> CHR ''.'' \<and> \<not> is_digit c \<and>
      \<not> is_ident_start c)"

lemma next_plain:
  assumes "plain_char c" and "\<not> starts_with (c # r) ''//''"
  shows "next_token (c # r) =
    (case find (starts_with (c # r)) two_char_operators of
       Some op \<Rightarrow> Inr (Some (TOperator, op), drop 2 (c # r))
     | None \<Rightarrow> if c \<in> set single_characters
               then Inr (Some (if c \<in> set ''(),'' then TPunct else TOperator, [c]), r)
               else Inl (ValueError ''unsupported_token''))"
  using assms
  by (simp add: plain_char_def next_token_def Let_def match_number_def match_mantissa_def
      del: starts_with.simps cong: option.case_cong)

lemma plain_operators: "list_all plain_char ''+-*/%=<>&(),!~''"
  by code_simp

lemma plain_operator: "c \<in> set ''+-*/%=<>&(),!~'' \<Longrightarrow> plain_char c"
  using plain_operators by (simp only: list_all_iff)

text \<open>An operator with the blank that follows it in a rendered text.\<close>

lemma next_operator:
  assumes "op \<in> set [''='', ''!='', ''<'', ''<='', ''>'', ''>='', ''~='', ''+'', ''-'', ''&'', ''*'', ''/'', ''%'']"
  shows "next_token (op @ CHR '' '' # rest) = Inr (Some (TOperator, op), CHR '' '' # rest)"
  using assms by (auto simp: next_plain plain_operator two_char_operators_def single_characters_def)

lemma lexes_punct:
  "lexes_any '' '' []" "lexes_any ''('' [(TPunct, ''('')]" "lexes_any '')'' [(TPunct, '')'')]"
  "lexes_any '','' [(TPunct, '','')]" "lexes_any ''-'' [(TOperator, ''-'')]" "lexes_any ''+'' [(TOperator, ''+'')]"
  using lexes_step [of "'' ''" None] lexes_step [of "''(''" "Some (TPunct, ''('')"]
    lexes_step [of "'')''" "Some (TPunct, '')'')"] lexes_step [of "'',''" "Some (TPunct, '','')"]
    lexes_step [of "''-''" "Some (TOperator, ''-'')"] lexes_step [of "''+''" "Some (TOperator, ''+'')"]
  by (simp_all add: next_plain plain_operator two_char_operators_def single_characters_def)
    (simp add: lexes_any_def tokenize_step next_token_def py_isspace_def code_point_def)

lemma lexes_comma_space: "lexes_any '', '' [(TPunct, '','')]"
  using lexes_any_any [OF lexes_punct(4,1)] by simp

lemma lexes_word:
  "w \<in> set [''Not'', ''WHEN'', ''THEN'', ''ELSE'', ''END'', ''OVER'', ''CASE'', ''If'', ''and'', ''or'', ''True'', ''False'',
     ''Null''] \<Longrightarrow> lexes w [(TIdent, w)]"
  by (rule lexes_ident) (auto simp: is_ident_start_def is_ident_char_def is_digit_def code_point_def Let_def)

lemma lexes_cast: "t \<in> set cast_targets \<Longrightarrow> lexes (cast_text t) [(TIdent, cast_text t)]"
  by (rule lexes_ident)
    (auto simp: cast_targets_def cast_text_def is_ident_start_def is_ident_char_def is_digit_def code_point_def Let_def)

lemma lexes_operator:
  assumes "op \<in> set canonical_operators"
  shows "lexes_any ('' '' @ binary_text op @ '' '') [binary_tok op]"
proof (cases "op = ''and'' \<or> op = ''or''")
  case True
  then have "lexes op [(TIdent, op)]" by (intro lexes_word) auto
  from lexes_then [OF this lexes_punct(1)] have "lexes_any (op @ '' '') [(TIdent, op)]"
    by (simp add: delimits_def)
  from lexes_any_any [OF lexes_punct(1) this] True show ?thesis
    by (auto simp: binary_tok_def binary_text_def)
next
  case False
  have "binary_text op \<in> set [''='', ''!='', ''<'', ''<='', ''>'', ''>='', ''~='', ''+'', ''-'', ''&'', ''*'', ''/'', ''%'']"
    using assms False by (auto simp: canonical_operators_def binary_text_def)
  then have "next_token (binary_text op @ '' '' @ rest) = Inr (Some (binary_tok op), '' '' @ rest)" for rest
    using next_operator [of "binary_text op" rest] False by (simp add: binary_tok_def)
  moreover have "binary_text op \<noteq> []" using assms by (auto simp: canonical_operators_def binary_text_def)
  ultimately have "tokenize_expression (binary_text op @ '' '' @ rest)
      = res_bind (tokenize_expression rest) (\<lambda>us. Inr (binary_tok op # us))" for rest
    using tokenize_step [of "binary_text op @ '' '' @ rest"] lexes_punct(1)
    by (simp add: lexes_any_def res_bind_assoc)
  then have "lexes_any (binary_text op @ '' '') [binary_tok op]" by (simp add: lexes_any_def)
  from lexes_any_any [OF lexes_punct(1) this] show ?thesis by simp
qed

lemma lexes_join_args:
  "list_all2 lexes ss tss \<Longrightarrow> lexes_any (join_with '', '' ss @ '')'') (join_toks tss @ [(TPunct, '')'')])"
proof (induction ss tss rule: list_all2_induct)
  case Nil
  then show ?case using lexes_punct(3) by simp
next
  case (Cons s ss ts tss)
  show ?case
  proof (cases ss)
    case Nil
    with Cons have "tss = []" by simp
    with Nil lexes_then [OF Cons(1) lexes_punct(3)] show ?thesis by (simp add: delimits_def)
  next
    case (Cons s' ss')
    with Cons.hyps(2) obtain t' tss' where tss: "tss = t' # tss'" by (cases tss) auto
    from lexes_any_any [OF lexes_comma_space Cons.IH]
    have "lexes_any ('', '' @ join_with '', '' ss @ '')'') ((TPunct, '','') # join_toks tss @ [(TPunct, '')'')])" by simp
    from lexes_then [OF Cons.hyps(1) this] show ?thesis by (simp add: Cons tss delimits_def)
  qed
qed

lemma lexes_parens:
  assumes "list_all2 lexes ss tss"
  shows "lexes_any (''('' @ join_with '', '' ss @ '')'') (parens (join_toks tss))"
  using lexes_any_any [OF lexes_punct(2) lexes_join_args [OF assms]] by (simp add: parens_def)

lemma lexes_word_parens:
  assumes "lexes w a" and "list_all2 lexes ss tss"
  shows "lexes (w @ ''('' @ join_with '', '' ss @ '')'') (a @ parens (join_toks tss))"
  using lexes_any_lexes [OF lexes_then [OF assms(1) lexes_parens [OF assms(2)]]] by (simp add: delimits_def)

lemma lexes_spaced:
  assumes "lexes s a" and "lexes t b"
  shows "lexes (s @ '' '' @ t) (a @ b)"
proof -
  have "lexes ('' '' @ t) b" using lexes_any_append [OF lexes_punct(1) assms(2)] by simp
  from lexes_append [OF assms(1) this] show ?thesis by (simp add: delimits_def)
qed

lemma lexes_join_spaces: "list_all2 lexes ss tss \<Longrightarrow> ss \<noteq> [] \<Longrightarrow> lexes (join_with '' '' ss) (concat tss)"
proof (induction ss tss rule: list_all2_induct)
  case (Cons s ss ts tss)
  show ?case
  proof (cases ss)
    case Nil
    with Cons show ?thesis by simp
  next
    case (Cons s' ss')
    with lexes_spaced [OF Cons.hyps(1) Cons.IH] show ?thesis by simp
  qed
qed simp

section \<open>Every renderable tree lexes to its tokens\<close>

abbreviation renders :: "expr \<Rightarrow> bool" where
  "renders e \<equiv> \<exists>s. render_spotfire e = Inr s \<and> lexes s (toks e)"

lemma renders_list:
  "(\<And>x. x \<in> set es \<Longrightarrow> renders x) \<Longrightarrow>
     \<exists>ss. res_map render_spotfire es = Inr ss \<and> list_all2 lexes ss (map toks es)"
proof (induction es)
  case (Cons e es)
  obtain s where "render_spotfire e = Inr s" "lexes s (toks e)" using Cons.prems [of e] by auto
  moreover obtain ss where "res_map render_spotfire es = Inr ss" "list_all2 lexes ss (map toks es)"
    using Cons by auto
  ultimately show ?case by simp
qed simp

lemma renders_literal: "renderable_literal d v \<Longrightarrow> lexes (render_literal d v) [literal_tok v]"
  using lexes_string [of "case v of VStr s \<Rightarrow> s | _ \<Rightarrow> []"] lexes_number [of "case v of VInt i \<Rightarrow> nat i | _ \<Rightarrow> 0"]
    lexes_word [of "''Null''"] lexes_word [of "''True''"] lexes_word [of "''False''"]
  by (cases v) (simp_all add: renderable_literal_def render_literal_def literal_tok_def int_str_def)

lemma renders_unary:
  assumes "op \<in> set [''negate'', ''positive'', ''not'']" and "lexes s ts"
  shows "\<exists>t. unary_text op = Some t \<and> lexes (t @ ''('' @ s @ '')'') (unary_tok op # parens ts)"
proof -
  have p: "lexes_any (''('' @ s @ '')'') (parens ts)" using lexes_parens [of "[s]" "[ts]"] assms(2) by simp
  have "lexes_any (''Not'' @ '' '') [(TIdent, ''Not'')]"
    using lexes_then [OF lexes_word [of "''Not''"] lexes_punct(1)] by (simp add: delimits_def)
  from lexes_any_any [OF this p] lexes_any_any [OF lexes_punct(5) p] lexes_any_any [OF lexes_punct(6) p] assms(1)
  show ?thesis by (auto simp: unary_text_def unary_tok_def intro!: lexes_any_lexes)
qed

lemma renders_case:
  assumes "\<And>b. b \<in> set bs \<Longrightarrow> renders (fst b) \<and> renders (snd b)" and "renders e" and "bs \<noteq> []"
  shows "renders (Case bs e)"
proof -
  let ?render = "\<lambda>b. res_bind (render_spotfire (fst b)) (\<lambda>c. res_bind (render_spotfire (snd b)) (\<lambda>v. Inr (c, v)))"
  let ?when = "\<lambda>(c, v). ''WHEN '' @ c @ '' THEN '' @ v"
  let ?toks = "\<lambda>b. (TIdent, ''WHEN'') # toks (fst b) @ (TIdent, ''THEN'') # toks (snd b)"
  from assms(2) obtain s where s: "render_spotfire e = Inr s" "lexes s (toks e)" by blast
  have "\<exists>cvs. res_map ?render bs = Inr cvs \<and>
      list_all2 (\<lambda>cv b. lexes (fst cv) (toks (fst b)) \<and> lexes (snd cv) (toks (snd b))) cvs bs"
    using assms(1)
  proof (induction bs)
    case (Cons b bs)
    then obtain c v where "render_spotfire (fst b) = Inr c" "lexes c (toks (fst b))"
      "render_spotfire (snd b) = Inr v" "lexes v (toks (snd b))" by (meson list.set_intros(1))
    moreover from Cons obtain cvs where "res_map ?render bs = Inr cvs"
      "list_all2 (\<lambda>cv b. lexes (fst cv) (toks (fst b)) \<and> lexes (snd cv) (toks (snd b))) cvs bs"
      by (meson list.set_intros(2))
    ultimately show ?case by simp
  qed simp
  then obtain cvs where cvs: "res_map ?render bs = Inr cvs"
    and lx: "list_all2 (\<lambda>cv b. lexes (fst cv) (toks (fst b)) \<and> lexes (snd cv) (toks (snd b))) cvs bs" by blast
  have whenl: "lexes (?when cv) (?toks b)" if "lexes (fst cv) (toks (fst b))" "lexes (snd cv) (toks (snd b))" for cv b
    using lexes_spaced [OF lexes_word [of "''WHEN''"]
        lexes_spaced [OF that(1) lexes_spaced [OF lexes_word [of "''THEN''"] that(2)]]]
    by (simp add: case_prod_beta)
  have whens: "list_all2 lexes (map ?when cvs) (map ?toks bs)"
    using lx by (simp add: list_all2_map1 list_all2_map2) (erule list_all2_mono, simp add: whenl [simplified])
  have els: "lexes (''ELSE '' @ s @ '' END'') ((TIdent, ''ELSE'') # toks e @ [(TIdent, ''END'')])"
    using lexes_spaced [OF lexes_word [of "''ELSE''"] lexes_spaced [OF s(2) lexes_word [of "''END''"]]] by simp
  have long: "lexes (join_with '' '' ([''CASE''] @ map ?when cvs @ [''ELSE '' @ s @ '' END'']))
      ((TIdent, ''CASE'') # concat (map ?toks bs) @ (TIdent, ''ELSE'') # toks e @ [(TIdent, ''END'')])"
  proof -
    have "list_all2 lexes ([''CASE''] @ map ?when cvs @ [''ELSE '' @ s @ '' END''])
        ([[(TIdent, ''CASE'')]] @ map ?toks bs @ [(TIdent, ''ELSE'') # toks e @ [(TIdent, ''END'')]])"
      using whens els lexes_word [of "''CASE''"] by (intro list_all2_appendI) auto
    from lexes_join_spaces [OF this] show ?thesis by simp
  qed
  show ?thesis
  proof (cases "length bs = 1")
    case True
    then obtain b where bs: "bs = [b]" by (cases bs) auto
    with lx obtain c v where cv: "cvs = [(c, v)]" and b: "lexes c (toks (fst b))" "lexes v (toks (snd b))"
      by (cases cvs) (auto simp: list_all2_Cons2)
    have "list_all2 lexes [c, v, s] [toks (fst b), toks (snd b), toks e]" using b s(2) by simp
    from lexes_word_parens [OF lexes_word [of "''If''"] this]
    have "lexes (''If('' @ c @ '', '' @ v @ '', '' @ s @ '')'') (toks (Case bs e))" by (simp add: bs)
    moreover have "render_spotfire (Case bs e) = Inr (''If('' @ c @ '', '' @ v @ '', '' @ s @ '')'')"
      using cvs s(1) by (simp add: bs cv)
    ultimately show ?thesis by blast
  next
    case False
    then obtain b1 b2 bs' where bs: "bs = b1 # b2 # bs'" using assms(3) by (cases bs; cases "tl bs") auto
    with lx obtain cv1 cv2 cvs' where cv: "cvs = cv1 # cv2 # cvs'" by (auto simp: list_all2_Cons2)
    have r: "render_spotfire (Case bs e)
        = Inr (join_with '' '' ([''CASE''] @ map ?when cvs @ [''ELSE '' @ s @ '' END'']))"
      using cvs s(1) unfolding render_spotfire.simps by (cases cv1) (simp only: res_bind_Inr cv list.case prod.case)
    have t: "toks (Case bs e)
        = (TIdent, ''CASE'') # concat (map ?toks bs) @ (TIdent, ''ELSE'') # toks e @ [(TIdent, ''END'')]"
      by (simp add: bs)
    show ?thesis unfolding r t by (rule exI, rule conjI, rule refl, rule long)
  qed
qed

lemma renderable_renders: "renderable e \<Longrightarrow> renders e"
proof (induction e)
  case (Column n)
  then show ?case using lexes_column [of n] by simp
next
  case (Literal d v)
  then show ?case using renders_literal [of d v] by simp
next
  case (Unary op e)
  then obtain s where s: "render_spotfire e = Inr s" "lexes s (toks e)" by auto
  from Unary.prems renders_unary [OF _ s(2), of op] obtain t where "unary_text op = Some t"
    "lexes (t @ ''('' @ s @ '')'') (unary_tok op # parens (toks e))" by auto
  with s(1) show ?case by (intro exI conjI) (simp, simp)
next
  case (Binary op l r)
  then obtain a b where a: "render_spotfire l = Inr a" "lexes a (toks l)"
    and b: "render_spotfire r = Inr b" "lexes b (toks r)" by auto
  have op: "lexes_any ('' '' @ binary_text op @ '' '') [binary_tok op]"
    using Binary.prems by (intro lexes_operator) simp
  have "lexes_any (a @ '' '' @ binary_text op @ '' '') (toks l @ [binary_tok op])"
    using lexes_then [OF a(2) op] by (simp add: delimits_def)
  from lexes_any_append [OF this b(2)]
  have "lexes (a @ '' '' @ binary_text op @ '' '' @ b) (toks l @ binary_tok op # toks r)" by simp
  from lexes_parens [of "[_]" "[_]", simplified, OF this]
  have "lexes (''('' @ a @ '' '' @ binary_text op @ '' '' @ b @ '')'') (toks (Binary op l r))"
    by (intro lexes_any_lexes) simp
  with a(1) b(1) show ?case by (intro exI conjI) (simp, simp)
next
  case (Call f args)
  then obtain ss where ss: "res_map render_spotfire args = Inr ss" "list_all2 lexes ss (map toks args)"
    using renders_list [of args] by (auto simp: list_all_iff)
  have "lexes f [(TIdent, f)]" using Call.prems by (intro lexes_ident) (simp_all add: callable_def)
  from lexes_word_parens [OF this ss(2)] ss(1) show ?case by (intro exI conjI) (simp, simp)
next
  case (Case bs e)
  have "renders (fst b) \<and> renders (snd b)" if "b \<in> set bs" for b
    using Case that by (cases b) (auto simp: list_all_iff)
  with Case show ?case by (intro renders_case) auto
next
  case (Cast e t)
  then obtain s where s: "render_spotfire e = Inr s" "lexes s (toks e)" by auto
  have "list_all2 lexes [s] [toks e]" using s(2) by simp
  from lexes_word_parens [OF lexes_cast this] Cast.prems s(1) show ?case by (intro exI conjI) (simp, simp)
next
  case (Window e ps os frame)
  then obtain s where s: "render_spotfire e = Inr s" "lexes s (toks e)" by auto
  from Window obtain ss where ss: "res_map render_spotfire ps = Inr ss" "list_all2 lexes ss (map toks ps)"
    using renders_list [of ps] by (auto simp: list_all_iff)
  have "lexes_any (''OVER'' @ '' '') [(TIdent, ''OVER'')]"
    using lexes_then [OF lexes_word [of "''OVER''"] lexes_punct(1)] by (simp add: delimits_def)
  from lexes_any_any [OF this lexes_parens [OF ss(2)]]
  have "lexes (''OVER ('' @ join_with '', '' ss @ '')'') ((TIdent, ''OVER'') # parens (join_toks (map toks ps)))"
    by (intro lexes_any_lexes) simp
  from lexes_spaced [OF s(2) this] s(1) ss(1) show ?case by (intro exI conjI) (simp, simp)
next
  case (Alias n e)
  then show ?case by simp
qed

section \<open>Parsing the tokens of a renderable tree\<close>

lemma toks_nonempty [simp]: "toks e \<noteq> []"
  by (induction e) (auto simp: parens_def split: list.splits)

lemma join_toks_Cons: "xs \<noteq> [] \<Longrightarrow> join_toks (x # xs) = x @ (TPunct, '','') # join_toks xs"
  by (cases xs) simp_all

lemma hd_join_toks [simp]: "es \<noteq> [] \<Longrightarrow> hd (join_toks (map toks es) @ r) = hd (toks (hd es))"
  by (cases es; cases "tl es") (auto simp: join_toks_Cons hd_append)

lemma join_toks_nonempty [simp]: "es \<noteq> [] \<Longrightarrow> join_toks (map toks es) \<noteq> []"
  by (cases es; cases "tl es") auto

lemma length_join_toks: "length es \<le> length (join_toks (map toks es))"
proof (induction es)
  case (Cons e es)
  moreover have "0 < length (toks e)" by simp
  ultimately show ?case by (cases es) (auto simp del: toks_nonempty length_greater_0_conv)
qed simp

text \<open>The parser stops before these tokens when it climbs with \<open>prec\<close>.\<close>

definition stops :: "nat \<Rightarrow> token list \<Rightarrow> bool" where
  "stops prec rest =
     (rest \<noteq> [] \<and> \<not> is_word ''over'' (hd rest) \<and>
      (case binary_precedence (py_lower (snd (hd rest))) of None \<Rightarrow> True | Some p \<Rightarrow> p < prec))"

definition reads :: "nat \<Rightarrow> expr_parser \<Rightarrow> bool" where
  "reads n pe =
     ((\<forall>e rest prec. renderable e \<longrightarrow> length (toks e @ rest) < n \<longrightarrow> stops prec rest \<longrightarrow>
         pe prec (toks e @ rest) = Inr (e, rest)) \<and>
      (\<forall>e rest prec. renderable e \<longrightarrow> length (parens (toks e) @ rest) < n \<longrightarrow> stops prec rest \<longrightarrow>
         pe prec (parens (toks e) @ rest) = Inr (e, rest)) \<and>
      (\<forall>op l r rest. renderable l \<longrightarrow> renderable r \<longrightarrow> op \<in> set canonical_operators \<longrightarrow>
         length (toks l @ binary_tok op # toks r @ (TPunct, '')'') # rest) < n \<longrightarrow>
         pe 0 (toks l @ binary_tok op # toks r @ (TPunct, '')'') # rest) = Inr (Binary op l r, (TPunct, '')'') # rest)))"

lemma readsD:
  assumes "reads n pe"
  shows "renderable e \<Longrightarrow> length (toks e @ rest) < n \<Longrightarrow> stops prec rest \<Longrightarrow> pe prec (toks e @ rest) = Inr (e, rest)"
    and "renderable e \<Longrightarrow> length (parens (toks e) @ rest) < n \<Longrightarrow> stops prec rest \<Longrightarrow>
      pe prec (parens (toks e) @ rest) = Inr (e, rest)"
    and "renderable l \<Longrightarrow> renderable r \<Longrightarrow> op \<in> set canonical_operators \<Longrightarrow>
      length (toks l @ binary_tok op # toks r @ (TPunct, '')'') # rest) < n \<Longrightarrow>
      pe 0 (toks l @ binary_tok op # toks r @ (TPunct, '')'') # rest) = Inr (Binary op l r, (TPunct, '')'') # rest)"
  using assms unfolding reads_def by blast+

lemma lower_words [simp]:
  "py_lower '')'' = '')''" "py_lower ''('' = ''(''" "py_lower '','' = '',''" "py_lower ''WHEN'' = ''when''"
  "py_lower ''THEN'' = ''then''" "py_lower ''ELSE'' = ''else''" "py_lower ''END'' = ''end''"
  "py_lower ''CASE'' = ''case''" "py_lower ''If'' = ''if''" "py_lower ''Not'' = ''not''" "py_lower ''OVER'' = ''over''"
  "py_lower ''Null'' = ''null''" "py_lower ''True'' = ''true''" "py_lower ''False'' = ''false''"
  by code_simp+

lemma stops_punct [simp]:
  "stops prec ((TPunct, '')'') # r)" "stops prec ((TPunct, '','') # r)"
  by (simp_all add: stops_def is_word_def binary_precedence_def)

lemma stops_words [simp]:
  "stops prec ((TIdent, ''WHEN'') # r)" "stops prec ((TIdent, ''THEN'') # r)" "stops prec ((TIdent, ''ELSE'') # r)"
  "stops prec ((TIdent, ''END'') # r)"
  by (simp_all add: stops_def is_word_def binary_precedence_def)

lemma match_tok_simps [simp]:
  "match_tok v (t # ts) = Inr (if py_lower (snd t) = v then (True, ts) else (False, t # ts))"
  by (simp add: match_tok_def)

lemma match_tok_hd: "ts \<noteq> [] \<Longrightarrow> match_tok v ts = Inr (if py_lower (snd (hd ts)) = v then (True, tl ts) else (False, ts))"
  by (cases ts) simp_all

lemma peek_hd: "ts \<noteq> [] \<Longrightarrow> peek ts = Inr (hd ts)"
  by (cases ts) simp_all

lemma parse_args_reads:
  assumes "reads n pe"
  shows "args \<noteq> [] \<Longrightarrow> list_all renderable args \<Longrightarrow> length args \<le> k \<Longrightarrow>
    length (join_toks (map toks args)) + Suc (length rest) < n \<Longrightarrow>
    parse_args pe k (join_toks (map toks args) @ (TPunct, '')'') # rest) = Inr (args, rest)"
proof (induction args arbitrary: k)
  case (Cons a as)
  then obtain k' where k: "k = Suc k'" by (cases k) auto
  show ?case
  proof (cases "as = []")
    case True
    with Cons.prems readsD(1) [OF assms, of a "(TPunct, '')'') # rest" 0] show ?thesis
      by (simp add: k parse_args.simps)
  next
    case False
    with Cons.prems readsD(1) [OF assms, of a "(TPunct, '','') # join_toks (map toks as) @ (TPunct, '')'') # rest" 0]
      Cons.IH [of k']
    show ?thesis by (simp add: k parse_args.simps join_toks_Cons expect_def)
  qed
qed simp

lemma parse_window_reads:
  assumes "reads n pe"
  shows "ps \<noteq> [] \<Longrightarrow> list_all renderable ps \<Longrightarrow> list_all (not_word ''order'') ps \<Longrightarrow> length ps \<le> k \<Longrightarrow>
    length (join_toks (map toks ps)) + Suc (length rest) < n \<Longrightarrow>
    parse_window pe k (join_toks (map toks ps) @ (TPunct, '')'') # rest) = Inr ((ps, []), rest)"
proof (induction ps arbitrary: k)
  case (Cons p ps)
  then obtain k' where k: "k = Suc k'" by (cases k) auto
  have order: "\<not> is_word ''order'' (hd (toks p))" using Cons.prems by (simp add: not_word_def)
  have comma: "\<not> is_word ''order'' (TPunct, '','')" by (simp add: is_word_def)
  show ?case
  proof (cases "ps = []")
    case True
    with Cons.prems readsD(1) [OF assms, of p "(TPunct, '')'') # rest" 0] order show ?thesis
      by (simp add: k parse_window.simps peek_hd)
  next
    case False
    with Cons.prems readsD(1) [OF assms, of p "(TPunct, '','') # join_toks (map toks ps) @ (TPunct, '')'') # rest" 0]
      Cons.IH [of k'] order comma
    show ?thesis by (simp add: k parse_window.simps join_toks_Cons expect_def peek_hd)
  qed
qed simp

abbreviation when_toks :: "(expr \<times> expr) list \<Rightarrow> token list" where
  "when_toks bs \<equiv> concat (map (\<lambda>b. (TIdent, ''WHEN'') # toks (fst b) @ (TIdent, ''THEN'') # toks (snd b)) bs)"

lemma parse_whens_reads:
  assumes "reads n pe"
  shows "list_all (\<lambda>b. renderable (fst b) \<and> renderable (snd b)) bs \<Longrightarrow> length bs < k \<Longrightarrow>
    length (when_toks bs) + Suc (length rest) < Suc n \<Longrightarrow>
    parse_whens pe k (when_toks bs @ (TIdent, ''ELSE'') # rest) = Inr (bs, (TIdent, ''ELSE'') # rest)"
proof (induction bs arbitrary: k)
  case Nil
  then show ?case by (cases k) (simp_all add: parse_whens.simps)
next
  case (Cons b bs)
  then obtain k' where k: "k = Suc k'" by (cases k) auto
  let ?more = "when_toks bs @ (TIdent, ''ELSE'') # rest"
  have "pe 0 (toks (fst b) @ (TIdent, ''THEN'') # toks (snd b) @ ?more)
      = Inr (fst b, (TIdent, ''THEN'') # toks (snd b) @ ?more)"
    using Cons.prems by (intro readsD(1) [OF assms]) simp_all
  moreover have "stops 0 ?more" by (cases bs) simp_all
  then have "pe 0 (toks (snd b) @ ?more) = Inr (snd b, ?more)"
    using Cons.prems by (intro readsD(1) [OF assms]) simp_all
  moreover have "parse_whens pe k' ?more = Inr (bs, (TIdent, ''ELSE'') # rest)"
    using Cons.prems k by (intro Cons.IH) simp_all
  ultimately show ?case by (simp add: k parse_whens.simps expect_def)
qed

lemma hd_join_toks_only [simp]: "es \<noteq> [] \<Longrightarrow> hd (join_toks (map toks es)) = hd (toks (hd es))"
  using hd_join_toks [of es "[]"] by simp

lemma binary_precedence_below: "binary_precedence op = Some p \<Longrightarrow> p < 60"
proof -
  assume "binary_precedence op = Some p"
  then have "(op, p) \<in> set [(''or'', 10), (''and'', 20), (''='', 30), (''!='', 30), (''<>'', 30), (''<'', 30),
    (''<='', 30), (''>'', 30), (''>='', 30), (''~='', 30), (''+'', 40), (''-'', 40), (''&'', 40), (''*'', 50),
    (''/'', 50), (''%'', 50)]" unfolding binary_precedence_def by (rule map_of_SomeD)
  then show ?thesis by auto
qed

lemma stops_60: "rest \<noteq> [] \<Longrightarrow> \<not> is_word ''over'' (hd rest) \<Longrightarrow> stops 60 rest"
  unfolding stops_def using binary_precedence_below by (auto split: option.split)

lemma binary_tok_reads:
  assumes "op \<in> set canonical_operators"
  shows "\<exists>p. binary_precedence (py_lower (snd (binary_tok op))) = Some p"
    and "canonical_binary (py_lower (snd (binary_tok op))) = op"
    and "\<not> is_word ''over'' (binary_tok op)"
proof -
  have "list_all (\<lambda>op. binary_precedence (py_lower (snd (binary_tok op))) \<noteq> None \<and>
      canonical_binary (py_lower (snd (binary_tok op))) = op \<and> \<not> is_word ''over'' (binary_tok op)) canonical_operators"
    by code_simp
  with assms show "\<exists>p. binary_precedence (py_lower (snd (binary_tok op))) = Some p"
    "canonical_binary (py_lower (snd (binary_tok op))) = op" "\<not> is_word ''over'' (binary_tok op)"
    by (auto simp: list_all_iff)
qed

lemma parse_over_none: "rest \<noteq> [] \<Longrightarrow> \<not> is_word ''over'' (hd rest) \<Longrightarrow> parse_over pe e rest = Inr (e, rest)"
  by (cases rest) (simp_all add: parse_over_def)

lemma parse_over_reads:
  assumes "reads n pe" and "renderable (Window e ps os frame)"
    and "length (join_toks (map toks ps)) + Suc (length rest) < n"
  shows "parse_over pe e ((TIdent, ''OVER'') # parens (join_toks (map toks ps)) @ rest) = Inr (Window e ps os frame, rest)"
proof (cases "ps = []")
  case True
  with assms(2) show ?thesis by (simp add: parse_over_def is_word_def parens_def expect_def)
next
  case False
  let ?ts = "join_toks (map toks ps) @ (TPunct, '')'') # rest"
  have "parse_window pe (Suc (length ?ts)) ?ts = Inr ((ps, []), rest)"
    using assms False length_join_toks [of ps] by (intro parse_window_reads) simp_all
  moreover have "peek ?ts = Inr (hd (toks (hd ps)))" using False by (simp add: peek_hd)
  moreover have "match_tok '')'' ?ts = Inr (False, ?ts)"
    using False assms(2) by (subst match_tok_hd) (simp_all add: not_paren_def)
  moreover have "\<not> is_word ''partition'' (hd (toks (hd ps)))" using False assms(2) by (simp add: not_word_def)
  moreover have "is_word ''over'' (TIdent, ''OVER'')" by (simp add: is_word_def)
  ultimately show ?thesis using assms(2) by (simp add: parse_over_def parens_def expect_def)
qed

text \<open>A word and its arguments are the node built for them, before a window is looked for.\<close>

lemma parse_call_reads:
  assumes "reads n pe" and "list_all renderable args" and "args \<noteq> [] \<Longrightarrow> not_paren (hd args)"
    and "length (join_toks (map toks args)) + Suc (length rest) < n"
  shows "parse_call pe lowered (join_toks (map toks args) @ (TPunct, '')'') # rest)
    = parse_over pe (call_node lowered args) rest"
proof (cases "args = []")
  case True
  then show ?thesis by (simp add: parse_call_def)
next
  case False
  let ?ts = "join_toks (map toks args) @ (TPunct, '')'') # rest"
  have "parse_args pe (Suc (length ?ts)) ?ts = Inr (args, rest)"
    using assms False length_join_toks [of args] by (intro parse_args_reads) simp_all
  moreover have "match_tok '')'' ?ts = Inr (False, ?ts)"
    using False assms(3) by (subst match_tok_hd) (simp_all add: not_paren_def)
  ultimately show ?thesis by (simp add: parse_call_def)
qed

text \<open>A word with arguments that is no word of the grammar.\<close>

definition call_word :: "string \<Rightarrow> bool" where
  "call_word w = (py_lower w \<notin> set [''not'', ''null'', ''true'', ''false'', ''case'', ''cast''])"

lemma prefix_word_reads:
  assumes "reads n pe" and "call_word w" and "list_all renderable args" and "args \<noteq> [] \<Longrightarrow> not_paren (hd args)"
    and "length (join_toks (map toks args)) + Suc (length rest) < n"
  shows "parse_prefix fl pe ((TIdent, w) # parens (join_toks (map toks args)) @ rest)
    = parse_over pe (call_node (py_lower w) args) rest"
  using parse_call_reads [OF assms(1,3,4,5), of "py_lower w"] assms(2)
  by (simp add: parse_prefix_def parse_word_def parens_def call_word_def)

lemma call_words: "call_word ''If''" "t \<in> set cast_targets \<Longrightarrow> call_word (cast_text t)"
    "t \<in> set cast_targets \<Longrightarrow> call_node (py_lower (cast_text t)) [e] = Cast e t"
proof -
  show "call_word ''If''" by code_simp
  have "list_all (\<lambda>t. call_word (cast_text t) \<and> py_lower (cast_text t) \<noteq> ''if'' \<and>
      cast_functions (py_lower (cast_text t)) = Some t) cast_targets" by code_simp
  then show "t \<in> set cast_targets \<Longrightarrow> call_word (cast_text t)"
    "t \<in> set cast_targets \<Longrightarrow> call_node (py_lower (cast_text t)) [e] = Cast e t"
    by (auto simp: list_all_iff call_node_def)
qed

lemma callable_node: "callable f (length args) \<Longrightarrow> call_word f \<and> call_node (py_lower f) args = Call f args"
  by (simp add: callable_def call_word_def call_node_def)

lemma prefix_literal:
  assumes "renderable_literal d v"
  shows "parse_prefix fl pe (literal_tok v # rest) = Inr (Literal d v, rest)"
proof (cases v)
  case (VInt i)
  have "CHR ''.'' \<notin> set (py_lower (nat_str n))" "CHR ''e'' \<notin> set (py_lower (nat_str n))" for n
  proof -
    have "py_lower (nat_str n) = nat_str n" using nat_str_digits [of n]
      by (auto simp: py_lower_def list_all_iff lower_char_def Let_def is_digit_def intro!: map_idI)
    moreover have "\<not> is_digit CHR ''.''" "\<not> is_digit CHR ''e''" by (simp_all add: is_digit_def code_point_def)
    ultimately show "CHR ''.'' \<notin> set (py_lower (nat_str n))" "CHR ''e'' \<notin> set (py_lower (nat_str n))"
      using nat_str_digits [of n] by (auto simp: list_all_iff)
  qed
  with VInt assms show ?thesis
    by (simp add: literal_tok_def renderable_literal_def parse_prefix_def int_str_def number_literal_def
        digits_val_nat_str)
qed (use assms in \<open>auto simp: literal_tok_def renderable_literal_def parse_prefix_def parse_word_def\<close>)

lemma prefix_unary:
  assumes "reads n pe" and "op \<in> set [''negate'', ''positive'', ''not'']" and "renderable e"
    and "length (parens (toks e) @ rest) < n" and "rest \<noteq> []" and "\<not> is_word ''over'' (hd rest)"
  shows "parse_prefix fl pe (unary_tok op # parens (toks e) @ rest) = Inr (Unary op e, rest)"
proof -
  have "pe 60 (parens (toks e) @ rest) = Inr (e, rest)"
    using assms by (intro readsD(2) [OF assms(1)] stops_60)
  with assms(2) show ?thesis by (auto simp: parse_prefix_def parse_unary_def unary_tok_def)
qed

lemma prefix_parens:
  assumes "reads n pe" and "renderable e" and "length (toks e) + Suc (length rest) < n"
  shows "parse_prefix fl pe (parens (toks e) @ rest) = Inr (e, rest)"
  using readsD(1) [OF assms(1,2), of "(TPunct, '')'') # rest" 0] assms(3)
  by (simp add: parse_prefix_def parens_def expect_def)

lemma prefix_binary:
  assumes "reads n pe" and "renderable (Binary op l r)" and "length (toks (Binary op l r) @ rest) \<le> n"
  shows "parse_prefix fl pe (toks (Binary op l r) @ rest) = Inr (Binary op l r, rest)"
  using readsD(3) [OF assms(1), of l r op rest] assms(2,3)
  by (simp add: parse_prefix_def parens_def expect_def)

lemma prefix_case:
  assumes "reads n pe" and "bs \<noteq> []" and "list_all (\<lambda>b. renderable (fst b) \<and> renderable (snd b)) bs" and "renderable e"
    and "length (when_toks bs) + length (toks e) + length rest + 2 < n"
  shows "parse_prefix fl pe ((TIdent, ''CASE'') # when_toks bs @ (TIdent, ''ELSE'') # toks e @ (TIdent, ''END'') # rest)
    = Inr (Case bs e, rest)"
proof -
  let ?else = "(TIdent, ''ELSE'') # toks e @ (TIdent, ''END'') # rest"
  have "length bs \<le> length (when_toks bs)" for bs :: "(expr \<times> expr) list" by (induction bs) simp_all
  from this [of bs] have "length bs < Suc (length (when_toks bs @ ?else))"
    and "length (when_toks bs) + Suc (length (toks e @ (TIdent, ''END'') # rest)) < Suc n"
    using assms(5) by simp_all
  then have "parse_whens pe (Suc (length (when_toks bs @ ?else))) (when_toks bs @ ?else) = Inr (bs, ?else)"
    using assms(3) by (intro parse_whens_reads [OF assms(1)])
  moreover have "pe 0 (toks e @ (TIdent, ''END'') # rest) = Inr (e, (TIdent, ''END'') # rest)"
    using assms by (intro readsD(1) [OF assms(1)]) simp_all
  ultimately have "parse_case pe (when_toks bs @ ?else) = Inr (Case bs e, rest)"
    using assms(2) by (simp add: parse_case_def expect_def)
  then show ?thesis by (simp add: parse_prefix_def parse_word_def)
qed

lemma prefix_reads:
  assumes "reads n pe" and "renderable e" and "length (toks e @ rest) \<le> n" and "rest \<noteq> []"
    and "\<not> is_word ''over'' (hd rest)"
  shows "parse_prefix fl pe (toks e @ rest) = Inr (e, rest)"
proof (cases e)
  case (Column m)
  then show ?thesis by (simp add: parse_prefix_def)
next
  case (Literal d v)
  with assms(2) prefix_literal show ?thesis by simp
next
  case (Unary op e')
  with prefix_unary [OF assms(1), of op e' rest] assms show ?thesis by simp
next
  case (Binary op l r)
  with prefix_binary [OF assms(1)] assms show ?thesis by simp
next
  case (Call f args)
  with assms(2) have call: "call_word f" "call_node (py_lower f) args = Call f args"
    using callable_node by auto
  have "parse_prefix fl pe ((TIdent, f) # parens (join_toks (map toks args)) @ rest)
      = parse_over pe (call_node (py_lower f) args) rest"
    using assms Call call(1) by (intro prefix_word_reads [OF assms(1)]) (simp_all add: parens_def)
  with Call call(2) parse_over_none [OF assms(4,5)] show ?thesis by simp
next
  case (Case bs d)
  show ?thesis
  proof (cases "length bs = 1")
    case True
    then obtain b where bs: "bs = [b]" by (cases bs) auto
    have "parse_prefix fl pe ((TIdent, ''If'') # parens (join_toks (map toks [fst b, snd b, d])) @ rest)
        = parse_over pe (call_node (py_lower ''If'') [fst b, snd b, d]) rest"
      using assms Case by (intro prefix_word_reads [OF assms(1)]) (simp_all add: bs parens_def call_words)
    with Case parse_over_none [OF assms(4,5)] show ?thesis by (simp add: bs call_node_def)
  next
    case False
    with assms(2) Case obtain b1 b2 bs' where bs: "bs = b1 # b2 # bs'" by (cases bs; cases "tl bs") auto
    then have toks: "toks e = (TIdent, ''CASE'') # when_toks bs @ (TIdent, ''ELSE'') # toks d @ [(TIdent, ''END'')]"
      by (simp add: Case)
    have "parse_prefix fl pe ((TIdent, ''CASE'') # when_toks bs @ (TIdent, ''ELSE'') # toks d @ (TIdent, ''END'') # rest)
        = Inr (Case bs d, rest)"
      using assms Case unfolding toks by (intro prefix_case [OF assms(1)]) simp_all
    then show ?thesis unfolding toks by (simp add: Case)
  qed
next
  case (Cast e' t)
  have "parse_prefix fl pe ((TIdent, cast_text t) # parens (join_toks (map toks [e'])) @ rest)
      = parse_over pe (call_node (py_lower (cast_text t)) [e']) rest"
    using assms Cast by (intro prefix_word_reads [OF assms(1)]) (simp_all add: parens_def call_words)
  with Cast assms(2) parse_over_none [OF assms(4,5)] show ?thesis by (simp add: call_words)
next
  case (Window e' ps os frame)
  with assms(2) obtain f args where e': "e' = Call f args" by (cases e') auto
  with assms(2) Window have call: "call_word f" "call_node (py_lower f) args = Call f args"
    using callable_node by auto
  let ?over = "(TIdent, ''OVER'') # parens (join_toks (map toks ps)) @ rest"
  have "parse_prefix fl pe ((TIdent, f) # parens (join_toks (map toks args)) @ ?over)
      = parse_over pe (call_node (py_lower f) args) ?over"
    using assms Window e' call(1) by (intro prefix_word_reads [OF assms(1)]) (simp_all add: parens_def)
  also have "\<dots> = Inr (Window e' ps os frame, rest)"
    unfolding call(2) e' [symmetric] using assms Window e'
    by (intro parse_over_reads [OF assms(1)]) (simp_all add: parens_def)
  finally show ?thesis using Window e' by simp
next
  case (Alias m e')
  with assms(2) show ?thesis by simp
qed

lemma climb_stops: "stops prec rest \<Longrightarrow> climb pe (Suc k) prec l rest = Inr (l, rest)"
  by (cases rest) (auto simp: stops_def climb.simps Let_def split: option.splits)

lemma stops_rest: "stops prec rest \<Longrightarrow> rest \<noteq> [] \<and> \<not> is_word ''over'' (hd rest)"
  by (simp add: stops_def)

lemma binary_precedence_rparen: "binary_precedence '')'' = None"
  by (simp add: binary_precedence_def)

lemma parse_expr_reads: "reads f (parse_expr fl f)"
proof (induction f)
  case 0
  show ?case by (simp add: reads_def)
next
  case (Suc f)
  let ?pe = "parse_expr fl f"
  show ?case unfolding reads_def
  proof (intro conjI allI impI)
    fix e rest prec
    assume "renderable e" "length (toks e @ rest) < Suc f" "stops prec rest"
    with prefix_reads [OF Suc, of e rest] stops_rest
    show "parse_expr fl (Suc f) prec (toks e @ rest) = Inr (e, rest)" by (simp add: climb_stops)
  next
    fix e rest prec
    assume "renderable e" "length (parens (toks e) @ rest) < Suc f" "stops prec rest"
    with prefix_parens [OF Suc, of e rest] show "parse_expr fl (Suc f) prec (parens (toks e) @ rest) = Inr (e, rest)"
      by (simp add: climb_stops parens_def)
  next
    fix op l r rest
    let ?close = "(TPunct, '')'') # rest"
    assume l: "renderable l" and r: "renderable r" and op: "op \<in> set canonical_operators"
      and len: "length (toks l @ binary_tok op # toks r @ ?close) < Suc f"
    note t = binary_tok_reads [OF op]
    from t(1) obtain p where p: "binary_precedence (py_lower (snd (binary_tok op))) = Some p" by blast
    have "parse_prefix fl ?pe (toks l @ binary_tok op # toks r @ ?close) = Inr (l, binary_tok op # toks r @ ?close)"
      using l len t(3) by (intro prefix_reads [OF Suc]) simp_all
    moreover have "?pe (Suc p) (toks r @ ?close) = Inr (r, ?close)"
      using r len by (intro readsD(1) [OF Suc]) simp_all
    ultimately show "parse_expr fl (Suc f) 0 (toks l @ binary_tok op # toks r @ ?close)
        = Inr (Binary op l r, ?close)"
      using p t(2) by (simp add: climb.simps [of _ "Suc _"] climb_stops Let_def binary_precedence_rparen)
  qed
qed

lemma stops_eof: "stops prec [(TEof, [])]"
  by (simp add: stops_def is_word_def binary_precedence_def py_lower_def)

lemma parse_rendered:
  assumes "renderable e"
  shows "\<exists>s. render_spotfire e = Inr s \<and> parse_expression fl s = Inr e"
proof -
  from renderable_renders [OF assms] obtain s where s: "render_spotfire e = Inr s" "lexes s (toks e)" by blast
  have "tokenize_expression [] = Inr [(TEof, [])]" by (simp add: tokenize_expression.simps)
  with s(2) have lex: "tokenize_expression s = Inr (toks e @ [(TEof, [])])"
    by (auto simp: lexes_def delimits_def dest: spec [of _ "[]"])
  have "parse_expr fl (Suc (length (toks e @ [(TEof, [])]))) 0 (toks e @ [(TEof, [])]) = Inr (e, [(TEof, [])])"
    using assms by (intro readsD(1) [OF parse_expr_reads] stops_eof) simp_all
  then have "parse_expression fl s = Inr e" by (simp add: parse_expression_def parse_tokens_def lex del: parse_expr.simps)
  with s(1) show ?thesis by blast
qed

text \<open>
  C29: Rendering a renderable tree gives a text that parses back to exactly that tree: no
  parenthesis, quote, precedence or alias is lost. Renderable trees have canonical operators, plain
  function names and column names without a closing bracket, and their windows have no order.
\<close>

theorem parse_render_roundtrip:
  assumes "renderable e"
  shows "\<exists>s. render_spotfire e = Inr s \<and> parse_expression fl s = Inr e"
  using assms by (rule parse_rendered)

text \<open>Nested operators, a quoted quote, a branch, a conversion and a window.\<close>

definition roundtrip_example :: expr where
  "roundtrip_example =
     Case [(Binary ''and'' (Binary ''>='' (Column ''a b'') (Literal ''int64'' (VInt 10)))
                           (Unary ''not'' (Call ''isnull'' [Column ''c''])),
            Cast (Binary ''concat'' (Literal ''string'' (VStr [CHR 0x22, CHR '')''])) (Column ''d'')) ''string'')]
          (Window (Call ''sum'' [Column ''x'']) [Column ''g'', Column ''h''] [] None)"

theorem parse_render_roundtrip_witness:
  "\<exists>s. render_spotfire roundtrip_example = Inr s \<and> parse_expression id s = Inr roundtrip_example"
proof (rule parse_render_roundtrip)
  show "renderable roundtrip_example" by code_simp
qed

text \<open>What keeps other trees from coming back.\<close>

lemma closing_bracket_not_escaped:
  "render_spotfire (Column ''a]b'') = Inr ''[a]b]'' \<and> (case parse_expression id ''[a]b]'' of Inl _ \<Rightarrow> True | Inr _ \<Rightarrow> False)"
  by code_simp

lemma conversion_loses_target:
  "render_spotfire (Cast (Column ''a'') ''date32'') = Inr ''Cast([a])'' \<and>
   parse_expression id ''Cast([a])'' = Inl syntax_error"
  by code_simp

lemma window_order_is_dropped:
  "render_spotfire (Window (Call ''rank'' []) [Column ''g''] [(Column ''t'', ''desc'', ''last'')] None)
     = Inr ''rank() OVER ([g])''"
  by code_simp

end
