(* ===== verification/ChangeReceipt.thy ===== *)
theory ChangeReceipt
  imports PyValue
begin

text \<open>
  \<open>runtime/change_receipt.py\<close>: the receipt a dataset commit leaves of what changed between two
  manifests. Manifests are JSON documents that anyone may have edited, so they stay dictionaries
  until \<open>with_segment_id\<close> reads a part; \<open>sha\<close> stands for the hexadecimal SHA-256 of a text.
\<close>

section \<open>JSON text\<close>

text \<open>\<open>json.dumps(v, sort_keys=True, separators=(",", ":"), ensure_ascii=True)\<close>.\<close>

definition json_char :: "char \<Rightarrow> string" where
  "json_char c = (let n = code_point c in
     if n = 34 \<or> n = 92 then [CHR 0x5C, c]
     else if n = 10 then [CHR 0x5C, CHR ''n'']
     else if n = 13 then [CHR 0x5C, CHR ''r'']
     else if n = 9 then [CHR 0x5C, CHR ''t'']
     else if n = 12 then [CHR 0x5C, CHR ''f'']
     else if n = 8 then [CHR 0x5C, CHR ''b'']
     else if 32 \<le> n \<and> n \<le> 126 then [c]
     else [CHR 0x5C, CHR ''u'', CHR ''0'', CHR ''0'', hex_digit (n div 16), hex_digit (n mod 16)])"

definition json_string :: "string \<Rightarrow> string" where
  "json_string s = CHR 0x22 # concat (map json_char s) @ [CHR 0x22]"

fun json_compact :: "pyval \<Rightarrow> string" where
  "json_compact VNone = ''null''"
| "json_compact (VBool b) = (if b then ''true'' else ''false'')"
| "json_compact (VInt i) = int_str i"
| "json_compact (VFloat s) = s"
| "json_compact (VStr s) = json_string s"
| "json_compact (VList xs) = ''['' @ join_with '','' (map json_compact xs) @ '']''"
| "json_compact (VTuple xs) = ''['' @ join_with '','' (map json_compact xs) @ '']''"
| "json_compact (VDict d) =
     ''{'' @ join_with '',''
       (map snd (sort_key fst (map (\<lambda>p. (fst p, json_string (fst p) @ '':'' @ json_compact (snd p))) d))) @ ''}''"

text \<open>What a document read back from JSON is: tuples have become lists.\<close>

fun json_safe :: "pyval \<Rightarrow> pyval" where
  "json_safe (VList xs) = VList (map json_safe xs)"
| "json_safe (VTuple xs) = VList (map json_safe xs)"
| "json_safe (VDict d) = VDict (map (\<lambda>p. (fst p, json_safe (snd p))) d)"
| "json_safe v = v"

section \<open>Reading documents\<close>

text \<open>\<open>(value or {})\<close> of a value whose \<open>get\<close> is called next.\<close>

fun mapping_or_empty :: "pyval \<Rightarrow> pydict result" where
  "mapping_or_empty (VDict d) = Inr d"
| "mapping_or_empty v = (if py_truthy v then Inl (AttributeError ''get'') else Inr [])"

definition int_or_zero :: "pydict \<Rightarrow> string \<Rightarrow> int result" where
  "int_or_zero d k = py_int (py_or (get_key d k) (VInt 0))"

section \<open>Segments\<close>

record segment =
  sg_path :: string
  sg_rows :: int
  sg_size :: int
  sg_sha :: string
  sg_schema :: string
  sg_schema_hash :: string
  sg_id :: string

definition segment_to_dict :: "segment \<Rightarrow> pydict" where
  "segment_to_dict s =
     [(''relative_path'', VStr (sg_path s)), (''rows'', VInt (sg_rows s)), (''size_bytes'', VInt (sg_size s)),
      (''sha256'', VStr (sg_sha s)), (''schema'', VStr (sg_schema s)),
      (''schema_hash'', VStr (sg_schema_hash s)), (''segment_id'', VStr (sg_id s))]"

definition with_segment_id :: "(string \<Rightarrow> string) \<Rightarrow> pydict \<Rightarrow> segment result" where
  "with_segment_id sha raw =
     res_bind (int_or_zero raw ''rows'') (\<lambda>rows.
     res_bind (int_or_zero raw ''size_bytes'') (\<lambda>size.
       let path = str_or (get_key raw ''relative_path'') [];
           digest = str_or (get_key raw ''sha256'') [];
           schema = str_or (get_key raw ''schema'') [];
           identity = path @ [CHR 0x00] @ digest @ [CHR 0x00] @ int_str rows
       in Inr \<lparr>sg_path = path, sg_rows = rows, sg_size = size, sg_sha = digest, sg_schema = schema,
               sg_schema_hash = sha schema, sg_id = str_or (get_key raw ''segment_id'') (sha identity)\<rparr>))"

text \<open>A part that names a file and its checksum; anything else in the list is skipped.\<close>

definition usable_part :: "pyval \<Rightarrow> bool" where
  "usable_part raw =
     (is_dict raw \<and> py_truthy (get_key (dict_of raw) ''relative_path'') \<and>
      py_truthy (get_key (dict_of raw) ''sha256''))"

definition normalized_parts :: "(string \<Rightarrow> string) \<Rightarrow> pydict \<Rightarrow> segment list result" where
  "normalized_parts sha manifest =
     res_bind (py_iter (py_or (get_key manifest ''parts'') (VList []))) (\<lambda>raws.
     res_bind (res_map (\<lambda>raw. with_segment_id sha (dict_of raw)) (filter usable_part raws)) (\<lambda>segments.
       Inr (sort_key sg_path segments)))"

section \<open>Identities\<close>

definition generation_document :: "segment list \<Rightarrow> string \<Rightarrow> pyval" where
  "generation_document parts plan_hash =
     VDict [(''parts'', VList (map (\<lambda>s. VDict
               [(''relative_path'', VStr (sg_path s)), (''rows'', VInt (sg_rows s)),
                (''sha256'', VStr (sg_sha s)), (''schema'', VStr (sg_schema s))]) (sort_key sg_path parts))),
            (''logical_plan_hash'', VStr plan_hash)]"

definition manifest_generation_id :: "(string \<Rightarrow> string) \<Rightarrow> segment list \<Rightarrow> pyval \<Rightarrow> string result" where
  "manifest_generation_id sha parts context =
     res_bind (mapping_or_empty context) (\<lambda>c.
       Inr (''dataset-'' @ sha (json_compact
              (generation_document parts (str_or (get_key c ''logical_plan_hash'') [])))))"

definition dataset_id :: "pydict \<Rightarrow> string" where
  "dataset_id context =
     str_or (get_key context ''preset'') ''dataset'' @ '':'' @ str_or (get_key context ''job_name'') ''unknown''"

section \<open>The receipt\<close>

record receipt =
  rc_dataset_id :: string
  rc_generation :: string
  rc_parent :: "string option"
  rc_added :: "segment list"
  rc_replaced :: "(segment \<times> segment) list"
  rc_removed :: "segment list"
  rc_unchanged :: nat

definition CHANGE_RECEIPT_SCHEMA_VERSION :: string where
  "CHANGE_RECEIPT_SCHEMA_VERSION = ''smoking-data.dataset-change-receipt.v1''"

definition receipt_to_dict :: "receipt \<Rightarrow> pydict" where
  "receipt_to_dict r =
     [(''schema_version'', VStr CHANGE_RECEIPT_SCHEMA_VERSION),
      (''dataset_id'', VStr (rc_dataset_id r)),
      (''generation_id'', VStr (rc_generation r)),
      (''parent_generation_id'', case rc_parent r of None \<Rightarrow> VNone | Some g \<Rightarrow> VStr g),
      (''manifest_version'', VStr ''smoking-data.dataset-manifest.v1''),
      (''changes'', VDict
        [(''added'', VList (map (\<lambda>s. VDict (segment_to_dict s)) (rc_added r))),
         (''replaced'', VList (map (\<lambda>(b, a). VDict [(''before'', VDict (segment_to_dict b)),
                                                (''after'', VDict (segment_to_dict a))]) (rc_replaced r))),
         (''removed'', VList (map (\<lambda>s. VDict (segment_to_dict s)) (rc_removed r))),
         (''unchanged_count'', VInt (int (rc_unchanged r)))])]"

definition by_path :: "segment list \<Rightarrow> (string \<times> segment) list" where
  "by_path segments = dict_of_pairs (map (\<lambda>s. (sg_path s, s)) segments)"

definition added_segments :: "(string \<times> segment) list \<Rightarrow> (string \<times> segment) list \<Rightarrow> segment list" where
  "added_segments previous current = map snd (filter (\<lambda>(p, s). map_of previous p = None) current)"

definition replaced_segments :: "(string \<times> segment) list \<Rightarrow> (string \<times> segment) list \<Rightarrow> (segment \<times> segment) list" where
  "replaced_segments previous current =
     concat (map (\<lambda>(p, s). case map_of previous p of
                      None \<Rightarrow> [] | Some b \<Rightarrow> if sg_id b \<noteq> sg_id s then [(b, s)] else []) current)"

definition unchanged_count :: "(string \<times> segment) list \<Rightarrow> (string \<times> segment) list \<Rightarrow> nat" where
  "unchanged_count previous current =
     length (filter (\<lambda>(p, s). case map_of previous p of None \<Rightarrow> False | Some b \<Rightarrow> sg_id b = sg_id s) current)"

definition removed_segments :: "(string \<times> segment) list \<Rightarrow> (string \<times> segment) list \<Rightarrow> segment list" where
  "removed_segments previous current = map snd (filter (\<lambda>(p, s). map_of current p = None) previous)"

definition parent_generation ::
  "(string \<Rightarrow> string) \<Rightarrow> pydict \<Rightarrow> segment list \<Rightarrow> string option result" where
  "parent_generation sha manifest previous =
     (if py_truthy (get_key manifest ''generation_id'') then Inr (Some (py_str (get_key manifest ''generation_id'')))
      else if manifest \<noteq> []
           then res_bind (manifest_generation_id sha previous (get_key manifest ''context'')) (\<lambda>g. Inr (Some g))
      else Inr None)"

text \<open>A missing manifest is the empty one. The counts of the caller's report are lengths of these lists.\<close>

definition build_dataset_change_receipt ::
  "(string \<Rightarrow> string) \<Rightarrow> pydict \<Rightarrow> pydict list \<Rightarrow> pydict \<Rightarrow> receipt result" where
  "build_dataset_change_receipt sha manifest current_parts context =
     res_bind (normalized_parts sha manifest) (\<lambda>previous.
     res_bind (res_map (with_segment_id sha) current_parts) (\<lambda>current.
     res_bind (manifest_generation_id sha current (VDict context)) (\<lambda>generation.
     res_bind (parent_generation sha manifest previous) (\<lambda>parent.
       let before = by_path previous; now = by_path current in
       Inr \<lparr>rc_dataset_id = dataset_id context, rc_generation = generation, rc_parent = parent,
            rc_added = added_segments before now, rc_replaced = replaced_segments before now,
            rc_removed = removed_segments before now, rc_unchanged = unchanged_count before now\<rparr>))))"

section \<open>Validation\<close>

fun is_str :: "pyval \<Rightarrow> bool" where
  "is_str (VStr _) = True" | "is_str _ = False"

definition str_of :: "pyval \<Rightarrow> string" where
  "str_of v = (case v of VStr s \<Rightarrow> s | _ \<Rightarrow> [])"

text \<open>\<open>isinstance(v, int) and v >= 0\<close>; a boolean is an int.\<close>

definition natural_int :: "pyval \<Rightarrow> bool" where
  "natural_int v = (case v of VInt i \<Rightarrow> 0 \<le> i | VBool _ \<Rightarrow> True | _ \<Rightarrow> False)"

definition nonempty_text :: "pyval \<Rightarrow> bool" where
  "nonempty_text v = (str_of v \<noteq> [])"

definition digest_text :: "pyval \<Rightarrow> bool" where
  "digest_text v = (length (str_of v) = 64)"

definition valid_segment :: "pyval \<Rightarrow> bool" where
  "valid_segment value =
     (is_dict value \<and>
      (let d = dict_of value in
       nonempty_text (get_key d ''relative_path'') \<and> nonempty_text (get_key d ''segment_id'') \<and>
       digest_text (get_key d ''sha256'') \<and> digest_text (get_key d ''schema_hash'') \<and>
       natural_int (get_key d ''rows'')))"

fun list_of :: "pyval \<Rightarrow> pyval list" where
  "list_of (VList xs) = xs" | "list_of _ = []"

definition valid_changes :: "pyval \<Rightarrow> bool" where
  "valid_changes changes =
     (is_dict changes \<and>
      (let d = dict_of changes in
       is_list (get_key d ''added'') \<and> is_list (get_key d ''replaced'') \<and> is_list (get_key d ''removed'') \<and>
       natural_int (get_key d ''unchanged_count'') \<and>
       list_all valid_segment (list_of (get_key d ''added'')) \<and>
       list_all valid_segment (list_of (get_key d ''removed'')) \<and>
       list_all (\<lambda>item. is_dict item \<and> valid_segment (get_key (dict_of item) ''before'') \<and>
                       valid_segment (get_key (dict_of item) ''after''))
         (list_of (get_key d ''replaced''))))"

definition validate_dataset_change_receipt :: "pyval \<Rightarrow> pydict option \<Rightarrow> bool" where
  "validate_dataset_change_receipt value manifest =
     (is_dict value \<and>
      (let d = dict_of value in
       get_key d ''schema_version'' = VStr CHANGE_RECEIPT_SCHEMA_VERSION \<and>
       nonempty_text (get_key d ''dataset_id'') \<and> nonempty_text (get_key d ''generation_id'') \<and>
       (case manifest of None \<Rightarrow> True | Some m \<Rightarrow> get_key m ''generation_id'' = get_key d ''generation_id'') \<and>
       valid_changes (get_key d ''changes'')))"

section \<open>A receipt says exactly what changed\<close>

lemma by_path_wf: "dict_wf (by_path ss)"
  by (simp add: by_path_def dict_wf_of_pairs)

lemma by_path_key: "(p, s) \<in> set (by_path ss) \<Longrightarrow> sg_path s = p \<and> s \<in> set ss"
proof -
  have "\<forall>(p, s) \<in> set d. sg_path s = p \<and> s \<in> S \<Longrightarrow> \<forall>s \<in> set ss. s \<in> S \<Longrightarrow>
      \<forall>(p, s) \<in> set (fold (\<lambda>(k, v) d. dict_put k v d) (map (\<lambda>s. (sg_path s, s)) ss) d). sg_path s = p \<and> s \<in> S"
    for d S
  proof (induction ss arbitrary: d)
    case (Cons s ss)
    have "\<forall>(p, s) \<in> set (dict_put (sg_path s) s d). sg_path s = p \<and> s \<in> S"
      using set_dict_put [of "sg_path s" s d] Cons.prems by fastforce
    from Cons.IH [OF this] Cons.prems show ?case by simp
  qed simp
  from this [of "[]" "set ss"] show "(p, s) \<in> set (by_path ss) \<Longrightarrow> sg_path s = p \<and> s \<in> set ss"
    by (auto simp: by_path_def dict_of_pairs_def)
qed

lemma by_path_segment: "map_of (by_path ss) p = Some s \<Longrightarrow> sg_path s = p"
  by (drule map_of_SomeD) (simp add: by_path_key)

text \<open>Reading a receipt as the change of a map from paths to segments.\<close>

definition segment_at :: "string \<Rightarrow> segment list \<Rightarrow> segment option" where
  "segment_at p ss = find (\<lambda>s. sg_path s = p) ss"

definition apply_receipt :: "receipt \<Rightarrow> (string \<Rightarrow> segment option) \<Rightarrow> string \<Rightarrow> segment option" where
  "apply_receipt r m p =
     (case segment_at p (rc_added r @ map snd (rc_replaced r)) of
        Some s \<Rightarrow> Some s
      | None \<Rightarrow> if segment_at p (rc_removed r) = None then m p else None)"

lemma segment_at_eq_None: "segment_at p ss = None \<longleftrightarrow> (\<forall>s \<in> set ss. sg_path s \<noteq> p)"
  by (auto simp: segment_at_def find_None_iff)

lemma segment_at_Some: "segment_at p ss = Some s \<Longrightarrow> s \<in> set ss \<and> sg_path s = p"
  by (auto simp: segment_at_def find_Some_iff)

lemma in_added: "s \<in> set (added_segments P C) \<longleftrightarrow> (\<exists>p. (p, s) \<in> set C \<and> map_of P p = None)"
  unfolding added_segments_def by force

lemma in_removed: "s \<in> set (removed_segments P C) \<longleftrightarrow> (\<exists>p. (p, s) \<in> set P \<and> map_of C p = None)"
  unfolding removed_segments_def by force

lemma in_replaced:
  "(b, a) \<in> set (replaced_segments P C) \<longleftrightarrow> (\<exists>p. (p, a) \<in> set C \<and> map_of P p = Some b \<and> sg_id b \<noteq> sg_id a)"
  unfolding replaced_segments_def by (force split: option.splits if_splits)

lemma dict_wf_lookup: "dict_wf d \<Longrightarrow> (k, v) \<in> set d \<longleftrightarrow> map_of d k = Some v"
  unfolding dict_wf_def by auto

lemma receipt_reaches_current:
  assumes "rc_added r = added_segments P C" and "rc_replaced r = replaced_segments P C"
    and "rc_removed r = removed_segments P C" and "P = by_path previous" and "C = by_path current"
  shows "map_option sg_id (apply_receipt r (map_of P) p) = map_option sg_id (map_of C p)"
proof -
  have P: "(q, s) \<in> set P \<longleftrightarrow> map_of P q = Some s" "map_of P q = Some s \<Longrightarrow> sg_path s = q"
    and C: "(q, s) \<in> set C \<longleftrightarrow> map_of C q = Some s" "map_of C q = Some s \<Longrightarrow> sg_path s = q" for q s
    unfolding assms(4,5) by (simp_all add: dict_wf_lookup by_path_wf by_path_segment)
  have P_key: "map_of P q = Some s \<longleftrightarrow> q = sg_path s \<and> map_of P (sg_path s) = Some s" for q s
    using P(2) [of q s] by auto
  have C_key: "map_of C q = Some s \<longleftrightarrow> q = sg_path s \<and> map_of C (sg_path s) = Some s" for q s
    using C(2) [of q s] by auto
  let ?new = "rc_added r @ map snd (rc_replaced r)"
  have new: "s \<in> set ?new \<longleftrightarrow> map_of C (sg_path s) = Some s \<and>
      (case map_of P (sg_path s) of None \<Rightarrow> True | Some b \<Rightarrow> sg_id b \<noteq> sg_id s)" for s
  proof -
    have "s \<in> set (added_segments P C) \<longleftrightarrow> map_of C (sg_path s) = Some s \<and> map_of P (sg_path s) = None"
      unfolding in_added P(1) C(1) using C(2) by metis
    moreover have "s \<in> snd ` set (replaced_segments P C) \<longleftrightarrow>
        map_of C (sg_path s) = Some s \<and> (\<exists>b. map_of P (sg_path s) = Some b \<and> sg_id b \<noteq> sg_id s)"
    proof -
      have "s \<in> snd ` set (replaced_segments P C) \<longleftrightarrow> (\<exists>b. (b, s) \<in> set (replaced_segments P C))"
        by (auto simp: image_iff Bex_def)
      also have "\<dots> \<longleftrightarrow> (\<exists>b p. map_of C p = Some s \<and> map_of P p = Some b \<and> sg_id b \<noteq> sg_id s)"
        unfolding in_replaced C(1) by (rule refl)
      finally show ?thesis by (subst (asm) C_key) simp
    qed
    ultimately show ?thesis by (auto simp: assms(1,2) split: option.splits)
  qed
  show ?thesis
  proof (cases "segment_at p ?new")
    case (Some s)
    with segment_at_Some [OF Some] new [of s] show ?thesis by (simp add: apply_receipt_def)
  next
    case None
    then have unchanged: "map_of C p = Some s \<Longrightarrow> \<exists>b. map_of P p = Some b \<and> sg_id b = sg_id s" for s
      using new [of s] C(2) [of p s] by (fastforce simp: segment_at_eq_None split: option.splits)
    have "segment_at p (rc_removed r) = None \<longleftrightarrow> (map_of P p = None \<or> map_of C p \<noteq> None)"
    proof -
      have "s \<in> set (rc_removed r) \<longleftrightarrow> map_of P (sg_path s) = Some s \<and> map_of C (sg_path s) = None" for s
        unfolding assms(3) in_removed P(1) by (subst P_key) simp
      note removed = this
      show ?thesis
      proof (cases "map_of P p")
        case None
        with P(2) removed show ?thesis by (auto simp: segment_at_eq_None)
      next
        case (Some b)
        with P(2) [of p b] removed [of b] P(2) show ?thesis
          by (auto simp: segment_at_eq_None removed dest: bspec [of _ _ b])
      qed
    qed
    with None unchanged show ?thesis by (cases "map_of C p") (auto simp: apply_receipt_def)
  qed
qed

lemma length_filter_keys:
  assumes "dict_wf d"
  shows "length (filter (\<lambda>(p, s). Q p) d) = card {p \<in> dom (map_of d). Q p}"
proof -
  have f: "(\<lambda>(p, s). Q p) = Q \<circ> fst" by auto
  have "length (filter (\<lambda>(p, s). Q p) d) = length (filter Q (map fst d))"
    unfolding f by (simp add: filter_map)
  also have "\<dots> = card (set (filter Q (map fst d)))"
    using assms distinct_card [of "filter Q (map fst d)"] by (simp add: dict_wf_def)
  also have "set (filter Q (map fst d)) = {p \<in> dom (map_of d). Q p}"
    by (auto simp: dom_map_of_conv_image_fst)
  finally show ?thesis .
qed

lemma receipt_counts:
  assumes "dict_wf P" and "dict_wf C"
  shows "length (added_segments P C) + length (replaced_segments P C) + unchanged_count P C = length C"
    and "length (removed_segments P C) + length (replaced_segments P C) + unchanged_count P C = length P"
proof -
  have step: "length (added_segments P C) + length (replaced_segments P C) + unchanged_count P C = length C" for C
  proof (induction C)
    case (Cons x C)
    then show ?case by (cases x; cases "map_of P (fst x)")
        (simp_all add: added_segments_def replaced_segments_def unchanged_count_def)
  qed (simp add: added_segments_def replaced_segments_def unchanged_count_def)
  from step show "length (added_segments P C) + length (replaced_segments P C) + unchanged_count P C = length C" .
  have "length (replaced_segments P C) + unchanged_count P C = length (filter (\<lambda>(p, s). map_of P p \<noteq> None) C)" for C
  proof (induction C)
    case (Cons x C)
    then show ?case by (cases x; cases "map_of P (fst x)") (simp_all add: replaced_segments_def unchanged_count_def)
  qed (simp add: replaced_segments_def unchanged_count_def)
  also have "length (filter (\<lambda>(p, s). map_of P p \<noteq> None) C) = card (dom (map_of P) \<inter> dom (map_of C))"
    using length_filter_keys [OF assms(2), of "\<lambda>p. map_of P p \<noteq> None"]
    by (simp add: Int_def dom_def conj_commute)
  finally have both: "length (replaced_segments P C) + unchanged_count P C = card (dom (map_of P) \<inter> dom (map_of C))" .
  have "length (removed_segments P C) = card (dom (map_of P) - dom (map_of C))"
    using length_filter_keys [OF assms(1), of "\<lambda>p. map_of C p = None"]
    by (simp add: removed_segments_def set_diff_eq dom_def)
  moreover have "length P = card (dom (map_of P))"
    using assms(1) distinct_card [of "map fst P"] by (simp add: dict_wf_def dom_map_of_conv_image_fst)
  ultimately show "length (removed_segments P C) + length (replaced_segments P C) + unchanged_count P C = length P"
    using both card_Diff_subset_Int [of "dom (map_of P)" "dom (map_of C)"]
      card_mono [of "dom (map_of P)" "dom (map_of P) \<inter> dom (map_of C)"] by (simp add: finite_dom_map_of)
qed


text \<open>
  C38: Applied to the parts of the previous manifest, a receipt gives exactly the segments of the
  new parts; its lists and count cover every path of either side once.
\<close>

theorem receipt_is_exact_delta:
  assumes "build_dataset_change_receipt sha manifest parts context = Inr r"
  shows "\<exists>previous current. normalized_parts sha manifest = Inr previous \<and>
    res_map (with_segment_id sha) parts = Inr current \<and>
    (\<forall>p. map_option sg_id (apply_receipt r (map_of (by_path previous)) p) = map_option sg_id (map_of (by_path current) p)) \<and>
    length (rc_added r) + length (rc_replaced r) + rc_unchanged r = length (by_path current) \<and>
    length (rc_removed r) + length (rc_replaced r) + rc_unchanged r = length (by_path previous)"
proof -
  from assms obtain previous current where parts: "normalized_parts sha manifest = Inr previous"
      "res_map (with_segment_id sha) parts = Inr current"
    and r: "rc_added r = added_segments (by_path previous) (by_path current)"
      "rc_replaced r = replaced_segments (by_path previous) (by_path current)"
      "rc_removed r = removed_segments (by_path previous) (by_path current)"
      "rc_unchanged r = unchanged_count (by_path previous) (by_path current)"
    unfolding build_dataset_change_receipt_def Let_def by (auto simp: res_simps)
  from receipt_reaches_current [OF r(1-3) refl refl] receipt_counts [OF by_path_wf by_path_wf]
  show ?thesis using parts unfolding r by blast
qed

text \<open>One part added, one replaced, one removed, one kept.\<close>

definition sample_part :: "string \<Rightarrow> string \<Rightarrow> pydict" where
  "sample_part p digest = [(''relative_path'', VStr p), (''rows'', VInt 3), (''sha256'', VStr digest)]"

definition sample_manifest :: pydict where
  "sample_manifest =
     [(''parts'', VList [VDict (sample_part ''a'' ''x''), VDict (sample_part ''b'' ''x''), VDict (sample_part ''c'' ''x'')])]"

definition sample_receipt :: "receipt result" where
  "sample_receipt = build_dataset_change_receipt id sample_manifest
     [sample_part ''b'' ''y'', sample_part ''c'' ''x'', sample_part ''d'' ''x''] []"

theorem receipt_is_exact_delta_witness:
  "\<exists>r previous current. sample_receipt = Inr r \<and> map sg_path (rc_added r) = [''d''] \<and>
     map (sg_path \<circ> fst) (rc_replaced r) = [''b''] \<and> map sg_path (rc_removed r) = [''a''] \<and> rc_unchanged r = 1 \<and>
     length (rc_added r) + length (rc_replaced r) + rc_unchanged r = length (by_path current) \<and>
     length (rc_removed r) + length (rc_replaced r) + rc_unchanged r = length (by_path previous)"
proof -
  have "case sample_receipt of Inl _ \<Rightarrow> False
    | Inr r \<Rightarrow> map sg_path (rc_added r) = [''d''] \<and> map (sg_path \<circ> fst) (rc_replaced r) = [''b''] \<and>
        map sg_path (rc_removed r) = [''a''] \<and> rc_unchanged r = 1" by code_simp
  from res_evaluated [OF this] obtain r where r: "sample_receipt = Inr r" "map sg_path (rc_added r) = [''d'']"
      "map (sg_path \<circ> fst) (rc_replaced r) = [''b'']" "map sg_path (rc_removed r) = [''a'']" "rc_unchanged r = 1"
    by (elim exE conjE)
  from receipt_is_exact_delta [OF r(1) [unfolded sample_receipt_def]]
  obtain previous current where
    "length (rc_added r) + length (rc_replaced r) + rc_unchanged r = length (by_path current)"
    "length (rc_removed r) + length (rc_replaced r) + rc_unchanged r = length (by_path previous)"
    by (elim exE conjE)
  with r show ?thesis by (intro exI conjI)
qed

end
