(* ===== verification/Transactions.thy ===== *)
theory Transactions
  imports ChangeReceipt
begin

text \<open>
  \<open>runtime/transactions.py\<close>: publishing a dataset directory by staging it beside the final one and
  renaming. The disk is the parent directory of the dataset: its entries are directories, each a
  map from relative paths to files. Every operation on it takes the next outcome of a script: it
  works, raises an OSError, or the process dies in it; an interrupted removal, copy or write leaves
  any part of its work behind. Renaming a directory is atomic.
\<close>

section \<open>The disk\<close>

text \<open>A JSON document is kept as its value, any other file as its bytes.\<close>

datatype stored_file = Bytes string | Json pyval

type_synonym dir = "(string \<times> stored_file) list"

datatype outcome = Works | Fails int "string list" | Dies "string list"

record disk =
  dk_dirs :: "(string \<times> dir) list"
  dk_script :: "outcome list"

datatype 'a run = Ret 'a | Raised py_error | Dead

type_synonym 'a io = "disk \<Rightarrow> 'a run \<times> disk"

definition io_ret :: "'a \<Rightarrow> 'a io" where
  "io_ret x = (\<lambda>d. (Ret x, d))"

definition io_raise :: "py_error \<Rightarrow> 'a io" where
  "io_raise e = (\<lambda>d. (Raised e, d))"

definition io_lift :: "'a result \<Rightarrow> 'a io" where
  "io_lift r = (case r of Inl e \<Rightarrow> io_raise e | Inr x \<Rightarrow> io_ret x)"

definition io_bind :: "'a io \<Rightarrow> ('a \<Rightarrow> 'b io) \<Rightarrow> 'b io" where
  "io_bind m f = (\<lambda>d. case m d of (Ret x, d') \<Rightarrow> f x d' | (Raised e, d') \<Rightarrow> (Raised e, d') | (Dead, d') \<Rightarrow> (Dead, d'))"

text \<open>\<open>except BaseException\<close>: a process that was killed runs no handler.\<close>

definition io_catch :: "'a io \<Rightarrow> (py_error \<Rightarrow> 'a io) \<Rightarrow> 'a io" where
  "io_catch m h = (\<lambda>d. case m d of (Raised e, d') \<Rightarrow> h e d' | r \<Rightarrow> r)"

definition io_dirs :: "((string \<times> dir) list \<Rightarrow> 'a) \<Rightarrow> 'a io" where
  "io_dirs f = (\<lambda>d. (Ret (f (dk_dirs d)), d))"

definition entry_exists :: "string \<Rightarrow> bool io" where
  "entry_exists a = io_dirs (\<lambda>ds. map_of ds a \<noteq> None)"

text \<open>One operation: what it does when it works, and what it leaves of \<open>keep\<close> when it is interrupted.\<close>

definition io_step ::
  "((string \<times> dir) list \<Rightarrow> ('a \<times> (string \<times> dir) list) result)
   \<Rightarrow> (string list \<Rightarrow> (string \<times> dir) list \<Rightarrow> (string \<times> dir) list) \<Rightarrow> 'a io" where
  "io_step act left = (\<lambda>d.
     let (outcome, rest) = (case dk_script d of [] \<Rightarrow> (Works, []) | s # ss \<Rightarrow> (s, ss));
         put = (\<lambda>ds. \<lparr>dk_dirs = ds, dk_script = rest\<rparr>)
     in case outcome of
          Works \<Rightarrow> (case act (dk_dirs d) of
                       Inl e \<Rightarrow> (Raised e, put (dk_dirs d)) | Inr (x, ds) \<Rightarrow> (Ret x, put ds))
        | Fails n keep \<Rightarrow> (Raised (OSError n), put (left keep (dk_dirs d)))
        | Dies keep \<Rightarrow> (Dead, put (left keep (dk_dirs d))))"

definition ENOENT :: int where "ENOENT = 2"
definition EXDEV :: int where "EXDEV = 18"
definition ENOTEMPTY :: int where "ENOTEMPTY = 39"

text \<open>\<open>os.replace\<close> of directories: the target is absent or empty.\<close>

definition os_replace :: "string \<Rightarrow> string \<Rightarrow> unit io" where
  "os_replace a b =
     io_step (\<lambda>ds. case map_of ds a of
                     None \<Rightarrow> Inl (OSError ENOENT)
                   | Some x \<Rightarrow> if map_of ds b \<in> {None, Some []} then Inr ((), dict_put b x (dict_del a ds))
                               else Inl (OSError ENOTEMPTY))
       (\<lambda>_ ds. ds)"

definition kept_files :: "string list \<Rightarrow> dir \<Rightarrow> dir" where
  "kept_files keep x = filter (\<lambda>(p, f). p \<in> set keep) x"

definition remove_tree :: "string \<Rightarrow> unit io" where
  "remove_tree a =
     io_step (\<lambda>ds. Inr ((), dict_del a ds))
       (\<lambda>keep ds. case map_of ds a of None \<Rightarrow> ds | Some x \<Rightarrow> dict_put a (kept_files keep x) ds)"

definition reset_path :: "string \<Rightarrow> unit io" where
  "reset_path a = io_bind (entry_exists a) (\<lambda>there. if there then remove_tree a else io_ret ())"

definition ensure_dir :: "string \<Rightarrow> unit io" where
  "ensure_dir a = io_step (\<lambda>ds. Inr ((), if map_of ds a = None then dict_put a [] ds else ds)) (\<lambda>_ ds. ds)"

definition copy_tree :: "string \<Rightarrow> string \<Rightarrow> unit io" where
  "copy_tree a b =
     io_step (\<lambda>ds. case map_of ds a of None \<Rightarrow> Inl (OSError ENOENT) | Some x \<Rightarrow> Inr ((), dict_put b x ds))
       (\<lambda>keep ds. case map_of ds a of None \<Rightarrow> ds | Some x \<Rightarrow> dict_put b (kept_files keep x) ds)"

definition put_file :: "string \<Rightarrow> string \<Rightarrow> stored_file \<Rightarrow> (string \<times> dir) list \<Rightarrow> (string \<times> dir) list" where
  "put_file root path f ds =
     (case map_of ds root of None \<Rightarrow> ds | Some x \<Rightarrow> dict_put root (dict_put path f x) ds)"

text \<open>\<open>write_text\<close> truncates the file first; what is left is any text.\<close>

definition write_file :: "string \<Rightarrow> string \<Rightarrow> stored_file \<Rightarrow> unit io" where
  "write_file root path f =
     io_step (\<lambda>ds. if map_of ds root = None then Inl (OSError ENOENT) else Inr ((), put_file root path f ds))
       (\<lambda>keep ds. if keep = [] then ds else put_file root path (Bytes (concat keep)) ds)"

section \<open>Manifests\<close>

text \<open>SHA-256, the text a JSON document is written as, and what a Parquet file says of its rows and schema.\<close>

record tools =
  tl_sha :: "string \<Rightarrow> string"
  tl_text :: "pyval \<Rightarrow> string"
  tl_parquet :: "string \<Rightarrow> (int \<times> string) result"

definition file_bytes :: "tools \<Rightarrow> stored_file \<Rightarrow> string" where
  "file_bytes t f = (case f of Bytes b \<Rightarrow> b | Json v \<Rightarrow> tl_text t v)"

definition file_size :: "tools \<Rightarrow> stored_file \<Rightarrow> int" where
  "file_size t f = int (length (file_bytes t f))"

definition file_sha256 :: "tools \<Rightarrow> stored_file \<Rightarrow> string" where
  "file_sha256 t f = tl_sha t (file_bytes t f)"

definition load_json :: "stored_file \<Rightarrow> pyval option" where
  "load_json f = (case f of Bytes _ \<Rightarrow> None | Json v \<Rightarrow> Some (json_safe v))"

definition MANIFEST :: string where "MANIFEST = ''_dataset.manifest.json''"

definition MANIFEST_TMP :: string where "MANIFEST_TMP = ''_dataset.manifest.json.tmp''"

definition RECEIPT :: string where "RECEIPT = ''_smoking_data/change-receipt.json''"

definition METADATA :: string where "METADATA = ''_smoking_data/metadata.json''"

definition DATASET_MANIFEST_VERSION :: string where
  "DATASET_MANIFEST_VERSION = ''smoking-data.dataset-manifest.v1''"

definition read_manifest :: "dir \<Rightarrow> pydict option" where
  "read_manifest x =
     (case Option.bind (map_of x MANIFEST) load_json of Some (VDict m) \<Rightarrow> Some m | _ \<Rightarrow> None)"

definition read_dataset_change_receipt :: "dir \<Rightarrow> pyval option" where
  "read_dataset_change_receipt x =
     (case Option.bind (map_of x RECEIPT) load_json of
        Some v \<Rightarrow> if validate_dataset_change_receipt v None then Some v else None | None \<Rightarrow> None)"

section \<open>The transaction\<close>

record transaction =
  tx_final :: string
  tx_staging :: string
  tx_backup :: string
  tx_id :: string
  tx_context :: pydict

definition staging_prefix :: "string \<Rightarrow> string" where
  "staging_prefix final = ''.'' @ final @ ''.txn-''"

definition backup_prefix :: "string \<Rightarrow> string" where
  "backup_prefix final = ''.'' @ final @ ''.backup-''"

definition copy_prefix :: "string \<Rightarrow> string" where
  "copy_prefix final = ''.'' @ final @ ''.copy-''"

text \<open>\<open>uuid\<close> is the random hexadecimal name of the transaction.\<close>

definition create_transaction :: "string \<Rightarrow> string \<Rightarrow> pydict \<Rightarrow> transaction io" where
  "create_transaction final uuid context =
     (let tx = \<lparr>tx_final = final, tx_staging = staging_prefix final @ uuid, tx_backup = backup_prefix final @ uuid,
                tx_id = uuid, tx_context = context\<rparr>
      in io_bind (reset_path (tx_staging tx)) (\<lambda>_.
         io_bind (ensure_dir (tx_staging tx)) (\<lambda>_. io_ret tx)))"

section \<open>Sealing the staged dataset\<close>

definition artifact_format :: "pydict \<Rightarrow> string" where
  "artifact_format context = str_or (get_key context ''artifact_format'') ''parquet''"

definition ends_with :: "string \<Rightarrow> string \<Rightarrow> bool" where
  "ends_with s p = starts_with (rev s) (rev p)"

text \<open>Paths sort by their components.\<close>

definition part_paths :: "string \<Rightarrow> dir \<Rightarrow> string list" where
  "part_paths artifact x =
     sort_key (split_on (CHR ''/''))
       (filter (\<lambda>p. ends_with p (if artifact = ''sbdf'' then ''.sbdf'' else ''.parquet'')) (dict_keys x))"

text \<open>\<open>dict(value or {})\<close>; a list of pairs is not expected here.\<close>

fun dict_copy :: "pyval \<Rightarrow> pydict result" where
  "dict_copy (VDict d) = Inr d"
| "dict_copy v = (if py_truthy v then Inl (TypeError ''dict'') else Inr [])"

text \<open>Rows, schema and key sidecar of a part.\<close>

definition part_facts ::
  "tools \<Rightarrow> string \<Rightarrow> pydict \<Rightarrow> string \<Rightarrow> stored_file \<Rightarrow> (int \<times> string \<times> string) result" where
  "part_facts t artifact sbdf_parts path f =
     (if artifact = ''sbdf''
      then res_bind (dict_copy (get_key sbdf_parts path)) (\<lambda>part.
           res_bind (int_or_zero part ''rows'') (\<lambda>rows.
             let schema = str_or (get_key part ''schema'') [] in
             raise_if (rows < 0 \<or> schema = []) (RuntimeError ''transaction.sbdf_metadata'')
               (Inr (rows, schema, str_or (get_key part ''key_sidecar_relative_path'') []))))
      else res_bind (tl_parquet t (file_bytes t f)) (\<lambda>(rows, schema). Inr (rows, schema, [])))"

definition part_entry ::
  "tools \<Rightarrow> string \<Rightarrow> pydict \<Rightarrow> dir \<Rightarrow> string \<Rightarrow> (int \<times> string \<times> pydict) result" where
  "part_entry t artifact sbdf_parts x path =
     (case map_of x path of
        None \<Rightarrow> Inl (RuntimeError ''transaction.invalid_part'')
      | Some f \<Rightarrow>
          raise_if (file_size t f = 0) (RuntimeError ''transaction.invalid_part'')
            (res_bind (part_facts t artifact sbdf_parts path f) (\<lambda>(rows, schema, sidecar).
               Inr (rows, sidecar,
                    [(''relative_path'', VStr path), (''rows'', VInt rows), (''size_bytes'', VInt (file_size t f)),
                     (''sha256'', VStr (file_sha256 t f)), (''schema'', VStr schema)]))))"

definition with_sidecar :: "string \<Rightarrow> pydict \<Rightarrow> pydict" where
  "with_sidecar sidecar d = d @ [(''format'', VStr ''sbdf''), (''key_sidecar_relative_path'', VStr sidecar)]"

text \<open>The parts as the manifest lists them, in the order of their paths.\<close>

definition manifest_parts :: "tools \<Rightarrow> string \<Rightarrow> (int \<times> string \<times> pydict) list \<Rightarrow> pydict list result" where
  "manifest_parts t artifact entries =
     res_bind (normalized_parts (tl_sha t) [(''parts'', VList (map (\<lambda>(r, k, p). VDict p) entries))]) (\<lambda>segments.
       let sidecars = map (\<lambda>(r, k, p). (str_of (get_key p ''relative_path''), k)) entries in
       Inr (map (\<lambda>s. if artifact = ''sbdf''
                     then with_sidecar (case map_of sidecars (sg_path s) of None \<Rightarrow> [] | Some k \<Rightarrow> k) (segment_to_dict s)
                     else segment_to_dict s) segments))"

definition manifest_dict :: "transaction \<Rightarrow> receipt \<Rightarrow> int \<Rightarrow> pydict list \<Rightarrow> pydict" where
  "manifest_dict tx r rows parts =
     [(''version'', VStr DATASET_MANIFEST_VERSION), (''transaction_id'', VStr (tx_id tx)),
      (''generation_id'', VStr (rc_generation r)),
      (''parent_generation_id'', case rc_parent r of None \<Rightarrow> VNone | Some g \<Rightarrow> VStr g),
      (''change_receipt'', VStr RECEIPT), (''rows'', VInt rows), (''parts'', VList (map VDict parts)),
      (''context'', json_safe (VDict (tx_context tx)))]"

text \<open>The receipt and the manifest of a staged directory, given the previous manifest.\<close>

definition build_manifest :: "tools \<Rightarrow> transaction \<Rightarrow> pydict option \<Rightarrow> dir \<Rightarrow> (receipt \<times> pydict) result" where
  "build_manifest t tx previous x =
     (let context = tx_context tx; artifact = artifact_format context in
      res_bind (dict_copy (get_key context ''sbdf_parts'')) (\<lambda>sbdf_parts.
      res_bind (res_map (part_entry t artifact sbdf_parts x) (part_paths artifact x)) (\<lambda>entries.
      res_bind (manifest_parts t artifact entries) (\<lambda>parts.
      res_bind (build_dataset_change_receipt (tl_sha t) (case previous of None \<Rightarrow> [] | Some m \<Rightarrow> m) parts context) (\<lambda>r.
        Inr (r, manifest_dict tx r (sum_list (map fst entries)) parts))))))"

definition receipt_file :: "receipt \<Rightarrow> stored_file" where
  "receipt_file r = Json (VDict (receipt_to_dict r))"

definition validate_and_write_manifest :: "tools \<Rightarrow> transaction \<Rightarrow> pydict option \<Rightarrow> pydict io" where
  "validate_and_write_manifest t tx previous =
     io_bind (io_dirs (\<lambda>ds. case map_of ds (tx_staging tx) of None \<Rightarrow> [] | Some x \<Rightarrow> x)) (\<lambda>x.
     io_bind (io_lift (build_manifest t tx previous x)) (\<lambda>(r, m).
     io_bind (write_file (tx_staging tx) RECEIPT (receipt_file r)) (\<lambda>_.
     io_bind (write_file (tx_staging tx) MANIFEST (Json (VDict m))) (\<lambda>_. io_ret m))))"

section \<open>Commit, abort and recovery\<close>

definition copied_correctly :: "tools \<Rightarrow> dir \<Rightarrow> pyval \<Rightarrow> bool" where
  "copied_correctly t x item =
     (case map_of x (py_str (get_key (dict_of item) ''relative_path'')) of
        None \<Rightarrow> False | Some f \<Rightarrow> VStr (file_sha256 t f) = get_key (dict_of item) ''sha256'')"

definition verify_copy :: "tools \<Rightarrow> string \<Rightarrow> pydict \<Rightarrow> unit io" where
  "verify_copy t swap m =
     io_bind (io_dirs (\<lambda>ds. case map_of ds swap of None \<Rightarrow> [] | Some x \<Rightarrow> x)) (\<lambda>x.
       if list_all (copied_correctly t x) (list_of (get_key m ''parts'')) then io_ret ()
       else io_raise (RuntimeError ''transaction.copy_verification''))"

definition copy_verify_swap :: "tools \<Rightarrow> string \<Rightarrow> string \<Rightarrow> string \<Rightarrow> pydict \<Rightarrow> unit io" where
  "copy_verify_swap t swap source final m =
     io_bind (reset_path swap) (\<lambda>_.
     io_catch
       (io_bind (copy_tree source swap) (\<lambda>_.
        io_bind (verify_copy t swap m) (\<lambda>_.
        io_bind (os_replace swap final) (\<lambda>_. reset_path source))))
       (\<lambda>e. io_bind (reset_path swap) (\<lambda>_. io_raise e)))"

datatype commit_mode = SameFilesystem | CrossFilesystem

text \<open>\<open>copy_id\<close> is the random name of the copy that a rename across filesystems needs.\<close>

definition swap_in :: "tools \<Rightarrow> string \<Rightarrow> transaction \<Rightarrow> pydict \<Rightarrow> commit_mode io" where
  "swap_in t copy_id tx m =
     io_catch (io_bind (os_replace (tx_staging tx) (tx_final tx)) (\<lambda>_. io_ret SameFilesystem))
       (\<lambda>e. if e \<noteq> OSError EXDEV then io_raise e
            else io_bind (copy_verify_swap t (copy_prefix (tx_final tx) @ copy_id) (tx_staging tx) (tx_final tx) m)
                   (\<lambda>_. io_ret CrossFilesystem))"

definition restore_backup :: "transaction \<Rightarrow> bool \<Rightarrow> unit io" where
  "restore_backup tx moved =
     io_bind (entry_exists (tx_backup tx)) (\<lambda>kept.
     io_bind (entry_exists (tx_final tx)) (\<lambda>there.
       if moved \<and> kept \<and> \<not> there then os_replace (tx_backup tx) (tx_final tx) else io_ret ()))"

text \<open>The paths a list of manifest parts names.\<close>

definition named_paths :: "pyval \<Rightarrow> string list result" where
  "named_paths parts =
     res_bind (py_iter parts) (\<lambda>items.
       Inr (dict_fromkeys (map (\<lambda>i. py_str (get_key (dict_of i) ''relative_path''))
         (filter (\<lambda>i. is_dict i \<and> py_truthy (get_key (dict_of i) ''relative_path'')) items))))"

definition stale_parts :: "pydict option \<Rightarrow> pydict \<Rightarrow> string list result" where
  "stale_parts previous current =
     res_bind (named_paths (get_default (case previous of None \<Rightarrow> [] | Some m \<Rightarrow> m) ''parts'' (VList []))) (\<lambda>before.
     res_bind (named_paths (get_default current ''parts'' (VList []))) (\<lambda>now.
       Inr (sort (filter (\<lambda>p. p \<notin> set now) before))))"

record commit_report =
  cm_paths :: "string list"
  cm_rows :: pyval
  cm_mode :: commit_mode
  cm_stale :: "string list"

definition commit_transaction :: "tools \<Rightarrow> string \<Rightarrow> transaction \<Rightarrow> commit_report io" where
  "commit_transaction t copy_id tx =
     io_bind (io_dirs (\<lambda>ds. Option.bind (map_of ds (tx_final tx)) read_manifest)) (\<lambda>previous.
     io_bind (validate_and_write_manifest t tx previous) (\<lambda>m.
     io_bind (entry_exists (tx_final tx)) (\<lambda>there.
     io_bind (if there then os_replace (tx_final tx) (tx_backup tx) else io_ret ()) (\<lambda>_.
     io_bind (io_catch (swap_in t copy_id tx m) (\<lambda>e. io_bind (restore_backup tx there) (\<lambda>_. io_raise e))) (\<lambda>mode.
     io_bind (reset_path (tx_backup tx)) (\<lambda>_.
     io_bind (io_lift (stale_parts previous m)) (\<lambda>stale.
       io_ret \<lparr>cm_paths = map (\<lambda>i. py_str (get_key (dict_of i) ''relative_path'')) (list_of (get_key m ''parts'')),
               cm_rows = get_key m ''rows'', cm_mode = mode, cm_stale = stale\<rparr>)))))))"

definition abort_transaction :: "transaction \<Rightarrow> unit io" where
  "abort_transaction tx =
     io_bind (reset_path (tx_staging tx)) (\<lambda>_.
     io_bind (entry_exists (tx_backup tx)) (\<lambda>kept.
     io_bind (entry_exists (tx_final tx)) (\<lambda>there.
       if kept \<and> \<not> there then os_replace (tx_backup tx) (tx_final tx) else reset_path (tx_backup tx))))"

fun remove_all :: "string list \<Rightarrow> unit io" where
  "remove_all [] = io_ret ()"
| "remove_all (a # as) = io_bind (reset_path a) (\<lambda>_. remove_all as)"

definition with_prefix :: "string \<Rightarrow> (string \<times> dir) list \<Rightarrow> string list" where
  "with_prefix p ds = dict_fromkeys (filter (\<lambda>a. starts_with a p) (dict_keys ds))"

text \<open>The numbers of removed staging directories and restored backups.\<close>

definition recover_orphan_transactions :: "string \<Rightarrow> (nat \<times> nat) io" where
  "recover_orphan_transactions final =
     io_bind (io_dirs (with_prefix (staging_prefix final))) (\<lambda>staging.
     io_bind (remove_all staging) (\<lambda>_.
     io_bind (io_dirs (\<lambda>ds. sort (with_prefix (backup_prefix final) ds))) (\<lambda>backups.
     io_bind (entry_exists final) (\<lambda>there.
       if \<not> there \<and> backups \<noteq> []
       then io_bind (os_replace (last backups) final) (\<lambda>_.
            io_bind (remove_all (butlast backups)) (\<lambda>_. io_ret (length staging, 1)))
       else io_bind (remove_all backups) (\<lambda>_. io_ret (length staging, 0))))))"

section \<open>Provenance and validation\<close>

definition provenance_of :: "tools \<Rightarrow> dir \<Rightarrow> pyval" where
  "provenance_of t x =
     VList (map (\<lambda>p. case map_of x p of
                   None \<Rightarrow> VNone
                 | Some f \<Rightarrow> VDict [(''relative_path'', VStr p), (''size_bytes'', VInt (file_size t f)),
                                   (''sha256'', VStr (file_sha256 t f))])
       (sort_key (split_on (CHR ''/'')) (filter (\<lambda>p. starts_with p ''_smoking_data/'') (dict_keys x))))"

definition has_provenance :: "dir \<Rightarrow> bool" where
  "has_provenance x = list_ex (\<lambda>p. starts_with p ''_smoking_data/'') (dict_keys x)"

definition refreshed_manifest :: "tools \<Rightarrow> dir \<Rightarrow> pydict option" where
  "refreshed_manifest t x =
     (if has_provenance x then map_option (dict_put ''provenance'' (provenance_of t x)) (read_manifest x) else None)"

text \<open>The rename of the new manifest over the old one, inside the dataset.\<close>

definition replace_manifest :: "string \<Rightarrow> unit io" where
  "replace_manifest root =
     io_step (\<lambda>ds. case map_of ds root of
                     None \<Rightarrow> Inl (OSError ENOENT)
                   | Some x \<Rightarrow> (case map_of x MANIFEST_TMP of
                       None \<Rightarrow> Inl (OSError ENOENT)
                     | Some f \<Rightarrow> Inr ((), dict_put root (dict_put MANIFEST f (dict_del MANIFEST_TMP x)) ds)))
       (\<lambda>_ ds. ds)"

definition refresh_dataset_manifest_provenance :: "tools \<Rightarrow> string \<Rightarrow> unit io" where
  "refresh_dataset_manifest_provenance t final =
     io_bind (io_dirs (\<lambda>ds. Option.bind (map_of ds final) (refreshed_manifest t))) (\<lambda>m.
       case m of
         None \<Rightarrow> io_ret ()
       | Some m \<Rightarrow> io_bind (write_file final MANIFEST_TMP (Json (VDict m))) (\<lambda>_. replace_manifest final))"

definition recorded_size :: "pydict \<Rightarrow> int result" where
  "recorded_size item = py_int (py_or (get_key item ''size_bytes'') (VInt (-1)))"

definition listed_file_ok :: "tools \<Rightarrow> bool \<Rightarrow> dir \<Rightarrow> pyval \<Rightarrow> bool result" where
  "listed_file_ok t nonempty x item =
     (if \<not> is_dict item \<or> \<not> py_truthy (get_key (dict_of item) ''relative_path'') then Inr False
      else (case map_of x (py_str (get_key (dict_of item) ''relative_path'')) of
              None \<Rightarrow> Inr False
            | Some f \<Rightarrow>
                if nonempty \<and> file_size t f = 0 then Inr False
                else res_bind (recorded_size (dict_of item)) (\<lambda>n.
                  Inr (file_size t f = n \<and> get_key (dict_of item) ''sha256'' = VStr (file_sha256 t f)))))"

fun all_ok :: "('a \<Rightarrow> bool result) \<Rightarrow> 'a list \<Rightarrow> bool result" where
  "all_ok f [] = Inr True"
| "all_ok f (x # xs) = res_bind (f x) (\<lambda>ok. if ok then all_ok f xs else Inr False)"

definition receipt_ok :: "dir \<Rightarrow> pydict \<Rightarrow> bool" where
  "receipt_ok x m =
     (py_truthy (get_key m ''change_receipt'') \<longrightarrow>
      (case read_dataset_change_receipt x of None \<Rightarrow> False | Some r \<Rightarrow> validate_dataset_change_receipt r (Some m)))"

definition lists_metadata :: "pyval list \<Rightarrow> bool" where
  "lists_metadata items = list_ex (\<lambda>i. py_str (get_key (dict_of i) ''relative_path'') = METADATA) items"

definition validate_committed_dataset :: "tools \<Rightarrow> dir \<Rightarrow> bool result" where
  "validate_committed_dataset t x =
     (case read_manifest x of
        None \<Rightarrow> Inr False
      | Some m \<Rightarrow>
          if get_key m ''version'' \<noteq> VStr DATASET_MANIFEST_VERSION \<or> \<not> receipt_ok x m \<or> \<not> is_list (get_key m ''parts'')
          then Inr False
          else res_bind (all_ok (listed_file_ok t True x) (list_of (get_key m ''parts''))) (\<lambda>parts.
               if \<not> parts \<or> \<not> is_list (get_key m ''provenance'') \<or> list_of (get_key m ''provenance'') = [] then Inr False
               else res_bind (all_ok (listed_file_ok t False x) (list_of (get_key m ''provenance''))) (\<lambda>files.
                 Inr (files \<and> lists_metadata (list_of (get_key m ''provenance''))))))"

section \<open>Hoare triples for interrupted programs\<close>

text \<open>
  From a disk in \<open>P\<close> the program returns in \<open>Q\<close>, or raises or dies with a disk in \<open>E\<close>, whatever the
  script says.
\<close>

definition hoare ::
  "((string \<times> dir) list \<Rightarrow> bool) \<Rightarrow> 'a io \<Rightarrow> ('a \<Rightarrow> (string \<times> dir) list \<Rightarrow> bool)
   \<Rightarrow> ((string \<times> dir) list \<Rightarrow> bool) \<Rightarrow> bool" where
  "hoare P m Q E =
     (\<forall>d. P (dk_dirs d) \<longrightarrow> (case m d of (Ret x, d') \<Rightarrow> Q x (dk_dirs d') | (_, d') \<Rightarrow> E (dk_dirs d')))"

named_theorems hoare_intros "rules for the disk programs"

lemma hoare_ret [hoare_intros]: "(\<And>ds. P ds \<Longrightarrow> Q x ds) \<Longrightarrow> hoare P (io_ret x) Q E"
  by (simp add: hoare_def io_ret_def)

lemma hoare_raise [hoare_intros]: "(\<And>ds. P ds \<Longrightarrow> E ds) \<Longrightarrow> hoare P (io_raise e) Q E"
  by (simp add: hoare_def io_raise_def)

lemma hoare_lift: "(\<And>ds x. P ds \<Longrightarrow> r = Inr x \<Longrightarrow> Q x ds) \<Longrightarrow> (\<And>ds. P ds \<Longrightarrow> E ds) \<Longrightarrow> hoare P (io_lift r) Q E"
  by (cases r) (simp_all add: io_lift_def hoare_ret hoare_raise)

lemma hoare_dirs: "(\<And>ds. P ds \<Longrightarrow> Q (f ds) ds) \<Longrightarrow> hoare P (io_dirs f) Q E"
  by (simp add: hoare_def io_dirs_def)

lemma hoare_bind: "hoare P m Q E \<Longrightarrow> (\<And>x. hoare (Q x) (f x) R E) \<Longrightarrow> hoare P (io_bind m f) R E"
  unfolding hoare_def io_bind_def
  by (fastforce split: run.splits prod.splits)

lemma hoare_catch:
  assumes "hoare P m Q F" and "\<And>e. hoare F (h e) Q E" and "\<And>ds. F ds \<Longrightarrow> E ds"
  shows "hoare P (io_catch m h) Q E"
  unfolding hoare_def
proof (intro allI impI)
  fix d :: disk assume "P (dk_dirs d)"
  with assms(1) have m: "case m d of (Ret x, d') \<Rightarrow> Q x (dk_dirs d') | (_, d') \<Rightarrow> F (dk_dirs d')"
    by (simp add: hoare_def)
  obtain r d' where md: "m d = (r, d')" by force
  show "case io_catch m h d of (Ret x, d') \<Rightarrow> Q x (dk_dirs d') | (_, d') \<Rightarrow> E (dk_dirs d')"
  proof (cases r)
    case (Ret x)
    with m md show ?thesis by (simp add: io_catch_def)
  next
    case (Raised e)
    with m md assms(2) [of e] show ?thesis by (simp add: io_catch_def hoare_def)
  next
    case Dead
    with m md assms(3) show ?thesis by (simp add: io_catch_def)
  qed
qed

lemma hoare_weaken: "hoare P' m Q' E' \<Longrightarrow> (\<And>ds. P ds \<Longrightarrow> P' ds) \<Longrightarrow> (\<And>x ds. Q' x ds \<Longrightarrow> Q x ds) \<Longrightarrow>
    (\<And>ds. E' ds \<Longrightarrow> E ds) \<Longrightarrow> hoare P m Q E"
  unfolding hoare_def by (fastforce split: run.splits prod.splits)

lemma hoare_if: "(b \<Longrightarrow> hoare P m Q E) \<Longrightarrow> (\<not> b \<Longrightarrow> hoare P m' Q E) \<Longrightarrow> hoare P (if b then m else m') Q E"
  by simp

lemma hoare_step:
  assumes "\<And>ds x ds'. P ds \<Longrightarrow> act ds = Inr (x, ds') \<Longrightarrow> Q x ds'" and "\<And>ds e. P ds \<Longrightarrow> act ds = Inl e \<Longrightarrow> E ds"
    and "\<And>ds keep. P ds \<Longrightarrow> E (left keep ds)"
  shows "hoare P (io_step act left) Q E"
  unfolding hoare_def io_step_def Let_def using assms
  by (auto split: list.splits outcome.splits sum.splits prod.splits)

lemma hoare_replace:
  assumes "\<And>ds x. P ds \<Longrightarrow> map_of ds a = Some x \<Longrightarrow> map_of ds b \<in> {None, Some []} \<Longrightarrow> Q (dict_put b x (dict_del a ds))"
    and "\<And>ds. P ds \<Longrightarrow> E ds"
  shows "hoare P (os_replace a b) (\<lambda>_. Q) E"
  unfolding os_replace_def using assms by (intro hoare_step) (auto split: option.splits if_splits)

lemma hoare_remove:
  assumes "\<And>ds. P ds \<Longrightarrow> Q (dict_del a ds)" and "\<And>ds. P ds \<Longrightarrow> E ds"
    and "\<And>ds x y. P ds \<Longrightarrow> map_of ds a = Some x \<Longrightarrow> E (dict_put a y ds)"
  shows "hoare P (remove_tree a) (\<lambda>_. Q) E"
  unfolding remove_tree_def using assms by (intro hoare_step) (auto split: option.splits)

lemma hoare_reset:
  assumes "\<And>ds. P ds \<Longrightarrow> Q (dict_del a ds)" and "\<And>ds. P ds \<Longrightarrow> map_of ds a = None \<Longrightarrow> Q ds"
    and "\<And>ds. P ds \<Longrightarrow> E ds" and "\<And>ds x y. P ds \<Longrightarrow> map_of ds a = Some x \<Longrightarrow> E (dict_put a y ds)"
  shows "hoare P (reset_path a) (\<lambda>_. Q) E"
  unfolding reset_path_def entry_exists_def
proof (rule hoare_bind [OF hoare_dirs [of _ "\<lambda>there ds. P ds \<and> there = (map_of ds a \<noteq> None)"]])
  show "hoare (\<lambda>ds. P ds \<and> there = (map_of ds a \<noteq> None)) (if there then remove_tree a else io_ret ()) (\<lambda>_. Q) E" for there
    using assms by (intro hoare_if hoare_remove hoare_ret) auto
qed simp

text \<open>Without faults a program returns and uses up no script.\<close>

definition runs :: "((string \<times> dir) list \<Rightarrow> bool) \<Rightarrow> 'a io \<Rightarrow> bool" where
  "runs P m = (\<forall>d. P (dk_dirs d) \<and> dk_script d = [] \<longrightarrow> (case m d of (Ret x, d') \<Rightarrow> dk_script d' = [] | _ \<Rightarrow> False))"

lemma runs_ret: "runs P (io_ret x)" and runs_dirs: "runs P (io_dirs f)"
  by (simp_all add: runs_def io_ret_def io_dirs_def)

lemma runs_bind:
  assumes "runs P m" and "hoare P m Q (\<lambda>_. True)" and "\<And>x. runs (Q x) (f x)"
  shows "runs P (io_bind m f)"
  unfolding runs_def
proof (intro allI impI)
  fix d :: disk assume d: "P (dk_dirs d) \<and> dk_script d = []"
  with assms(1) obtain x d' where m: "m d = (Ret x, d')" "dk_script d' = []"
    unfolding runs_def by (fastforce split: run.splits prod.splits)
  with d assms(2) have "Q x (dk_dirs d')" by (fastforce simp: hoare_def)
  with m assms(3) [of x] show "case io_bind m f d of (Ret x, d') \<Rightarrow> dk_script d' = [] | _ \<Rightarrow> False"
    by (simp add: io_bind_def runs_def)
qed

lemma runs_step: "(\<And>ds. P ds \<Longrightarrow> \<exists>y. act ds = Inr y) \<Longrightarrow> runs P (io_step act left)"
  unfolding runs_def io_step_def Let_def by (fastforce split: sum.splits prod.splits)

lemma runs_reset: "runs P (reset_path a)"
  unfolding reset_path_def entry_exists_def remove_tree_def
  by (rule runs_bind [OF runs_dirs, of _ _ "\<lambda>_ _. True"]) (auto simp: hoare_def io_dirs_def intro!: runs_step runs_ret)

section \<open>The phases of a commit\<close>

definition proper_transaction :: "transaction \<Rightarrow> bool" where
  "proper_transaction tx =
     (tx_staging tx = staging_prefix (tx_final tx) @ tx_id tx \<and> tx_backup tx = backup_prefix (tx_final tx) @ tx_id tx)"

definition copy_name :: "transaction \<Rightarrow> string \<Rightarrow> string" where
  "copy_name tx copy_id = copy_prefix (tx_final tx) @ copy_id"

lemma starts_with_self [simp]: "starts_with (p @ s) p"
  by (simp add: starts_with_append)

lemma transaction_names:
  assumes "proper_transaction tx"
  shows "tx_final tx \<noteq> tx_backup tx" "tx_final tx \<noteq> tx_staging tx" "tx_final tx \<noteq> copy_name tx c"
    "tx_backup tx \<noteq> tx_staging tx" "tx_backup tx \<noteq> copy_name tx c" "tx_staging tx \<noteq> copy_name tx c"
    "starts_with (tx_backup tx) (backup_prefix (tx_final tx))" "starts_with (tx_staging tx) (staging_prefix (tx_final tx))"
    "\<not> starts_with (tx_final tx) (backup_prefix (tx_final tx))" "\<not> starts_with (tx_final tx) (staging_prefix (tx_final tx))"
    "\<not> starts_with (copy_name tx c) (backup_prefix (tx_final tx))"
    "\<not> starts_with (copy_name tx c) (staging_prefix (tx_final tx))"
    "\<not> starts_with (tx_staging tx) (backup_prefix (tx_final tx))"
    "\<not> starts_with (tx_backup tx) (staging_prefix (tx_final tx))"
proof -
  note defs = copy_name_def copy_prefix_def staging_prefix_def backup_prefix_def starts_with_iff
  have len: "n \<noteq> ''.'' @ n @ r" for n r :: string
  proof
    assume "n = ''.'' @ n @ r"
    then have "length n = length (''.'' @ n @ r)" by simp
    then show False by simp
  qed
  have p: "tx_staging tx = staging_prefix (tx_final tx) @ tx_id tx" "tx_backup tx = backup_prefix (tx_final tx) @ tx_id tx"
    using assms by (simp_all add: proper_transaction_def)
  show "tx_final tx \<noteq> tx_backup tx" "tx_final tx \<noteq> tx_staging tx" "tx_final tx \<noteq> copy_name tx c"
    using len [of "tx_final tx"] by (simp_all add: p defs)
  show "tx_backup tx \<noteq> tx_staging tx" "tx_backup tx \<noteq> copy_name tx c" "tx_staging tx \<noteq> copy_name tx c"
    by (simp_all add: p defs)
  show "starts_with (tx_backup tx) (backup_prefix (tx_final tx))" "starts_with (tx_staging tx) (staging_prefix (tx_final tx))"
    by (simp_all add: p)
  show "\<not> starts_with (tx_final tx) (backup_prefix (tx_final tx))" "\<not> starts_with (tx_final tx) (staging_prefix (tx_final tx))"
    using len [of "tx_final tx"] by (simp_all add: defs)
  show "\<not> starts_with (copy_name tx c) (backup_prefix (tx_final tx))"
    "\<not> starts_with (copy_name tx c) (staging_prefix (tx_final tx))"
    "\<not> starts_with (tx_staging tx) (backup_prefix (tx_final tx))"
    "\<not> starts_with (tx_backup tx) (staging_prefix (tx_final tx))"
    by (simp_all add: p defs)
qed

lemma prefix_disjoint: "starts_with k (staging_prefix n) \<Longrightarrow> \<not> starts_with k (backup_prefix n)"
  by (auto simp: staging_prefix_def backup_prefix_def starts_with_iff)

lemmas name_simps = transaction_names transaction_names(1-6) [THEN not_sym]

text \<open>
  What the disk holds besides work in progress: entries of other datasets are as at the start, and
  no other backup of this dataset lies around.
\<close>

definition frame :: "transaction \<Rightarrow> string \<Rightarrow> (string \<times> dir) list \<Rightarrow> (string \<times> dir) list \<Rightarrow> bool" where
  "frame tx c start ds =
     (proper_transaction tx \<and>
      (\<forall>k. k \<noteq> tx_final tx \<and> k \<noteq> copy_name tx c \<and> \<not> starts_with k (staging_prefix (tx_final tx)) \<and>
           \<not> starts_with k (backup_prefix (tx_final tx)) \<longrightarrow> map_of ds k = map_of start k) \<and>
      (\<forall>k. starts_with k (backup_prefix (tx_final tx)) \<and> k \<noteq> tx_backup tx \<longrightarrow> map_of ds k = None))"

definition untouched :: "transaction \<Rightarrow> string \<Rightarrow> (string \<times> dir) list \<Rightarrow> (string \<times> dir) list \<Rightarrow> bool" where
  "untouched tx c start ds =
     (frame tx c start ds \<and> map_of ds (tx_final tx) = map_of start (tx_final tx) \<and> map_of ds (tx_backup tx) = None)"

definition moved_away :: "transaction \<Rightarrow> string \<Rightarrow> (string \<times> dir) list \<Rightarrow> (string \<times> dir) list \<Rightarrow> bool" where
  "moved_away tx c start ds =
     (frame tx c start ds \<and> map_of ds (tx_final tx) = None \<and> map_of start (tx_final tx) \<noteq> None \<and>
      map_of ds (tx_backup tx) = map_of start (tx_final tx))"

definition published ::
  "transaction \<Rightarrow> string \<Rightarrow> dir option \<Rightarrow> (string \<times> dir) list \<Rightarrow> (string \<times> dir) list \<Rightarrow> bool" where
  "published tx c new start ds = (frame tx c start ds \<and> new \<noteq> None \<and> map_of ds (tx_final tx) = new)"

definition stable ::
  "transaction \<Rightarrow> string \<Rightarrow> dir option \<Rightarrow> (string \<times> dir) list \<Rightarrow> (string \<times> dir) list \<Rightarrow> bool" where
  "stable tx c new start ds = (untouched tx c start ds \<or> moved_away tx c start ds \<or> published tx c new start ds)"

lemmas phase_defs = untouched_def moved_away_def published_def frame_def

text \<open>Work in the staging directory and the copy changes no phase.\<close>

lemma phase_work:
  assumes "k = copy_name tx c \<or> starts_with k (staging_prefix (tx_final tx))"
  shows "untouched tx c start ds \<Longrightarrow> untouched tx c start (dict_put k x ds)"
    "untouched tx c start ds \<Longrightarrow> untouched tx c start (dict_del k ds)"
    "moved_away tx c start ds \<Longrightarrow> moved_away tx c start (dict_put k x ds)"
    "moved_away tx c start ds \<Longrightarrow> moved_away tx c start (dict_del k ds)"
    "published tx c new start ds \<Longrightarrow> published tx c new start (dict_put k x ds)"
    "published tx c new start ds \<Longrightarrow> published tx c new start (dict_del k ds)"
  using assms unfolding phase_defs by (auto simp: dict_simps name_simps dest: prefix_disjoint sym [of "Some _"])

lemma stable_work:
  assumes "stable tx c new start ds" and "k = copy_name tx c \<or> starts_with k (staging_prefix (tx_final tx))"
  shows "stable tx c new start (dict_put k x ds)" "stable tx c new start (dict_del k ds)"
  using assms(1) phase_work [OF assms(2)] unfolding stable_def by blast+

lemma untouched_start:
  "proper_transaction tx \<Longrightarrow> (\<And>k. starts_with k (backup_prefix (tx_final tx)) \<Longrightarrow> map_of start k = None) \<Longrightarrow>
     untouched tx c start start"
  unfolding phase_defs using transaction_names(7) [of tx] by auto

text \<open>The renames of a commit.\<close>

lemma move_away:
  assumes "untouched tx c start ds" and "map_of ds (tx_final tx) = Some x"
  shows "moved_away tx c start (dict_put (tx_backup tx) x (dict_del (tx_final tx) ds))"
  using assms unfolding phase_defs by (auto simp: dict_simps name_simps dest: prefix_disjoint sym [of "Some _"])

lemma move_back:
  assumes "moved_away tx c start ds" and "map_of ds (tx_backup tx) = Some x"
  shows "untouched tx c start (dict_put (tx_final tx) x (dict_del (tx_backup tx) ds))"
  using assms unfolding phase_defs by (auto simp: dict_simps name_simps dest: prefix_disjoint sym [of "Some _"])

lemma move_in:
  assumes "frame tx c start ds" and "k = copy_name tx c \<or> k = tx_staging tx"
  shows "published tx c (Some x) start (dict_put (tx_final tx) x (dict_del k ds))"
  using assms unfolding phase_defs by (auto simp: dict_simps name_simps dest: prefix_disjoint sym [of "Some _"])

lemma drop_backup:
  assumes "published tx c new start ds"
  shows "published tx c new start (dict_del (tx_backup tx) ds)" "published tx c new start (dict_put (tx_backup tx) y ds)"
  using assms unfolding phase_defs by (auto simp: dict_simps name_simps dest: prefix_disjoint sym [of "Some _"])

lemma phase_frame:
  "untouched tx c start ds \<Longrightarrow> frame tx c start ds" "moved_away tx c start ds \<Longrightarrow> frame tx c start ds"
  "published tx c new start ds \<Longrightarrow> frame tx c start ds" "stable tx c new start ds \<Longrightarrow> frame tx c start ds"
  by (auto simp: untouched_def moved_away_def published_def stable_def)

section \<open>Every interruption leaves a stable phase\<close>

text \<open>The staged directory with its receipt and manifest: what a commit publishes.\<close>

definition sealed_dataset :: "tools \<Rightarrow> transaction \<Rightarrow> pydict option \<Rightarrow> dir \<Rightarrow> dir option" where
  "sealed_dataset t tx previous x =
     (case build_manifest t tx previous x of
        Inl e \<Rightarrow> None
      | Inr (r, m) \<Rightarrow> Some (dict_put MANIFEST (Json (VDict m)) (dict_put RECEIPT (receipt_file r) x)))"

definition new_dataset :: "tools \<Rightarrow> transaction \<Rightarrow> (string \<times> dir) list \<Rightarrow> dir option" where
  "new_dataset t tx start =
     Option.bind (map_of start (tx_staging tx))
       (sealed_dataset t tx (Option.bind (map_of start (tx_final tx)) read_manifest))"

lemma staging_work:
  assumes "untouched tx c start ds"
  shows "untouched tx c start (dict_put (tx_staging tx) x ds)"
  using assms by (intro phase_work(1)) (auto simp: untouched_def frame_def name_simps)

lemma hoare_write_staging:
  "hoare (\<lambda>ds. untouched tx c start ds \<and> map_of ds (tx_staging tx) = Some x) (write_file (tx_staging tx) p f)
     (\<lambda>_ ds. untouched tx c start ds \<and> map_of ds (tx_staging tx) = Some (dict_put p f x)) (untouched tx c start)"
  unfolding write_file_def put_file_def
  by (intro hoare_step) (auto simp: staging_work dict_simps split: if_splits)

lemma hoare_seal:
  assumes "untouched tx c start start" and "map_of start (tx_staging tx) = Some x"
  shows "hoare (\<lambda>ds. ds = start)
    (validate_and_write_manifest t tx (Option.bind (map_of start (tx_final tx)) read_manifest))
    (\<lambda>_ ds. untouched tx c start ds \<and> map_of ds (tx_staging tx) = new_dataset t tx start \<and> new_dataset t tx start \<noteq> None)
    (untouched tx c start)"
proof -
  let ?prev = "Option.bind (map_of start (tx_final tx)) read_manifest"
  let ?built = "build_manifest t tx ?prev x"
  show ?thesis unfolding validate_and_write_manifest_def
  proof (rule hoare_bind [OF hoare_dirs [of _ "\<lambda>y ds. ds = start \<and> y = x"]])
    show "hoare (\<lambda>ds. ds = start \<and> y = x)
      (io_bind (io_lift (build_manifest t tx ?prev y)) (\<lambda>(r, m).
         io_bind (write_file (tx_staging tx) RECEIPT (receipt_file r)) (\<lambda>_.
         io_bind (write_file (tx_staging tx) MANIFEST (Json (VDict m))) (\<lambda>_. io_ret m))))
      (\<lambda>_ ds. untouched tx c start ds \<and> map_of ds (tx_staging tx) = new_dataset t tx start \<and> new_dataset t tx start \<noteq> None)
      (untouched tx c start)" for y
    proof (rule hoare_bind [OF hoare_lift [of _ _ "\<lambda>z ds. ds = start \<and> ?built = Inr z"]], goal_cases)
      case (3 z)
      obtain r m where z: "z = (r, m)" by force
      have new: "?built = Inr (r, m) \<Longrightarrow>
          new_dataset t tx start = Some (dict_put MANIFEST (Json (VDict m)) (dict_put RECEIPT (receipt_file r) x))"
        by (simp add: new_dataset_def sealed_dataset_def assms(2))
      show ?case unfolding z prod.case
      proof (cases "?built = Inr (r, m)")
        case True
        show "hoare (\<lambda>ds. ds = start \<and> ?built = Inr (r, m))
          (io_bind (write_file (tx_staging tx) RECEIPT (receipt_file r)) (\<lambda>_.
             io_bind (write_file (tx_staging tx) MANIFEST (Json (VDict m))) (\<lambda>_. io_ret m)))
          (\<lambda>_ ds. untouched tx c start ds \<and> map_of ds (tx_staging tx) = new_dataset t tx start \<and>
            new_dataset t tx start \<noteq> None) (untouched tx c start)"
          unfolding new [OF True]
          by (rule hoare_bind [OF hoare_weaken [OF hoare_write_staging [of _ _ _ x]]
                hoare_bind [OF hoare_write_staging hoare_ret]]) (auto simp: assms)
      qed (simp add: hoare_def)
    qed (use assms in auto)
  qed (use assms in auto)
qed

lemma hoare_reset_work:
  assumes "\<And>ds. P ds \<Longrightarrow> P (dict_del k ds)" and "\<And>ds y. P ds \<Longrightarrow> P (dict_put k y ds)"
  shows "hoare P (reset_path k) (\<lambda>_. P) P"
  using assms by (intro hoare_reset)

text \<open>Before the swap: the old dataset is out of the way and the new one is staged.\<close>

definition ready :: "transaction \<Rightarrow> string \<Rightarrow> dir option \<Rightarrow> (string \<times> dir) list \<Rightarrow> (string \<times> dir) list \<Rightarrow> bool" where
  "ready tx c new start ds =
     ((moved_away tx c start ds \<or> untouched tx c start ds \<and> map_of start (tx_final tx) = None) \<and>
      map_of ds (tx_staging tx) = new \<and> new \<noteq> None)"

text \<open>A failed swap leaves the dataset out of the way or published, never half of it.\<close>

definition swapped :: "transaction \<Rightarrow> string \<Rightarrow> dir option \<Rightarrow> (string \<times> dir) list \<Rightarrow> (string \<times> dir) list \<Rightarrow> bool" where
  "swapped tx c new start ds =
     (moved_away tx c start ds \<or> untouched tx c start ds \<and> map_of start (tx_final tx) = None \<or> published tx c new start ds)"

lemma swapped_stable: "swapped tx c new start ds \<Longrightarrow> stable tx c new start ds"
  by (auto simp: swapped_def stable_def)

lemma ready_swapped: "ready tx c new start ds \<Longrightarrow> swapped tx c new start ds"
  by (auto simp: ready_def swapped_def)

lemma swapped_work:
  assumes "swapped tx c new start ds" and "k = copy_name tx c \<or> starts_with k (staging_prefix (tx_final tx))"
  shows "swapped tx c new start (dict_put k x ds)" "swapped tx c new start (dict_del k ds)"
  using assms(1) phase_work [OF assms(2)] unfolding swapped_def by blast+

lemma ready_copy_work:
  assumes "ready tx c new start ds"
  shows "ready tx c new start (dict_put (copy_name tx c) x ds)" "ready tx c new start (dict_del (copy_name tx c) ds)"
proof -
  have "proper_transaction tx" using assms by (auto simp: ready_def untouched_def moved_away_def frame_def)
  with assms show "ready tx c new start (dict_put (copy_name tx c) x ds)" "ready tx c new start (dict_del (copy_name tx c) ds)"
    unfolding ready_def by (auto simp: phase_work dict_simps name_simps)
qed

lemma hoare_exists: "hoare P (entry_exists a) (\<lambda>there ds. P ds \<and> there = (map_of ds a \<noteq> None)) E"
  unfolding entry_exists_def by (rule hoare_dirs) simp

lemma staging_name: "frame tx c start ds \<Longrightarrow> starts_with (tx_staging tx) (staging_prefix (tx_final tx))"
  by (simp add: frame_def name_simps)

lemma ready_frame: "ready tx c new start ds \<Longrightarrow> frame tx c start ds"
  by (auto simp: ready_def phase_frame)

lemma ready_staged: "ready tx c new start ds \<Longrightarrow> map_of ds (tx_staging tx) = new \<and> new \<noteq> None"
  by (simp add: ready_def)

lemma ready_name: "ready tx c new start ds \<Longrightarrow> tx_staging tx \<noteq> copy_name tx c"
  by (drule ready_frame) (simp add: frame_def name_simps)

lemma hoare_copy_verify_swap:
  "hoare (ready tx c new start) (copy_verify_swap t (copy_name tx c) (tx_staging tx) (tx_final tx) m)
     (\<lambda>_. published tx c new start) (swapped tx c new start)"
proof -
  let ?R = "\<lambda>ds. ready tx c new start ds \<and> map_of ds (copy_name tx c) = new"
  have reset: "hoare (ready tx c new start) (reset_path (copy_name tx c)) (\<lambda>_. ready tx c new start) (swapped tx c new start)"
    by (rule hoare_reset) (auto simp: ready_copy_work ready_swapped)
  have copy: "hoare (ready tx c new start) (copy_tree (tx_staging tx) (copy_name tx c)) (\<lambda>_. ?R) (swapped tx c new start)"
    unfolding copy_tree_def
  proof (rule hoare_step)
    fix ds keep assume "ready tx c new start ds"
    then show "swapped tx c new start (case map_of ds (tx_staging tx) of None \<Rightarrow> ds
        | Some x \<Rightarrow> dict_put (copy_name tx c) (kept_files keep x) ds)"
      by (auto simp: ready_copy_work ready_swapped split: option.split)
  qed (auto dest: ready_staged simp: ready_copy_work ready_swapped dict_simps split: option.splits)
  have verify: "hoare ?R (verify_copy t (copy_name tx c) m) (\<lambda>_. ?R) (swapped tx c new start)"
    unfolding verify_copy_def
    by (intro hoare_bind [OF hoare_dirs [of _ "\<lambda>_. ?R"]] hoare_if hoare_ret hoare_raise) (auto simp: ready_swapped)
  have swap: "hoare ?R (os_replace (copy_name tx c) (tx_final tx)) (\<lambda>_. published tx c new start) (swapped tx c new start)"
  proof (rule hoare_replace)
    fix ds x assume ds: "?R ds" "map_of ds (copy_name tx c) = Some x"
    then have "new = Some x" by simp
    with move_in [OF ready_frame [OF conjunct1 [OF ds(1)]]]
    show "published tx c new start (dict_put (tx_final tx) x (dict_del (copy_name tx c) ds))" by blast
  qed (auto simp: ready_swapped)
  have rest: "hoare (published tx c new start) (reset_path (tx_staging tx)) (\<lambda>_. published tx c new start) (swapped tx c new start)"
    by (rule hoare_reset) (auto simp: swapped_def phase_work staging_name [OF phase_frame(3)])
  have cleanup: "hoare (swapped tx c new start) (io_bind (reset_path (copy_name tx c)) (\<lambda>_. io_raise e))
      (\<lambda>_. published tx c new start) (swapped tx c new start)" for e
    by (rule hoare_bind [OF hoare_reset_work hoare_raise]) (auto simp: swapped_work)
  show ?thesis unfolding copy_verify_swap_def
    by (rule hoare_bind [OF reset hoare_catch
          [OF hoare_bind [OF copy hoare_bind [OF verify hoare_bind [OF swap rest]]] cleanup]])
qed

lemma hoare_swap_in:
  "hoare (ready tx c new start) (swap_in t c tx m) (\<lambda>_. published tx c new start) (swapped tx c new start)"
proof -
  have "hoare (ready tx c new start) (os_replace (tx_staging tx) (tx_final tx)) (\<lambda>_. published tx c new start)
      (ready tx c new start)"
  proof (rule hoare_replace)
    fix ds x assume ds: "ready tx c new start ds" "map_of ds (tx_staging tx) = Some x"
    then have "new = Some x" by (simp add: ready_def)
    with move_in [OF ready_frame [OF ds(1)]] show "published tx c new start (dict_put (tx_final tx) x (dict_del (tx_staging tx) ds))"
      by blast
  qed
  then have direct: "hoare (ready tx c new start)
      (io_bind (os_replace (tx_staging tx) (tx_final tx)) (\<lambda>_. io_ret SameFilesystem))
      (\<lambda>_. published tx c new start) (ready tx c new start)"
    by (rule hoare_bind) (rule hoare_ret)
  have "hoare (ready tx c new start)
      (if e \<noteq> OSError EXDEV then io_raise e
       else io_bind (copy_verify_swap t (copy_prefix (tx_final tx) @ c) (tx_staging tx) (tx_final tx) m)
              (\<lambda>_. io_ret CrossFilesystem))
      (\<lambda>_. published tx c new start) (swapped tx c new start)" for e
    using hoare_bind [OF hoare_copy_verify_swap hoare_ret]
    by (intro hoare_if hoare_raise) (auto simp: ready_swapped copy_name_def)
  from hoare_catch [OF direct this ready_swapped] show ?thesis unfolding swap_in_def .
qed

lemma hoare_restore:
  "hoare (swapped tx c new start) (restore_backup tx moved) (\<lambda>_. stable tx c new start) (stable tx c new start)"
  unfolding restore_backup_def
proof (rule hoare_bind [OF hoare_exists], rule hoare_bind [OF hoare_exists], rule hoare_if)
  fix kept there
  assume b: "moved \<and> kept \<and> \<not> there"
  show "hoare (\<lambda>ds. (swapped tx c new start ds \<and> kept = (map_of ds (tx_backup tx) \<noteq> None)) \<and>
      there = (map_of ds (tx_final tx) \<noteq> None)) (os_replace (tx_backup tx) (tx_final tx))
      (\<lambda>_. stable tx c new start) (stable tx c new start)"
  proof (rule hoare_replace)
    fix ds x
    assume ds: "(swapped tx c new start ds \<and> kept = (map_of ds (tx_backup tx) \<noteq> None)) \<and>
        there = (map_of ds (tx_final tx) \<noteq> None)" and x: "map_of ds (tx_backup tx) = Some x"
    with b have "moved_away tx c start ds" by (auto simp: swapped_def published_def untouched_def)
    from move_back [OF this x] show "stable tx c new start (dict_put (tx_final tx) x (dict_del (tx_backup tx) ds))"
      by (simp add: stable_def)
  qed (auto simp: swapped_stable)
qed (auto intro!: hoare_ret simp: swapped_stable)

text \<open>A commit that returns has published; otherwise the disk is in a stable phase.\<close>

lemma hoare_commit:
  assumes "untouched tx c start start" and "map_of start (tx_staging tx) = Some x" and "new = new_dataset t tx start"
  shows "hoare (\<lambda>ds. ds = start) (commit_transaction t c tx) (\<lambda>_. published tx c new start) (stable tx c new start)"
proof -
  let ?prev = "Option.bind (map_of start (tx_final tx)) read_manifest"
  let ?S = "stable tx c new start"
  have read: "hoare (\<lambda>ds. ds = start) (io_dirs (\<lambda>ds. Option.bind (map_of ds (tx_final tx)) read_manifest))
      (\<lambda>prev ds. ds = start \<and> prev = ?prev) ?S" by (rule hoare_dirs) simp
  let ?sealed = "\<lambda>ds. untouched tx c start ds \<and> map_of ds (tx_staging tx) = new \<and> new \<noteq> None"
  have seal: "hoare (\<lambda>ds. ds = start \<and> prev = ?prev) (validate_and_write_manifest t tx prev) (\<lambda>_. ?sealed) ?S" for prev
    by (cases "prev = ?prev") (use hoare_seal [OF assms(1,2), of t] in
      \<open>auto simp: assms(3) stable_def hoare_def split: run.splits prod.splits\<close>)
  have moved: "hoare (\<lambda>ds. ?sealed ds \<and> there = (map_of ds (tx_final tx) \<noteq> None))
      (if there then os_replace (tx_final tx) (tx_backup tx) else io_ret ()) (\<lambda>_. ready tx c new start) ?S" for there
  proof (rule hoare_if)
    show "hoare (\<lambda>ds. ?sealed ds \<and> there = (map_of ds (tx_final tx) \<noteq> None))
        (os_replace (tx_final tx) (tx_backup tx)) (\<lambda>_. ready tx c new start) ?S"
    proof (rule hoare_replace)
      fix ds y assume ds: "?sealed ds \<and> there = (map_of ds (tx_final tx) \<noteq> None)" and y: "map_of ds (tx_final tx) = Some y"
      then have "proper_transaction tx" by (auto simp: untouched_def frame_def)
      with ds move_away [OF conjunct1 [OF conjunct1 [OF ds]] y]
      show "ready tx c new start (dict_put (tx_backup tx) y (dict_del (tx_final tx) ds))"
        by (simp add: ready_def dict_simps name_simps)
    qed (auto simp: stable_def)
  next
    assume "\<not> there"
    then show "hoare (\<lambda>ds. ?sealed ds \<and> there = (map_of ds (tx_final tx) \<noteq> None)) (io_ret ()) (\<lambda>_. ready tx c new start) ?S"
      by (auto intro!: hoare_ret simp: ready_def untouched_def)
  qed
  have swap: "hoare (ready tx c new start)
      (io_catch (swap_in t c tx m) (\<lambda>e. io_bind (restore_backup tx there) (\<lambda>_. io_raise e)))
      (\<lambda>_. published tx c new start) ?S" for m there
    by (rule hoare_catch [OF hoare_swap_in hoare_bind [OF hoare_restore hoare_raise] swapped_stable])
  have cleanup: "hoare (published tx c new start) (reset_path (tx_backup tx)) (\<lambda>_. published tx c new start) ?S"
    by (rule hoare_reset) (auto simp: drop_backup stable_def)
  show ?thesis unfolding commit_transaction_def
    by (rule hoare_bind [OF read hoare_bind [OF seal hoare_bind [OF hoare_exists hoare_bind [OF moved
          hoare_bind [OF swap hoare_bind [OF cleanup hoare_bind [OF hoare_lift hoare_ret]]]]]]])
      (auto simp: stable_def)
qed

section \<open>Recovery\<close>

lemma hoare_abort: "hoare (stable tx c new start) (abort_transaction tx) (\<lambda>_. stable tx c new start) (stable tx c new start)"
proof -
  let ?S = "stable tx c new start"
  have reset: "hoare ?S (reset_path (tx_staging tx)) (\<lambda>_. ?S) ?S"
    by (rule hoare_reset) (auto simp: stable_work staging_name [OF phase_frame(4)])
  let ?at = "\<lambda>kept there ds. (?S ds \<and> kept = (map_of ds (tx_backup tx) \<noteq> None)) \<and> there = (map_of ds (tx_final tx) \<noteq> None)"
  have restore: "hoare (?at kept there) (os_replace (tx_backup tx) (tx_final tx)) (\<lambda>_. ?S) ?S" if "kept \<and> \<not> there" for kept there
  proof (rule hoare_replace)
    fix ds x assume ds: "?at kept there ds" and x: "map_of ds (tx_backup tx) = Some x"
    with that have "moved_away tx c start ds" by (auto simp: stable_def published_def untouched_def)
    from move_back [OF this x] show "?S (dict_put (tx_final tx) x (dict_del (tx_backup tx) ds))" by (simp add: stable_def)
  qed simp
  have drop: "hoare (?at kept there) (reset_path (tx_backup tx)) (\<lambda>_. ?S) ?S" if "\<not> (kept \<and> \<not> there)" for kept there
  proof (rule hoare_reset)
    have published: "published tx c new start ds" if "?at kept there ds" "map_of ds (tx_backup tx) = Some x" for ds x
      using that \<open>\<not> (kept \<and> \<not> there)\<close> by (auto simp: stable_def moved_away_def untouched_def)
    show "?S (dict_put (tx_backup tx) y ds)" if "?at kept there ds" "map_of ds (tx_backup tx) = Some x" for ds x y
      using drop_backup(2) [OF published [OF that]] by (simp add: stable_def)
    show "?S (dict_del (tx_backup tx) ds)" if ds: "?at kept there ds" for ds
    proof (cases "map_of ds (tx_backup tx)")
      case None
      then have "dict_del (tx_backup tx) ds = ds" by (force simp: dict_del_def map_of_eq_None_iff filter_id_conv)
      with ds show ?thesis by simp
    next
      case (Some x)
      with drop_backup(1) [OF published [OF ds]] show ?thesis by (simp add: stable_def)
    qed
  qed auto
  show ?thesis unfolding abort_transaction_def
    by (rule hoare_bind [OF reset hoare_bind [OF hoare_exists hoare_bind [OF hoare_exists hoare_if [OF restore drop]]]])
qed

lemma in_with_prefix: "a \<in> set (with_prefix p ds) \<longleftrightarrow> starts_with a p \<and> map_of ds a \<noteq> None"
  by (auto simp: with_prefix_def dict_keys_def map_of_eq_None_iff)

lemma distinct_with_prefix: "distinct (with_prefix p ds)"
  by (simp add: with_prefix_def)

lemma hoare_remove_all:
  assumes "\<And>a ds. a \<in> set as \<Longrightarrow> P ds \<Longrightarrow> P (dict_del a ds)" and "\<And>a ds y. a \<in> set as \<Longrightarrow> P ds \<Longrightarrow> P (dict_put a y ds)"
  shows "hoare (\<lambda>ds. P ds \<and> (\<forall>k. starts_with k p \<and> map_of ds k \<noteq> None \<longrightarrow> k \<in> set as)) (remove_all as)
    (\<lambda>_ ds. P ds \<and> (\<forall>k. starts_with k p \<longrightarrow> map_of ds k = None)) P"
  using assms
proof (induction as)
  case Nil
  show ?case by (auto intro: hoare_ret)
next
  case (Cons a as)
  let ?left = "\<lambda>as ds. P ds \<and> (\<forall>k. starts_with k p \<and> map_of ds k \<noteq> None \<longrightarrow> k \<in> set as)"
  have "hoare (?left (a # as)) (reset_path a) (\<lambda>_. ?left as) P"
    using Cons.prems by (intro hoare_reset) (auto simp: dict_simps)
  moreover have "hoare (?left as) (remove_all as) (\<lambda>_ ds. P ds \<and> (\<forall>k. starts_with k p \<longrightarrow> map_of ds k = None)) P"
    using Cons.prems by (intro Cons.IH) auto
  ultimately show ?case unfolding remove_all.simps by (rule hoare_bind)
qed

lemma runs_remove_all: "runs P (remove_all as)"
proof (induction as arbitrary: P)
  case Nil
  show ?case by (simp add: runs_ret)
next
  case (Cons a as)
  show ?case unfolding remove_all.simps
    by (rule runs_bind [OF runs_reset _ Cons, of _ _ "\<lambda>_ _. True"]) (simp add: hoare_def split: run.split prod.split)
qed

text \<open>Nothing of the transaction is left.\<close>

definition settled ::
  "transaction \<Rightarrow> string \<Rightarrow> dir option \<Rightarrow> (string \<times> dir) list \<Rightarrow> (string \<times> dir) list \<Rightarrow> bool" where
  "settled tx c new start ds =
     ((untouched tx c start ds \<or> published tx c new start ds) \<and>
      (\<forall>k. starts_with k (staging_prefix (tx_final tx)) \<or> starts_with k (backup_prefix (tx_final tx)) \<longrightarrow> map_of ds k = None))"

lemma settled_stable: "settled tx c new start ds \<Longrightarrow> stable tx c new start ds"
  by (auto simp: settled_def stable_def)

text \<open>The backups there are, and what they say of the phase.\<close>

lemma backups_of_phase:
  assumes "stable tx c new start ds"
  shows "a \<in> set (with_prefix (backup_prefix (tx_final tx)) ds) \<Longrightarrow> a = tx_backup tx"
    and "map_of ds (tx_final tx) = None \<Longrightarrow> with_prefix (backup_prefix (tx_final tx)) ds \<noteq> [] \<Longrightarrow>
      moved_away tx c start ds \<and> with_prefix (backup_prefix (tx_final tx)) ds = [tx_backup tx]"
    and "with_prefix (backup_prefix (tx_final tx)) ds = [] \<Longrightarrow> untouched tx c start ds \<or> published tx c new start ds"
    and "map_of ds (tx_final tx) \<noteq> None \<Longrightarrow> with_prefix (backup_prefix (tx_final tx)) ds \<noteq> [] \<Longrightarrow>
      published tx c new start ds"
proof -
  let ?bs = "with_prefix (backup_prefix (tx_final tx)) ds"
  have frame: "frame tx c start ds" using assms by (rule phase_frame)
  then have only: "a \<in> set ?bs \<Longrightarrow> a = tx_backup tx" for a
    by (auto simp: in_with_prefix frame_def)
  then show "a \<in> set ?bs \<Longrightarrow> a = tx_backup tx" .
  have mem: "tx_backup tx \<in> set ?bs \<longleftrightarrow> map_of ds (tx_backup tx) \<noteq> None"
    using frame by (simp add: in_with_prefix frame_def name_simps)
  have ne: "?bs \<noteq> [] \<longleftrightarrow> map_of ds (tx_backup tx) \<noteq> None"
    using only mem by (metis list.set_intros(1) empty_iff list.exhaust list.set(1))
  show "map_of ds (tx_final tx) = None \<Longrightarrow> ?bs \<noteq> [] \<Longrightarrow> moved_away tx c start ds \<and> ?bs = [tx_backup tx]"
  proof (intro conjI)
    assume "map_of ds (tx_final tx) = None" "?bs \<noteq> []"
    with assms ne show "moved_away tx c start ds" by (auto simp: stable_def published_def untouched_def)
    obtain a as where bs: "?bs = a # as" using \<open>?bs \<noteq> []\<close> by (cases ?bs) auto
    with only [of a] distinct_with_prefix [of "backup_prefix (tx_final tx)" ds] only
    show "?bs = [tx_backup tx]" by (cases as) auto
  qed
  show "?bs = [] \<Longrightarrow> untouched tx c start ds \<or> published tx c new start ds"
    using assms ne by (auto simp: stable_def moved_away_def)
  show "map_of ds (tx_final tx) \<noteq> None \<Longrightarrow> ?bs \<noteq> [] \<Longrightarrow> published tx c new start ds"
    using assms ne by (auto simp: stable_def moved_away_def untouched_def)
qed

text \<open>The staging directories are gone and \<open>P\<close> still holds.\<close>

definition unstaged :: "transaction \<Rightarrow> ((string \<times> dir) list \<Rightarrow> bool) \<Rightarrow> (string \<times> dir) list \<Rightarrow> bool" where
  "unstaged tx P ds = (P ds \<and> (\<forall>k. starts_with k (staging_prefix (tx_final tx)) \<longrightarrow> map_of ds k = None))"

lemma hoare_remove_staging:
  assumes "\<And>ds k y. P ds \<Longrightarrow> starts_with k (staging_prefix (tx_final tx)) \<Longrightarrow> P (dict_put k y ds) \<and> P (dict_del k ds)"
  shows "hoare (\<lambda>ds. P ds \<and> as = with_prefix (staging_prefix (tx_final tx)) ds) (remove_all as) (\<lambda>_. unstaged tx P) P"
proof (cases "\<exists>ds. P ds \<and> as = with_prefix (staging_prefix (tx_final tx)) ds")
  case True
  then have "a \<in> set as \<Longrightarrow> starts_with a (staging_prefix (tx_final tx))" for a by (auto simp: in_with_prefix)
  with assms have "hoare (\<lambda>ds. P ds \<and> (\<forall>k. starts_with k (staging_prefix (tx_final tx)) \<and> map_of ds k \<noteq> None \<longrightarrow> k \<in> set as))
      (remove_all as) (\<lambda>_ ds. P ds \<and> (\<forall>k. starts_with k (staging_prefix (tx_final tx)) \<longrightarrow> map_of ds k = None)) P"
    by (intro hoare_remove_all) auto
  then show ?thesis by (rule hoare_weaken) (auto simp: in_with_prefix unstaged_def)
next
  case False
  then show ?thesis unfolding hoare_def by blast
qed

text \<open>What recovery does with the backups it finds.\<close>

definition recover_backups :: "string \<Rightarrow> nat \<Rightarrow> string list \<Rightarrow> (nat \<times> nat) io" where
  "recover_backups final n backups =
     io_bind (entry_exists final) (\<lambda>there.
       if \<not> there \<and> backups \<noteq> []
       then io_bind (os_replace (last backups) final) (\<lambda>_.
            io_bind (remove_all (butlast backups)) (\<lambda>_. io_ret (n, 1)))
       else io_bind (remove_all backups) (\<lambda>_. io_ret (n, 0)))"

lemma recover_unfold:
  "recover_orphan_transactions final =
     io_bind (io_dirs (with_prefix (staging_prefix final))) (\<lambda>staging.
     io_bind (remove_all staging) (\<lambda>_.
     io_bind (io_dirs (\<lambda>ds. sort (with_prefix (backup_prefix final) ds))) (recover_backups final (length staging))))"
  unfolding recover_orphan_transactions_def recover_backups_def [abs_def] by (rule refl)

lemma sort_eq_Nil [simp]: "sort xs = [] \<longleftrightarrow> xs = []"
  by (metis set_empty set_sort)

lemma no_with_prefix: "with_prefix p ds = [] \<longleftrightarrow> (\<forall>k. starts_with k p \<longrightarrow> map_of ds k = None)"
proof -
  have "with_prefix p ds = [] \<longleftrightarrow> (\<forall>a. a \<notin> set (with_prefix p ds))" by (cases "with_prefix p ds") auto
  then show ?thesis by (auto simp: in_with_prefix)
qed

text \<open>\<open>P\<close> is the phase that must survive: any stable one, or the published one.\<close>

definition survives ::
  "transaction \<Rightarrow> string \<Rightarrow> dir option \<Rightarrow> (string \<times> dir) list \<Rightarrow> ((string \<times> dir) list \<Rightarrow> bool) \<Rightarrow> bool" where
  "survives tx c new start P = (P = stable tx c new start \<or> P = published tx c new start)"

lemma survives_work:
  "survives tx c new start P \<Longrightarrow> P ds \<Longrightarrow> starts_with k (staging_prefix (tx_final tx)) \<Longrightarrow>
     P (dict_put k y ds) \<and> P (dict_del k ds)"
  unfolding survives_def using stable_work [of tx c new start ds k] phase_work(5,6) [of k tx c new start ds] by auto

lemma survives_stable: "survives tx c new start P \<Longrightarrow> P ds \<Longrightarrow> stable tx c new start ds"
  by (auto simp: survives_def stable_def)

lemma survives_published: "survives tx c new start P \<Longrightarrow> published tx c new start ds \<Longrightarrow> P ds"
  by (auto simp: survives_def stable_def)

lemma unstaged_frame:
  assumes "unstaged tx (\<lambda>_. True) ds" and "proper_transaction tx" and "k = tx_final tx \<or> k = tx_backup tx"
  shows "unstaged tx (\<lambda>_. True) (dict_put k y ds)" "unstaged tx (\<lambda>_. True) (dict_del k ds)"
  using assms by (auto simp: unstaged_def dict_simps name_simps)

lemma stable_proper: "stable tx c new start ds \<Longrightarrow> proper_transaction tx"
  by (drule phase_frame(4)) (simp add: frame_def)

lemma hoare_recover_backups:
  assumes "survives tx c new start P"
  shows "hoare (\<lambda>ds. unstaged tx P ds \<and> backups = sort (with_prefix (backup_prefix (tx_final tx)) ds))
    (recover_backups (tx_final tx) n backups) (\<lambda>_ ds. P ds \<and> settled tx c new start ds) P"
proof -
  let ?at = "\<lambda>there ds. (unstaged tx P ds \<and> backups = sort (with_prefix (backup_prefix (tx_final tx)) ds)) \<and>
      there = (map_of ds (tx_final tx) \<noteq> None)"
  let ?done = "\<lambda>ds. P ds \<and> settled tx c new start ds"
  have restore: "hoare (?at there) (io_bind (os_replace (last backups) (tx_final tx)) (\<lambda>_.
      io_bind (remove_all (butlast backups)) (\<lambda>_. io_ret (n, 1)))) (\<lambda>_. ?done) P"
    if b: "\<not> there \<and> backups \<noteq> []" for there
  proof (rule hoare_bind)
    show "hoare (?at there) (os_replace (last backups) (tx_final tx)) (\<lambda>_ ds. ?done ds \<and> backups = [tx_backup tx]) P"
    proof (rule hoare_replace)
      fix ds x assume ds: "?at there ds" and x: "map_of ds (last backups) = Some x"
      then have P: "P ds" and st: "stable tx c new start ds" using survives_stable [OF assms] by (auto simp: unstaged_def)
      have "map_of ds (tx_final tx) = None" "with_prefix (backup_prefix (tx_final tx)) ds \<noteq> []"
        using ds b by auto
      from backups_of_phase(2) [OF st this]
      have mv: "moved_away tx c start ds" and bs: "backups = [tx_backup tx]" using ds by simp_all
      have "P = stable tx c new start"
        using assms mv P by (auto simp: survives_def published_def moved_away_def)
      moreover have un: "untouched tx c start (dict_put (tx_final tx) x (dict_del (tx_backup tx) ds))"
        using move_back [OF mv] x bs by simp
      moreover have "settled tx c new start (dict_put (tx_final tx) x (dict_del (tx_backup tx) ds))"
        using un ds stable_proper [OF st] unfolding settled_def
        by (auto simp: unstaged_def dict_simps name_simps untouched_def frame_def)
      ultimately show "?done (dict_put (tx_final tx) x (dict_del (last backups) ds)) \<and> backups = [tx_backup tx]"
        using bs by (simp add: stable_def)
    qed (simp add: unstaged_def)
    show "hoare (\<lambda>ds. ?done ds \<and> backups = [tx_backup tx]) (io_bind (remove_all (butlast backups)) (\<lambda>_. io_ret (n, 1)))
      (\<lambda>_. ?done) P"
      by (cases "backups = [tx_backup tx]") (auto simp: hoare_def io_bind_def io_ret_def)
  qed
  have clear: "hoare (?at there) (io_bind (remove_all backups) (\<lambda>_. io_ret (n, 0))) (\<lambda>_. ?done) P"
    if b: "\<not> (\<not> there \<and> backups \<noteq> [])" for there
  proof (cases "backups = []")
    case True
    have "?done ds" if "?at there ds" for ds
    proof -
      have P: "P ds" using that by (simp add: unstaged_def)
      have none: "with_prefix (backup_prefix (tx_final tx)) ds = []" using that True sort_eq_Nil by metis
      from backups_of_phase(3) [OF survives_stable [OF assms P] none] that none P show ?thesis
        by (auto simp: settled_def unstaged_def no_with_prefix)
    qed
    with True show ?thesis by (auto simp: hoare_def io_bind_def io_ret_def)
  next
    case False
    with b have there: there by simp
    let ?Q = "\<lambda>ds. published tx c new start ds \<and> unstaged tx (\<lambda>_. True) ds"
    have pre: "?Q ds \<and> set backups = set (with_prefix (backup_prefix (tx_final tx)) ds) \<and> set backups \<subseteq> {tx_backup tx}"
      if "?at there ds" for ds
    proof -
      have st: "stable tx c new start ds" using that survives_stable [OF assms] by (simp add: unstaged_def)
      have "with_prefix (backup_prefix (tx_final tx)) ds \<noteq> []" using that False by auto
      with backups_of_phase(1,4) [OF st] that there show ?thesis by (auto simp: unstaged_def)
    qed
    have "hoare (\<lambda>ds. ?Q ds \<and> (\<forall>k. starts_with k (backup_prefix (tx_final tx)) \<and> map_of ds k \<noteq> None \<longrightarrow> k \<in> set backups))
        (remove_all backups) (\<lambda>_ ds. ?Q ds \<and> (\<forall>k. starts_with k (backup_prefix (tx_final tx)) \<longrightarrow> map_of ds k = None)) ?Q"
      if "set backups \<subseteq> {tx_backup tx}"
    proof (rule hoare_remove_all)
      fix a ds y assume a: "a \<in> set backups" and Q: "?Q ds"
      with that have b: "a = tx_backup tx" by auto
      have "proper_transaction tx" using Q by (simp add: published_def frame_def)
      note u = unstaged_frame [OF conjunct2 [OF Q] this disjI2 [OF refl]]
      show "?Q (dict_del a ds)" unfolding b by (rule conjI [OF drop_backup(1) [OF conjunct1 [OF Q]] u(2)])
      show "?Q (dict_put a y ds)" unfolding b by (rule conjI [OF drop_backup(2) [OF conjunct1 [OF Q]] u(1)])
    qed
    note all = this
    show ?thesis
    proof (cases "set backups \<subseteq> {tx_backup tx}")
      case True
      have "hoare (?at there) (remove_all backups) (\<lambda>_. ?done) P"
      proof (rule hoare_weaken [OF all [OF True]])
        fix ds assume "?at there ds"
        from pre [OF this] show "?Q ds \<and> (\<forall>k. starts_with k (backup_prefix (tx_final tx)) \<and> map_of ds k \<noteq> None \<longrightarrow> k \<in> set backups)"
          by (simp add: in_with_prefix)
      next
        fix ds assume Q: "?Q ds \<and> (\<forall>k. starts_with k (backup_prefix (tx_final tx)) \<longrightarrow> map_of ds k = None)"
        then have "settled tx c new start ds" by (simp add: settled_def unstaged_def)
        with survives_published [OF assms] Q show "?done ds" by simp
      next
        fix ds assume "?Q ds"
        with survives_published [OF assms] show "P ds" by simp
      qed
      then show ?thesis by (rule hoare_bind) (rule hoare_ret)
    next
      case False
      with pre have "\<not> ?at there ds" for ds by blast
      then show ?thesis unfolding hoare_def by blast
    qed
  qed
  show ?thesis unfolding recover_backups_def
    by (rule hoare_bind [OF hoare_exists hoare_if [OF restore clear]])
qed

lemma hoare_recover:
  assumes "survives tx c new start P"
  shows "hoare P (recover_orphan_transactions (tx_final tx)) (\<lambda>_ ds. P ds \<and> settled tx c new start ds) P"
proof -
  have bs: "hoare (unstaged tx P) (io_dirs (\<lambda>ds. sort (with_prefix (backup_prefix (tx_final tx)) ds)))
      (\<lambda>bs ds. unstaged tx P ds \<and> bs = sort (with_prefix (backup_prefix (tx_final tx)) ds)) P"
    by (rule hoare_dirs) simp
  have names: "hoare P (io_dirs (with_prefix (staging_prefix (tx_final tx))))
      (\<lambda>as ds. P ds \<and> as = with_prefix (staging_prefix (tx_final tx)) ds) P"
    by (rule hoare_dirs) simp
  show ?thesis unfolding recover_unfold
    by (rule hoare_bind [OF names hoare_bind [OF hoare_remove_staging hoare_bind [OF bs hoare_recover_backups [OF assms]]]])
      (rule survives_work [OF assms])
qed

section \<open>Operations that may be interrupted and run again\<close>

text \<open>
  The contract of recovery and abort: an invariant of the disk survives every run, however it ends,
  so it survives any number of interrupted runs.
\<close>

locale restartable =
  fixes operation :: "'a io" and inv :: "(string \<times> dir) list \<Rightarrow> bool"
  assumes keeps: "hoare inv operation (\<lambda>_. inv) inv"
begin

lemma keeps_run: "inv (dk_dirs d) \<Longrightarrow> inv (dk_dirs (snd (operation d)))"
  using keeps unfolding hoare_def by (fastforce split: run.splits prod.splits)

lemma keeps_runs: "inv ds \<Longrightarrow> inv (fold (\<lambda>script ds. dk_dirs (snd (operation \<lparr>dk_dirs = ds, dk_script = script\<rparr>))) scripts ds)"
proof (induction scripts arbitrary: ds)
  case (Cons script scripts)
  then show ?case using keeps_run [of "\<lparr>dk_dirs = ds, dk_script = script\<rparr>"] by simp
qed simp

end

definition recoveries :: "string \<Rightarrow> outcome list list \<Rightarrow> (string \<times> dir) list \<Rightarrow> (string \<times> dir) list" where
  "recoveries final scripts ds =
     fold (\<lambda>script ds. dk_dirs (snd (recover_orphan_transactions final \<lparr>dk_dirs = ds, dk_script = script\<rparr>))) scripts ds"

interpretation recovery: restartable "recover_orphan_transactions (tx_final tx)" "stable tx c new start"
  for tx c new start
  by unfold_locales (rule hoare_weaken [OF hoare_recover [of tx c new start]], auto simp: survives_def)

interpretation published_recovery: restartable "recover_orphan_transactions (tx_final tx)" "published tx c new start"
  for tx c new start
  by unfold_locales (rule hoare_weaken [OF hoare_recover [of tx c new start]], auto simp: survives_def)

interpretation abort: restartable "abort_transaction tx" "stable tx c new start" for tx c new start
  by unfold_locales (rule hoare_abort)

text \<open>A commit the way its callers run it: an exception aborts the transaction and goes on.\<close>

definition commit_or_abort :: "tools \<Rightarrow> string \<Rightarrow> transaction \<Rightarrow> commit_report io" where
  "commit_or_abort t copy_id tx =
     io_catch (commit_transaction t copy_id tx) (\<lambda>e. io_bind (abort_transaction tx) (\<lambda>_. io_raise e))"

lemma hoare_commit_or_abort:
  assumes "untouched tx c start start" and "map_of start (tx_staging tx) = Some x" and "new = new_dataset t tx start"
  shows "hoare (\<lambda>ds. ds = start) (commit_or_abort t c tx) (\<lambda>_. published tx c new start) (stable tx c new start)"
  unfolding commit_or_abort_def
  by (rule hoare_catch [OF hoare_commit [OF assms] hoare_bind [OF hoare_abort hoare_raise]])

text \<open>Recovery that is not interrupted finishes.\<close>

lemma recover_runs: "runs (stable tx c new start) (recover_orphan_transactions (tx_final tx))"
proof -
  let ?S = "stable tx c new start"
  let ?bs = "\<lambda>ds. sort (with_prefix (backup_prefix (tx_final tx)) ds)"
  have S: "survives tx c new start ?S" by (simp add: survives_def)
  have backups: "runs (\<lambda>ds. unstaged tx ?S ds \<and> bs = ?bs ds) (recover_backups (tx_final tx) n bs)" for bs n
    unfolding recover_backups_def
  proof (rule runs_bind [OF _ hoare_exists])
    show "runs (\<lambda>ds. unstaged tx ?S ds \<and> bs = ?bs ds) (entry_exists (tx_final tx))"
      by (simp add: entry_exists_def runs_dirs)
    fix there
    let ?P = "\<lambda>ds. (unstaged tx ?S ds \<and> bs = ?bs ds) \<and> there = (map_of ds (tx_final tx) \<noteq> None)"
    have finish: "runs P (io_bind (remove_all as) (\<lambda>_. io_ret (n, k)))" for P as k
      by (rule runs_bind [OF runs_remove_all _ runs_ret, of _ _ "\<lambda>_ _. True"]) (simp add: hoare_def split: run.split prod.split)
    have "runs ?P (os_replace (last bs) (tx_final tx))" if "\<not> there \<and> bs \<noteq> []"
      unfolding os_replace_def
    proof (rule runs_step)
      fix ds assume P: "?P ds"
      then have "map_of ds (tx_final tx) = None" "with_prefix (backup_prefix (tx_final tx)) ds \<noteq> []" "?S ds"
        using that by (auto simp: unstaged_def)
      from backups_of_phase(2) [OF this(3,1,2)] have "moved_away tx c start ds" "bs = [tx_backup tx]" using P by simp_all
      then show "\<exists>y. (case map_of ds (last bs) of None \<Rightarrow> Inl (OSError ENOENT)
          | Some x \<Rightarrow> if map_of ds (tx_final tx) \<in> {None, Some []} then Inr ((), dict_put (tx_final tx) x (dict_del (last bs) ds))
                     else Inl (OSError ENOTEMPTY)) = Inr y"
        by (auto simp: moved_away_def)
    qed
    then have restore: "\<not> there \<and> bs \<noteq> [] \<Longrightarrow> runs ?P (io_bind (os_replace (last bs) (tx_final tx)) (\<lambda>_.
        io_bind (remove_all (butlast bs)) (\<lambda>_. io_ret (n, 1))))"
      by (intro runs_bind [OF _ _ finish, of _ _ "\<lambda>_ _. True"]) (auto simp: hoare_def split: run.split prod.split)
    show "runs ?P (if \<not> there \<and> bs \<noteq> []
        then io_bind (os_replace (last bs) (tx_final tx)) (\<lambda>_. io_bind (remove_all (butlast bs)) (\<lambda>_. io_ret (n, 1)))
        else io_bind (remove_all bs) (\<lambda>_. io_ret (n, 0)))"
    proof (cases "\<not> there \<and> bs \<noteq> []")
      case True
      show ?thesis unfolding if_P [OF True] by (rule restore [OF True])
    next
      case False
      show ?thesis unfolding if_not_P [OF False] by (rule finish)
    qed
  qed
  show ?thesis unfolding recover_unfold
  proof (rule runs_bind [OF runs_dirs])
    let ?as = "with_prefix (staging_prefix (tx_final tx))"
    show "hoare ?S (io_dirs ?as) (\<lambda>as ds. ?S ds \<and> as = ?as ds) (\<lambda>_. True)" by (rule hoare_dirs) simp
    show "runs (\<lambda>ds. ?S ds \<and> as = ?as ds) (io_bind (remove_all as) (\<lambda>_.
        io_bind (io_dirs ?bs) (recover_backups (tx_final tx) (length as))))" for as
    proof (rule runs_bind [OF runs_remove_all])
      show "hoare (\<lambda>ds. ?S ds \<and> as = ?as ds) (remove_all as) (\<lambda>_. unstaged tx ?S) (\<lambda>_. True)"
        by (rule hoare_weaken [OF hoare_remove_staging]) (use survives_work [OF S] in auto)
      show "runs (unstaged tx ?S) (io_bind (io_dirs ?bs) (recover_backups (tx_final tx) (length as)))"
        by (rule runs_bind [OF runs_dirs hoare_dirs backups]) simp
    qed
  qed
qed


lemma hoareD:
  assumes "hoare P m Q E" and "m \<lparr>dk_dirs = ds, dk_script = script\<rparr> = (r, d)" and "P ds"
  shows "case r of Ret x \<Rightarrow> Q x (dk_dirs d) | _ \<Rightarrow> E (dk_dirs d)"
  using assms(1) [unfolded hoare_def, rule_format, of "\<lparr>dk_dirs = ds, dk_script = script\<rparr>"] assms(2,3)
  by (simp split: run.splits)

lemma runsD:
  assumes "runs P m" and "m \<lparr>dk_dirs = ds, dk_script = []\<rparr> = (r, d)" and "P ds"
  shows "\<exists>x. r = Ret x"
  using assms(1) [unfolded runs_def, rule_format, of "\<lparr>dk_dirs = ds, dk_script = []\<rparr>"] assms(2,3)
  by (simp split: run.splits)


text \<open>A commit across filesystems that is killed while it copies; the first recovery is killed too.\<close>

definition sample_tools :: tools where
  "sample_tools =
     \<lparr>tl_sha = (\<lambda>_. replicate 64 CHR ''0''), tl_text = (\<lambda>_. ''json''),
      tl_parquet = (\<lambda>b. Inr (int (length b), ''schema''))\<rparr>"

definition sample_transaction :: transaction where
  "sample_transaction =
     \<lparr>tx_final = ''data'', tx_staging = ''.data.txn-7'', tx_backup = ''.data.backup-7'', tx_id = ''7'', tx_context = []\<rparr>"

definition sample_disk :: "(string \<times> dir) list" where
  "sample_disk =
     [(''data'', [(''old.parquet'', Bytes ''rows'')]), (''other'', []),
      (''.data.txn-7'', [(''new.parquet'', Bytes ''more rows'')])]"

definition sample_faults :: "outcome list" where
  "sample_faults = [Works, Works, Works, Fails EXDEV [], Dies []]"

definition sample_killed :: "commit_report run \<times> disk" where
  "sample_killed = commit_or_abort sample_tools ''8'' sample_transaction \<lparr>dk_dirs = sample_disk, dk_script = sample_faults\<rparr>"

definition sample_recovered :: "(nat \<times> nat) run \<times> disk" where
  "sample_recovered = recover_orphan_transactions ''data''
     \<lparr>dk_dirs = recoveries ''data'' [[Dies [''new.parquet'']]] (dk_dirs (snd sample_killed)), dk_script = []\<rparr>"

lemma sample_names: "proper_transaction sample_transaction"
  by (simp add: proper_transaction_def sample_transaction_def staging_prefix_def backup_prefix_def)

lemma sample_no_backups: "starts_with k (backup_prefix ''data'') \<Longrightarrow> map_of sample_disk k = None"
  by (auto simp: sample_disk_def backup_prefix_def starts_with_iff)

text \<open>Until recovery runs, the dataset is missing; then it is the old one.\<close>

lemma killed_commit_hides_dataset:
  "fst sample_killed = Dead \<and> map_of (dk_dirs (snd sample_killed)) ''data'' = None"
  by code_simp


end
