(* ===== verification/PublishedDatasets.thy ===== *)
theory PublishedDatasets
  imports Transactions
begin

text \<open>
  What a published dataset looks like to its readers: the manifest a commit seals, completed with
  the provenance of \<open>refresh_dataset_manifest_provenance\<close>, passes \<open>validate_committed_dataset\<close>.
\<close>

section \<open>Documents that survive JSON\<close>

text \<open>A document without tuples is read back as it was written.\<close>

fun json_plain :: "pyval \<Rightarrow> bool" where
  "json_plain (VList xs) = list_all json_plain xs"
| "json_plain (VTuple xs) = False"
| "json_plain (VDict d) = list_all (\<lambda>p. json_plain (snd p)) d"
| "json_plain v = True"

lemma json_safe_plain: "json_plain v \<Longrightarrow> json_safe v = v"
proof (induction v)
  case (VList xs)
  then show ?case by (auto simp: list_all_iff intro!: map_idI)
next
  case (VDict d)
  have "json_safe (snd p) = snd p" if "p \<in> set d" for p
    using VDict.IH [of p "snd p"] VDict.prems that by (cases p) (auto simp: list_all_iff)
  then show ?case by (auto intro!: map_idI)
qed auto

lemma json_plain_safe: "json_plain (json_safe v)"
proof (induction v)
  case (VDict d)
  have "json_plain (json_safe (snd p))" if "p \<in> set d" for p
    using VDict.IH [of p "snd p"] that by (cases p) auto
  then show ?case by (auto simp: list_all_iff)
qed (auto simp: list_all_iff)

lemma plain_segment: "json_plain (VDict (segment_to_dict s))"
  by (simp add: segment_to_dict_def)

lemma plain_segment_value: "(k, v) \<in> set (segment_to_dict s) \<Longrightarrow> json_plain v"
  by (auto simp: segment_to_dict_def)

lemma plain_receipt: "json_plain (VDict (receipt_to_dict r))"
  by (auto simp: receipt_to_dict_def plain_segment_value list_all_iff split: option.split)

lemma plain_dict_put: "json_plain (VDict d) \<Longrightarrow> json_plain v \<Longrightarrow> json_plain (VDict (dict_put k v d))"
  using set_dict_put [of k v d] by (auto simp: list_all_iff)

lemma plain_manifest: "(\<And>p. p \<in> set parts \<Longrightarrow> json_plain (VDict p)) \<Longrightarrow> json_plain (VDict (manifest_dict tx r rows parts))"
  using json_plain_safe [of "VDict (tx_context tx)"]
  by (auto simp: manifest_dict_def list_all_iff split: option.split)

section \<open>The segments of a sealed dataset\<close>

text \<open>A segment that describes its file.\<close>

definition describes :: "tools \<Rightarrow> dir \<Rightarrow> segment \<Rightarrow> bool" where
  "describes t x s =
     (\<exists>f. map_of x (sg_path s) = Some f \<and> sg_size s = file_size t f \<and> file_size t f \<noteq> 0 \<and> sg_sha s = file_sha256 t f \<and>
          0 \<le> sg_rows s \<and> sg_schema_hash s = tl_sha t (sg_schema s) \<and> sg_id s \<noteq> [] \<and>
          (ends_with (sg_path s) ''.parquet'' \<or> ends_with (sg_path s) ''.sbdf''))"

text \<open>What the tools promise: digests of 64 digits, row counts that are not negative, texts that are not empty.\<close>

definition tools_ok :: "tools \<Rightarrow> bool" where
  "tools_ok t =
     ((\<forall>s. length (tl_sha t s) = 64) \<and> (\<forall>v. tl_text t v \<noteq> []) \<and>
      (\<forall>b rows schema. tl_parquet t b = Inr (rows, schema) \<longrightarrow> 0 \<le> rows))"

lemma tools_rows: "tools_ok t \<Longrightarrow> tl_parquet t b = Inr (rows, schema) \<Longrightarrow> 0 \<le> rows"
  unfolding tools_ok_def by blast

lemma tools_digest: "tools_ok t \<Longrightarrow> length (tl_sha t s) = 64"
  by (simp add: tools_ok_def)

lemma str_or_text [simp]: "str_or (VStr s) [] = s"
  by (simp add: str_or_def)

lemma with_segment_id_part:
  "with_segment_id sha [(''relative_path'', VStr path), (''rows'', VInt rows), (''size_bytes'', VInt len),
      (''sha256'', VStr digest), (''schema'', VStr schema)] =
    Inr \<lparr>sg_path = path, sg_rows = rows, sg_size = len, sg_sha = digest, sg_schema = schema,
         sg_schema_hash = sha schema, sg_id = sha (path @ [CHR 0x00] @ digest @ [CHR 0x00] @ int_str rows)\<rparr>"
  by (auto simp: with_segment_id_def int_or_zero_def get_key_def py_or_def Let_def str_or_def)

lemma with_segment_id_again:
  assumes "sg_schema_hash s = sha (sg_schema s)" and "sg_id s \<noteq> []"
  shows "with_segment_id sha (segment_to_dict s @ extra) = Inr s"
  using assms
  by (auto simp: with_segment_id_def segment_to_dict_def int_or_zero_def get_key_def py_or_def Let_def str_or_def)

lemma part_entry_describes:
  assumes "part_entry t artifact sbdf x path = Inr (rows, k, p)" and "tools_ok t"
    and "ends_with path ''.parquet'' \<or> ends_with path ''.sbdf''"
  shows "\<exists>s. with_segment_id (tl_sha t) p = Inr s \<and> describes t x s \<and> sg_path s = path \<and>
    get_key p ''relative_path'' = VStr path"
proof -
  from assms(1) obtain f schema where f: "map_of x path = Some f" "file_size t f \<noteq> 0"
    and facts: "part_facts t artifact sbdf path f = Inr (rows, schema, k)"
    and p: "p = [(''relative_path'', VStr path), (''rows'', VInt rows), (''size_bytes'', VInt (file_size t f)),
       (''sha256'', VStr (file_sha256 t f)), (''schema'', VStr schema)]"
    by (auto simp: part_entry_def res_simps split: option.splits)
  from facts assms(2) have "0 \<le> rows"
    by (auto simp: part_facts_def res_simps Let_def tools_rows split: if_splits prod.splits)
  moreover have "tl_sha t s \<noteq> []" for s using tools_digest [OF assms(2), of s] by auto
  ultimately show ?thesis unfolding p with_segment_id_part
    using f assms(3) by (simp add: describes_def get_key_def)
qed

lemma part_paths_suffix: "p \<in> set (part_paths artifact x) \<Longrightarrow> ends_with p ''.parquet'' \<or> ends_with p ''.sbdf''"
  by (auto simp: part_paths_def split: if_splits)

text \<open>A manifest part written for a segment; an sbdf part has two more keys.\<close>

definition part_of :: "segment \<Rightarrow> pydict \<Rightarrow> bool" where
  "part_of s p = (p = segment_to_dict s \<or> (\<exists>k. p = with_sidecar k (segment_to_dict s)))"

lemma part_of_append: "part_of s p \<Longrightarrow> \<exists>extra. p = segment_to_dict s @ extra"
  by (auto simp: part_of_def with_sidecar_def)

lemma part_of_plain: "part_of s p \<Longrightarrow> json_plain (VDict p)"
  using plain_segment [of s] by (auto simp: part_of_def with_sidecar_def)

lemma part_of_keys:
  assumes "part_of s p"
  shows "get_key p ''relative_path'' = VStr (sg_path s)" "get_key p ''size_bytes'' = VInt (sg_size s)"
    "get_key p ''sha256'' = VStr (sg_sha s)"
  using part_of_append [OF assms] by (auto simp: segment_to_dict_def get_key_def)

lemma describes_identity: "describes t x s \<Longrightarrow> sg_schema_hash s = tl_sha t (sg_schema s) \<and> sg_id s \<noteq> []"
  by (auto simp: describes_def)

lemma entries_describe:
  assumes "res_map (part_entry t artifact sbdf x) (part_paths artifact x) = Inr entries" and "tools_ok t"
    and "(rows, k, p) \<in> set entries"
  shows "\<exists>s. with_segment_id (tl_sha t) p = Inr s \<and> describes t x s"
proof -
  from res_map_output [OF assms(1,3)] obtain path where path: "path \<in> set (part_paths artifact x)"
    "part_entry t artifact sbdf x path = Inr (rows, k, p)" by blast
  from part_entry_describes [OF path(2) assms(2) part_paths_suffix [OF path(1)]] show ?thesis by blast
qed

lemma manifest_parts_describe:
  assumes "manifest_parts t artifact entries = Inr parts"
    and "\<forall>(r, k, p) \<in> set entries. \<exists>s. with_segment_id (tl_sha t) p = Inr s \<and> describes t x s"
  shows "\<exists>segments. list_all2 part_of segments parts \<and> (\<forall>s \<in> set segments. describes t x s)"
proof -
  let ?doc = "[(''parts'', VList (map (\<lambda>(r, k, p). VDict p) entries))]"
  from assms(1) obtain segments sidecars where segments: "normalized_parts (tl_sha t) ?doc = Inr segments"
    and p: "parts = map (\<lambda>s. if artifact = ''sbdf'' then with_sidecar (case map_of sidecars (sg_path s) of None \<Rightarrow> [] | Some k \<Rightarrow> k)
      (segment_to_dict s) else segment_to_dict s) segments"
    unfolding manifest_parts_def Let_def res_bind_eq_Inr by auto
  have parts: "list_all2 part_of segments parts"
    unfolding p list_all2_map2 list_all2_same by (auto simp: part_of_def)
  have "describes t x s" if "s \<in> set segments" for s
  proof -
    have iter: "py_iter (py_or (get_key ?doc ''parts'') (VList [])) = Inr (map (\<lambda>(r, k, p). VDict p) entries)"
      by (simp add: get_key_def py_or_def)
    from segments obtain ss where ss: "res_map (\<lambda>raw. with_segment_id (tl_sha t) (dict_of raw))
        (filter usable_part (map (\<lambda>(r, k, p). VDict p) entries)) = Inr ss" "segments = sort_key sg_path ss"
      unfolding normalized_parts_def iter by (auto simp: res_simps)
    from that ss(2) have "s \<in> set ss" by simp
    from res_map_output [OF ss(1) this] obtain raw where raw: "raw \<in> set (map (\<lambda>(r, k, p). VDict p) entries)"
      "with_segment_id (tl_sha t) (dict_of raw) = Inr s" unfolding set_filter by blast
    from raw(1) obtain r k p where p: "(r, k, p) \<in> set entries" "raw = VDict p" by auto
    with bspec [OF assms(2) p(1)] raw(2) show ?thesis by auto
  qed
  with parts show ?thesis by blast
qed

lemma build_manifest_describes:
  assumes "build_manifest t tx previous x = Inr (r, m)" and "tools_ok t"
  shows "\<exists>rows parts segments. m = manifest_dict tx r rows parts \<and> list_all2 part_of segments parts \<and>
    (\<forall>s \<in> set segments. describes t x s) \<and>
    build_dataset_change_receipt (tl_sha t) (case previous of None \<Rightarrow> [] | Some m \<Rightarrow> m) parts (tx_context tx) = Inr r"
proof -
  from assms(1) obtain sbdf entries parts where
    entries: "res_map (part_entry t (artifact_format (tx_context tx)) sbdf x)
        (part_paths (artifact_format (tx_context tx)) x) = Inr entries"
    and parts: "manifest_parts t (artifact_format (tx_context tx)) entries = Inr parts"
    and r: "build_dataset_change_receipt (tl_sha t) (case previous of None \<Rightarrow> [] | Some m \<Rightarrow> m) parts (tx_context tx) = Inr r"
    and m: "m = manifest_dict tx r (sum_list (map fst entries)) parts"
    unfolding build_manifest_def Let_def by (auto simp: res_simps)
  have "\<forall>(r, k, p) \<in> set entries. \<exists>s. with_segment_id (tl_sha t) p = Inr s \<and> describes t x s"
    using entries_describe [OF entries assms(2)] by blast
  from manifest_parts_describe [OF parts this] r m show ?thesis by blast
qed

section \<open>The receipt of a sealed dataset\<close>

definition wf_segment :: "segment \<Rightarrow> bool" where
  "wf_segment s = valid_segment (VDict (segment_to_dict s))"

lemma wf_segment_iff:
  "wf_segment s \<longleftrightarrow> sg_path s \<noteq> [] \<and> sg_id s \<noteq> [] \<and> length (sg_sha s) = 64 \<and> length (sg_schema_hash s) = 64 \<and> 0 \<le> sg_rows s"
  by (simp add: wf_segment_def valid_segment_def segment_to_dict_def get_key_def nonempty_text_def str_of_def
      digest_text_def natural_int_def)

lemma describes_path: "describes t x s \<Longrightarrow> sg_path s \<noteq> []"
  by (auto simp: describes_def ends_with_def starts_with_iff)

lemma describes_wf: "describes t x s \<Longrightarrow> tools_ok t \<Longrightarrow> wf_segment s"
  using describes_path [of t x s] by (auto simp: describes_def wf_segment_iff tools_digest file_sha256_def)

lemma receipt_dict_valid:
  assumes "rc_dataset_id r \<noteq> []" and "rc_generation r \<noteq> []"
    and "\<forall>s \<in> set (rc_added r) \<union> set (rc_removed r) \<union> fst ` set (rc_replaced r) \<union> snd ` set (rc_replaced r). wf_segment s"
    and "case m of None \<Rightarrow> True | Some m \<Rightarrow> get_key m ''generation_id'' = VStr (rc_generation r)"
  shows "validate_dataset_change_receipt (VDict (receipt_to_dict r)) m"
proof -
  have wf: "s \<in> set (rc_added r) \<Longrightarrow> valid_segment (VDict (segment_to_dict s))"
    "s \<in> set (rc_removed r) \<Longrightarrow> valid_segment (VDict (segment_to_dict s))"
    "(b, a) \<in> set (rc_replaced r) \<Longrightarrow> valid_segment (VDict (segment_to_dict b)) \<and> valid_segment (VDict (segment_to_dict a))" for s b a
    using assms(3) by (force simp: wf_segment_def)+
  have "valid_changes (get_key (receipt_to_dict r) ''changes'')"
    using wf by (auto simp: receipt_to_dict_def valid_changes_def get_key_def natural_int_def list_all_iff)
  moreover have "get_key (receipt_to_dict r) ''schema_version'' = VStr CHANGE_RECEIPT_SCHEMA_VERSION"
    "get_key (receipt_to_dict r) ''dataset_id'' = VStr (rc_dataset_id r)"
    "get_key (receipt_to_dict r) ''generation_id'' = VStr (rc_generation r)"
    by (simp_all add: receipt_to_dict_def get_key_def)
  ultimately show ?thesis using assms(1,2,4)
    by (cases m) (simp_all add: validate_dataset_change_receipt_def nonempty_text_def str_of_def)
qed

text \<open>A previous manifest whose parts make valid segments: one that a commit wrote, or none.\<close>

definition manifest_wf :: "tools \<Rightarrow> pydict option \<Rightarrow> bool" where
  "manifest_wf t previous =
     (case normalized_parts (tl_sha t) (case previous of None \<Rightarrow> [] | Some m \<Rightarrow> m) of
        Inl _ \<Rightarrow> False | Inr ss \<Rightarrow> list_all wf_segment ss)"

lemma built_receipt_valid:
  assumes "build_manifest t tx previous x = Inr (r, m)" and "tools_ok t" and "manifest_wf t previous"
    and "case m' of None \<Rightarrow> True | Some m' \<Rightarrow> get_key m' ''generation_id'' = VStr (rc_generation r)"
  shows "validate_dataset_change_receipt (VDict (receipt_to_dict r)) m'"
proof -
  from build_manifest_describes [OF assms(1,2)] obtain parts segments where
    parts: "list_all2 part_of segments parts" "\<forall>s \<in> set segments. describes t x s"
    and r: "build_dataset_change_receipt (tl_sha t) (case previous of None \<Rightarrow> [] | Some m \<Rightarrow> m) parts (tx_context tx) = Inr r"
    by blast
  have again: "res_map (with_segment_id (tl_sha t)) parts = Inr segments"
    using parts
  proof (induction rule: list_all2_induct)
    case (Cons s ss p ps)
    then obtain extra where "p = segment_to_dict s @ extra" using part_of_append by blast
    with Cons with_segment_id_again [of s "tl_sha t" extra] describes_identity [of t x s] show ?case by simp
  qed simp
  from r obtain before where before: "normalized_parts (tl_sha t) (case previous of None \<Rightarrow> [] | Some m \<Rightarrow> m) = Inr before"
    and rc: "rc_added r = added_segments (by_path before) (by_path segments)"
      "rc_replaced r = replaced_segments (by_path before) (by_path segments)"
      "rc_removed r = removed_segments (by_path before) (by_path segments)"
      "rc_dataset_id r = dataset_id (tx_context tx)"
    and gen: "manifest_generation_id (tl_sha t) segments (VDict (tx_context tx)) = Inr (rc_generation r)"
    unfolding build_dataset_change_receipt_def Let_def again by (auto simp: res_simps)
  have before_wf: "s \<in> set before \<Longrightarrow> wf_segment s" for s
    using assms(3) before by (auto simp: manifest_wf_def list_all_iff)
  have now_wf: "s \<in> set segments \<Longrightarrow> wf_segment s" for s
    using parts(2) describes_wf [OF _ assms(2)] by blast
  have "rc_dataset_id r \<noteq> []" by (simp add: rc(4) dataset_id_def)
  moreover have "rc_generation r \<noteq> []" using gen by (auto simp: manifest_generation_id_def)
  moreover have "\<forall>s \<in> set (rc_added r) \<union> set (rc_removed r) \<union> fst ` set (rc_replaced r) \<union> snd ` set (rc_replaced r). wf_segment s"
    unfolding rc
    by (auto simp: in_added in_removed in_replaced dest!: by_path_key map_of_SomeD intro: before_wf now_wf)
  ultimately show ?thesis using assms(4) by (rule receipt_dict_valid)
qed

section \<open>Refreshing the provenance\<close>

definition refreshed_dataset :: "tools \<Rightarrow> dir \<Rightarrow> dir" where
  "refreshed_dataset t x =
     (case refreshed_manifest t x of
        None \<Rightarrow> x
      | Some m \<Rightarrow> dict_put MANIFEST (Json (VDict m)) (dict_del MANIFEST_TMP (dict_put MANIFEST_TMP (Json (VDict m)) x)))"

text \<open>The function of the code, run without faults, does exactly this to the dataset.\<close>

lemma refresh_refines:
  assumes "map_of ds final = Some x"
  shows "\<exists>d. refresh_dataset_manifest_provenance t final \<lparr>dk_dirs = ds, dk_script = []\<rparr> = (Ret (), d) \<and>
    map_of (dk_dirs d) final = Some (refreshed_dataset t x)"
proof (cases "refreshed_manifest t x")
  case None
  with assms show ?thesis
    by (simp add: refresh_dataset_manifest_provenance_def refreshed_dataset_def io_bind_def io_dirs_def io_ret_def)
next
  case (Some m)
  with assms show ?thesis
    by (simp add: refresh_dataset_manifest_provenance_def refreshed_dataset_def io_bind_def io_dirs_def
        write_file_def replace_manifest_def io_step_def put_file_def dict_simps)
qed

lemma special_files:
  "MANIFEST \<noteq> RECEIPT" "MANIFEST_TMP \<noteq> RECEIPT" "MANIFEST_TMP \<noteq> MANIFEST" "RECEIPT \<noteq> MANIFEST" "RECEIPT \<noteq> MANIFEST_TMP"
  "MANIFEST \<noteq> MANIFEST_TMP"
  by (simp_all add: MANIFEST_def RECEIPT_def MANIFEST_TMP_def)

lemma special_suffixes:
  "ends_with p ''.parquet'' \<or> ends_with p ''.sbdf'' \<Longrightarrow> p \<noteq> MANIFEST \<and> p \<noteq> RECEIPT \<and> p \<noteq> MANIFEST_TMP"
proof -
  have "list_all (\<lambda>p. \<not> ends_with p ''.parquet'' \<and> \<not> ends_with p ''.sbdf'') [MANIFEST, RECEIPT, MANIFEST_TMP]"
    by code_simp
  then show "ends_with p ''.parquet'' \<or> ends_with p ''.sbdf'' \<Longrightarrow> p \<noteq> MANIFEST \<and> p \<noteq> RECEIPT \<and> p \<noteq> MANIFEST_TMP" by auto
qed

lemma special_prefixes:
  "starts_with p ''_smoking_data/'' \<Longrightarrow> p \<noteq> MANIFEST \<and> p \<noteq> MANIFEST_TMP \<and> p \<noteq> []"
  "starts_with RECEIPT ''_smoking_data/''" "starts_with METADATA ''_smoking_data/''"
proof -
  have "list_all (\<lambda>p. \<not> starts_with p ''_smoking_data/'') [MANIFEST, MANIFEST_TMP, []]" by code_simp
  then show "starts_with p ''_smoking_data/'' \<Longrightarrow> p \<noteq> MANIFEST \<and> p \<noteq> MANIFEST_TMP \<and> p \<noteq> []" by auto
  show "starts_with RECEIPT ''_smoking_data/''" "starts_with METADATA ''_smoking_data/''" by code_simp+
qed

lemma in_dict_keys: "p \<in> set (dict_keys x) \<longleftrightarrow> map_of x p \<noteq> None"
  by (auto simp: dict_keys_def map_of_eq_None_iff)

text \<open>What the files of the refreshed dataset are.\<close>

lemma refreshed_files:
  assumes "refreshed_manifest t (dict_put MANIFEST mf (dict_put RECEIPT rf x)) = Some m"
  shows "map_of (refreshed_dataset t (dict_put MANIFEST mf (dict_put RECEIPT rf x))) p =
    (if p = MANIFEST then Some (Json (VDict m)) else if p = MANIFEST_TMP then None
     else if p = RECEIPT then Some rf else map_of x p)"
  unfolding refreshed_dataset_def assms by (simp add: dict_simps special_files)

lemma all_ok_True: "(\<And>x. x \<in> set xs \<Longrightarrow> f x = Inr True) \<Longrightarrow> all_ok f xs = Inr True"
  by (induction xs) simp_all

lemma part_is_ok:
  assumes "part_of s p" and "describes t x s" and "map_of y (sg_path s) = map_of x (sg_path s)"
  shows "listed_file_ok t True y (VDict p) = Inr True"
  using assms(2,3) describes_path [OF assms(2)]
  by (auto simp: listed_file_ok_def part_of_keys [OF assms(1)] describes_def recorded_size_def py_or_def)

lemma provenance_is_ok:
  assumes "\<And>p f. starts_with p ''_smoking_data/'' \<Longrightarrow> map_of x p = Some f \<Longrightarrow> file_size t f \<noteq> 0 \<and> map_of y p = Some f"
    and "item \<in> set (list_of (provenance_of t x))"
  shows "listed_file_ok t False y item = Inr True"
proof -
  from assms(2) obtain p where p: "starts_with p ''_smoking_data/''" "p \<in> set (dict_keys x)"
    and item: "item = (case map_of x p of None \<Rightarrow> VNone | Some f \<Rightarrow> VDict [(''relative_path'', VStr p),
       (''size_bytes'', VInt (file_size t f)), (''sha256'', VStr (file_sha256 t f))])"
    by (auto simp: provenance_of_def)
  then obtain f where f: "map_of x p = Some f" by (auto simp: in_dict_keys)
  from assms(1) [OF p(1) f] special_prefixes(1) [OF p(1)] show ?thesis
    by (simp add: item f listed_file_ok_def get_key_def recorded_size_def py_or_def)
qed

lemma provenance_lists:
  assumes "map_of x p = Some f" and "starts_with p ''_smoking_data/''"
  shows "VDict [(''relative_path'', VStr p), (''size_bytes'', VInt (file_size t f)), (''sha256'', VStr (file_sha256 t f))]
    \<in> set (list_of (provenance_of t x))"
  using assms by (force simp: provenance_of_def in_dict_keys)

lemma plain_provenance: "json_plain (provenance_of t x)"
  by (auto simp: provenance_of_def list_all_iff split: option.splits)

lemma manifest_keys:
  "get_key (manifest_dict tx r rows parts) ''version'' = VStr DATASET_MANIFEST_VERSION"
  "get_key (manifest_dict tx r rows parts) ''change_receipt'' = VStr RECEIPT"
  "get_key (manifest_dict tx r rows parts) ''generation_id'' = VStr (rc_generation r)"
  "get_key (manifest_dict tx r rows parts) ''parts'' = VList (map VDict parts)"
  by (simp_all add: manifest_dict_def get_key_def)

lemma get_key_put: "get_key (dict_put k v d) j = (if j = k then v else get_key d j)"
  by (simp add: get_key_def dict_simps)

lemma list_all2_partner: "list_all2 P xs ys \<Longrightarrow> y \<in> set ys \<Longrightarrow> \<exists>x \<in> set xs. P x y"
  by (induction rule: list_all2_induct) auto

lemma parts_normalize:
  assumes "list_all2 part_of segments parts" and "\<forall>s \<in> set segments. describes t x s" and "tools_ok t"
    and "get_key m ''parts'' = VList (map VDict parts)"
  shows "normalized_parts (tl_sha t) m = Inr (sort_key sg_path segments)"
proof -
  have "filter usable_part (map VDict parts) = map VDict parts"
  proof (rule filter_True, rule ballI)
    fix raw assume "raw \<in> set (map VDict parts)"
    then obtain p where p: "p \<in> set parts" "raw = VDict p" by auto
    with list_all2_partner [OF assms(1) p(1)] obtain s where s: "s \<in> set segments" "part_of s p" by blast
    with assms(2) have d: "describes t x s" by blast
    with describes_path [OF d] describes_wf [OF d assms(3)] show "usable_part raw"
      by (auto simp: usable_part_def p(2) part_of_keys [OF s(2)] wf_segment_iff)
  qed
  moreover have "res_map (\<lambda>raw. with_segment_id (tl_sha t) (dict_of raw)) (map VDict parts) = Inr segments"
    using assms(1,2)
  proof (induction rule: list_all2_induct)
    case (Cons s ss p ps)
    then obtain extra where "p = segment_to_dict s @ extra" using part_of_append by blast
    with Cons with_segment_id_again [of s "tl_sha t" extra] describes_identity [of t x s] show ?case by simp
  qed simp
  moreover have "py_or (VList (map VDict parts)) (VList []) = VList (map VDict parts)" by (simp add: py_or_def)
  ultimately show ?thesis unfolding normalized_parts_def assms(4) by simp
qed

text \<open>A sealed dataset with its metadata, once its provenance is refreshed.\<close>

lemma sealed_validates:
  assumes "sealed_dataset t tx previous x = Some d" and "tools_ok t" and "manifest_wf t previous"
    and "map_of x METADATA \<noteq> None"
    and "\<And>p f. starts_with p ''_smoking_data/'' \<Longrightarrow> map_of x p = Some f \<Longrightarrow> file_size t f \<noteq> 0"
  shows "validate_committed_dataset t (refreshed_dataset t d) = Inr True \<and>
    manifest_wf t (read_manifest (refreshed_dataset t d))"
proof -
  from assms(1) obtain r m where built: "build_manifest t tx previous x = Inr (r, m)"
    and d: "d = dict_put MANIFEST (Json (VDict m)) (dict_put RECEIPT (receipt_file r) x)"
    by (auto simp: sealed_dataset_def split: sum.splits prod.splits)
  from build_manifest_describes [OF built assms(2)] obtain rows parts segments where
    m: "m = manifest_dict tx r rows parts" and parts: "list_all2 part_of segments parts"
    and segments: "\<forall>s \<in> set segments. describes t x s" by blast
  have part: "\<exists>s. part_of s p \<and> describes t x s" if "p \<in> set parts" for p
  proof -
    from list_all2_partner [OF parts that] obtain s where "s \<in> set segments" "part_of s p" by blast
    with segments show ?thesis by blast
  qed
  have plain: "json_plain (VDict m)" unfolding m by (rule plain_manifest) (use part part_of_plain in blast)
  have read_d: "read_manifest d = Some m"
    using json_safe_plain [OF plain] by (simp add: read_manifest_def d dict_simps load_json_def special_files del: json_safe.simps)
  let ?m = "dict_put ''provenance'' (provenance_of t d) m"
  have files: "map_of d p = (if p = MANIFEST then Some (Json (VDict m)) else if p = RECEIPT then Some (receipt_file r) else map_of x p)"
    for p by (simp add: d dict_simps)
  have "has_provenance d"
    using special_prefixes(2) special_files(4) by (force simp: has_provenance_def list_ex_iff in_dict_keys files)
  then have refreshed: "refreshed_manifest t d = Some ?m" by (simp add: refreshed_manifest_def read_d)
  let ?y = "refreshed_dataset t d"
  note look = refreshed_files [OF refreshed [unfolded d], folded d]
  have read_y: "read_manifest ?y = Some ?m"
    using json_safe_plain [OF plain_dict_put [OF plain plain_provenance, of "''provenance''" t d]]
    by (simp add: read_manifest_def look load_json_def del: json_safe.simps)
  have receipt: "validate_dataset_change_receipt (VDict (receipt_to_dict r)) None"
    "validate_dataset_change_receipt (VDict (receipt_to_dict r)) (Some ?m)"
    by (rule built_receipt_valid [OF built assms(2,3)]; simp add: get_key_put m manifest_keys)+
  have "read_dataset_change_receipt ?y = Some (VDict (receipt_to_dict r))"
    using json_safe_plain [OF plain_receipt [of r]] receipt(1)
    by (simp add: read_dataset_change_receipt_def look special_files receipt_file_def load_json_def del: json_safe.simps)
  then have receipt_ok: "receipt_ok ?y ?m" using receipt(2) by (simp add: receipt_ok_def)
  have m_keys: "get_key ?m ''version'' = VStr DATASET_MANIFEST_VERSION" "get_key ?m ''parts'' = VList (map VDict parts)"
    "get_key ?m ''provenance'' = provenance_of t d"
    by (simp_all add: get_key_put m manifest_keys)
  have parts_ok: "all_ok (listed_file_ok t True ?y) (map VDict parts) = Inr True"
  proof (rule all_ok_True)
    fix item assume "item \<in> set (map VDict parts)"
    then obtain p where p: "p \<in> set parts" "item = VDict p" by auto
    from part [OF p(1)] obtain s where s: "part_of s p" "describes t x s" by blast
    have "map_of ?y (sg_path s) = map_of x (sg_path s)"
      using s(2) special_suffixes [of "sg_path s"] by (auto simp: look describes_def)
    from part_is_ok [OF s this] show "listed_file_ok t True ?y item = Inr True" by (simp add: p(2))
  qed
  have prov_ok: "all_ok (listed_file_ok t False ?y) (list_of (provenance_of t d)) = Inr True"
  proof (rule all_ok_True, rule provenance_is_ok)
    fix p f assume p: "starts_with p ''_smoking_data/''" "map_of d p = Some f"
    have "file_size t (receipt_file r) \<noteq> 0" using assms(2) by (simp add: file_size_def receipt_file_def file_bytes_def tools_ok_def)
    with p assms(5) [OF p(1)] special_prefixes(1) [OF p(1)]
    show "file_size t f \<noteq> 0 \<and> map_of ?y p = Some f" by (auto simp: files look split: if_splits)
  qed
  from assms(4) obtain f where "map_of x METADATA = Some f" by blast
  moreover have "METADATA \<noteq> RECEIPT" "METADATA \<noteq> MANIFEST" by (simp_all add: METADATA_def RECEIPT_def MANIFEST_def)
  ultimately have "map_of d METADATA = Some f" by (simp add: files)
  from provenance_lists [OF this special_prefixes(3), of t] have metadata: "list_of (provenance_of t d) \<noteq> []"
    "lists_metadata (list_of (provenance_of t d))"
    by (auto simp: lists_metadata_def list_ex_iff get_key_def intro!: bexI)
  have "is_list (provenance_of t d)" by (simp add: provenance_of_def)
  with metadata parts_ok prov_ok receipt_ok have "validate_committed_dataset t ?y = Inr True"
    by (simp add: validate_committed_dataset_def read_y m_keys)
  moreover have "manifest_wf t (read_manifest ?y)"
    unfolding read_y using parts_normalize [OF parts segments assms(2) m_keys(2)] segments describes_wf [OF _ assms(2)]
    by (auto simp: manifest_wf_def list_all_iff)
  ultimately show ?thesis ..
qed



text \<open>A dataset with one part and its metadata, sealed after an earlier one.\<close>

definition sample_dir :: dir where
  "sample_dir = [(''part.parquet'', Bytes ''rows''), (METADATA, Json (VDict [(''asset'', VStr ''0201'')]))]"

definition sample_sealed :: "dir option" where
  "sample_sealed = sealed_dataset sample_tools sample_transaction None sample_dir"


text \<open>One empty file among the provenance makes every later validation fail.\<close>

definition sample_dir_with_empty_file :: dir where
  "sample_dir_with_empty_file = (''_smoking_data/notes.txt'', Bytes []) # sample_dir"

lemma empty_provenance_file_fails:
  "(case sealed_dataset sample_tools sample_transaction None sample_dir_with_empty_file of
      None \<Rightarrow> None | Some d \<Rightarrow> Some (validate_committed_dataset sample_tools (refreshed_dataset sample_tools d)))
     = Some (Inr False)"
  by code_simp

end
