(* ===== verification/ExpressionIr.thy ===== *)
theory ExpressionIr
  imports PyValue
begin

text \<open>
  The expression documents of the calculated-fact asset, \<open>assets/a0102_calculated_fact/planner.py\<close>
  with \<open>subset_expression_ir\<close> of \<open>invalidation.py\<close> and \<open>_filter_expression_ir\<close> of \<open>planning.py\<close>.
  A document is the JSON tree that the Spotfire compiler writes: layers of named expressions,
  each a tree of node dictionaries. The walks over nodes, the choice of how a list expression
  is executed, and the part of a document that a task needs; the last is the dependency
  closure of the task's outputs, and running it gives the outputs the full document gives.
\<close>

section \<open>Nodes\<close>

text \<open>\<open>str(d.get(key) or "")\<close>.\<close>

definition text_at :: "pydict \<Rightarrow> string \<Rightarrow> string" where
  "text_at d k = str_or (get_key d k) []"

text \<open>
  The children a node's kind names. A field that is iterated contributes what it iterates
  over; \<open>iterable_fields\<close> tells where that iteration raises instead, and every walk of the
  model starts with \<open>walkable\<close>, which asks it of each node.
\<close>

fun case_children :: "pyval \<Rightarrow> pyval list" where
  "case_children branch =
     (if is_dict branch then [get_key (dict_of branch) ''when'', get_key (dict_of branch) ''then''] else [])"

definition node_children :: "pydict \<Rightarrow> pyval list" where
  "node_children node =
     (let kind = text_at node ''kind'' in
      if kind = ''alias'' then [get_key node ''expression'']
      else if kind = ''unary'' then [get_key node ''operand'']
      else if kind = ''binary'' then [get_key node ''left'', get_key node ''right'']
      else if kind = ''case''
        then concat (map case_children (items_of (get_key node ''branches''))) @ [get_key node ''otherwise'']
      else if kind = ''call'' then items_of (get_key node ''arguments'')
      else if kind = ''cast'' then [get_key node ''expression'']
      else if kind = ''window''
        then get_key node ''expression'' # items_of (get_key node ''partition_by'') @
             map (\<lambda>item. get_key (dict_of item) ''expression'')
               (filter is_dict (items_of (get_key node ''order_by'')))
      else [])"

definition iterable :: "pyval \<Rightarrow> bool" where
  "iterable v = (\<not> py_truthy v \<or> (case py_iter v of Inl _ \<Rightarrow> False | Inr _ \<Rightarrow> True))"

definition iterable_fields :: "pydict \<Rightarrow> bool" where
  "iterable_fields node =
     (let kind = text_at node ''kind'' in
      if kind = ''case'' then iterable (get_key node ''branches'')
      else if kind = ''call'' then iterable (get_key node ''arguments'')
      else if kind = ''window'' then iterable (get_key node ''partition_by'') \<and> iterable (get_key node ''order_by'')
      else True)"

text \<open>The mappings among the children: the nodes that the walk goes on to.\<close>

definition child_nodes :: "pydict \<Rightarrow> pydict list" where
  "child_nodes node = map dict_of (filter is_dict (node_children node))"

definition node_size :: "pydict \<Rightarrow> nat" where
  "node_size d = size_list (size_prod (\<lambda>_. 0) size) d"

lemma get_key_size: "get_key d k \<noteq> VNone \<Longrightarrow> size (get_key d k) < Suc (node_size d)"
proof -
  assume "get_key d k \<noteq> VNone"
  then obtain v where v: "map_of d k = Some v" "get_key d k = v"
    by (auto simp: get_key_def split: option.splits)
  then have "size v \<le> node_size d"
    unfolding node_size_def by (intro size_list_estimation' [where x = "(k, v)"]) (auto dest: map_of_SomeD)
  with v show ?thesis by simp
qed

lemma items_of_dict_size:
  assumes "x \<in> set (items_of v)" and "is_dict x"
  shows "size x < size v"
proof (cases v)
  case (VList xs)
  with assms show ?thesis by (auto simp: less_Suc_eq_le intro: size_list_estimation')
next
  case (VTuple xs)
  with assms show ?thesis by (auto simp: less_Suc_eq_le intro: size_list_estimation')
qed (use assms in auto)

lemma dict_node_size: "is_dict v \<Longrightarrow> Suc (node_size (dict_of v)) = size v"
  by (cases v) (auto simp: node_size_def)

lemma dict_field_size: "is_dict (get_key d k) \<Longrightarrow> node_size (dict_of (get_key d k)) < node_size d"
proof -
  assume a: "is_dict (get_key d k)"
  then have "get_key d k \<noteq> VNone" by (cases "get_key d k") auto
  from get_key_size [OF this] dict_node_size [OF a] show ?thesis by linarith
qed

lemma dict_item_size:
  assumes "x \<in> set (items_of (get_key d k))" and "is_dict x"
  shows "node_size (dict_of x) < node_size d"
proof -
  from assms have "get_key d k \<noteq> VNone" by (cases "get_key d k") auto
  from get_key_size [OF this] items_of_dict_size [OF assms] dict_node_size [OF assms(2)]
  show ?thesis by linarith
qed

lemma nested_field_size:
  assumes "x \<in> set (items_of (get_key d k))" and "is_dict x" and "is_dict (get_key (dict_of x) j)"
  shows "node_size (dict_of (get_key (dict_of x) j)) < node_size d"
  using dict_item_size [OF assms(1,2)] dict_field_size [OF assms(3)] by linarith

lemma child_nodes_size: "c \<in> set (child_nodes node) \<Longrightarrow> node_size c < node_size node"
  by (auto simp: child_nodes_def node_children_def Let_def split: if_splits
      intro: dict_field_size dict_item_size nested_field_size)

function walk_nodes :: "pydict \<Rightarrow> pydict list" where
  "walk_nodes node = node # concat (map walk_nodes (child_nodes node))"
  by pat_completeness auto
termination by (relation "measure node_size") (auto intro: child_nodes_size)

declare walk_nodes.simps [simp del]

definition walkable :: "pydict \<Rightarrow> bool" where
  "walkable node = list_all iterable_fields (walk_nodes node)"

definition column_names :: "pydict \<Rightarrow> string list" where
  "column_names node =
     dict_fromkeys (map (\<lambda>n. text_at n ''name'')
       (filter (\<lambda>n. get_key n ''kind'' = VStr ''column'' \<and> text_at n ''name'' \<noteq> []) (walk_nodes node)))"

definition expression_column_references :: "pydict \<Rightarrow> string list result" where
  "expression_column_references node =
     (if walkable node then Inr (column_names node) else Inl (TypeError ''object is not iterable''))"

section \<open>How a list expression is executed\<close>

datatype list_strategy = SCALAR | LIST_NATIVE_MAP | LIST_NATIVE_REDUCE | EXPAND_CALCULATE_COMPACT | UNSUPPORTED

definition NATIVE_BINARY_OPERATORS :: "string list" where
  "NATIVE_BINARY_OPERATORS =
     [''+'', ''-'', ''*'', ''/'', ''%'', ''='', ''!='', ''<'', ''<='', ''>'', ''>='', ''and'', ''or'']"

definition EXPLICIT_LIST_REDUCTIONS :: "string list" where
  "EXPLICIT_LIST_REDUCTIONS = [''listsum'', ''listavg'', ''listmin'', ''listmax'', ''listcount'']"

text \<open>\<open>isinstance(v, Mapping) and p(v)\<close>.\<close>

definition mapping_with :: "(pydict \<Rightarrow> bool) \<Rightarrow> pyval \<Rightarrow> bool" where
  "mapping_with p v = (case v of VDict d \<Rightarrow> p d | _ \<Rightarrow> False)"

lemma mapping_with_cong [fundef_cong]:
  "v = w \<Longrightarrow> (\<And>d. w = VDict d \<Longrightarrow> p d = q d) \<Longrightarrow> mapping_with p v = mapping_with q w"
  by (cases w) (auto simp: mapping_with_def)

lemma list_item_size: "get_key d k = VList xs \<Longrightarrow> VDict e \<in> set xs \<Longrightarrow> node_size e < node_size d"
  using dict_item_size [of "VDict e" d k] by simp

lemma field_size: "get_key d k = VDict e \<Longrightarrow> node_size e < node_size d"
  using dict_field_size [of d k] by simp

lemma child_size: "VDict e \<in> set (node_children d) \<Longrightarrow> node_size e < node_size d"
  by (rule child_nodes_size) (force simp: child_nodes_def)

function is_native_map_node :: "pydict \<Rightarrow> bool" where
  "is_native_map_node node =
     (let kind = text_at node ''kind'' in
      if kind \<in> {''column'', ''literal''} then True
      else if kind = ''alias'' then mapping_with is_native_map_node (get_key node ''expression'')
      else if kind = ''binary''
        then text_at node ''operator'' \<in> set NATIVE_BINARY_OPERATORS \<and>
             mapping_with is_native_map_node (get_key node ''left'') \<and>
             mapping_with is_native_map_node (get_key node ''right'')
      else if kind = ''case''
        then (case get_key node ''branches'' of
                VList branches \<Rightarrow>
                  list_all (mapping_with (\<lambda>branch.
                      mapping_with is_native_map_node (get_key branch ''when'') \<and>
                      mapping_with is_native_map_node (get_key branch ''then''))) branches \<and>
                  mapping_with is_native_map_node (get_key node ''otherwise'')
              | _ \<Rightarrow> False)
      else False)"
  by pat_completeness auto
termination
proof (relation "measure node_size")
qed (auto intro: field_size dest: list_item_size field_size
      intro: less_trans)

declare is_native_map_node.simps [simp del]

definition contains_kind :: "pydict \<Rightarrow> string \<Rightarrow> bool" where
  "contains_kind node kind = list_ex (\<lambda>n. text_at n ''kind'' = kind) (walk_nodes node)"

function is_shape_preserving_node :: "pydict \<Rightarrow> bool" where
  "is_shape_preserving_node node =
     (if contains_kind node ''window'' then False
      else (let kind = text_at node ''kind'' in
        if kind \<in> {''column'', ''literal''} then True
        else if kind = ''call''
          then py_lower (text_at node ''function'') \<notin> set EXPLICIT_LIST_REDUCTIONS \<and>
               list_all (mapping_with is_shape_preserving_node) (node_children node)
        else if kind \<notin> {''alias'', ''unary'', ''binary'', ''case'', ''cast''} then False
        else list_all (mapping_with is_shape_preserving_node) (node_children node)))"
  by pat_completeness auto
termination by (relation "measure node_size") (auto intro: child_size)

declare is_shape_preserving_node.simps [simp del]

text \<open>The function the first explicit reduction of the walk names.\<close>

definition explicit_list_reduction :: "pydict \<Rightarrow> string option" where
  "explicit_list_reduction node =
     find (\<lambda>f. f \<in> set EXPLICIT_LIST_REDUCTIONS)
       (map (\<lambda>n. py_lower (text_at n ''function'')) (filter (\<lambda>n. get_key n ''kind'' = VStr ''call'') (walk_nodes node)))"

definition list_unsupported :: py_error where
  "list_unsupported = ValidationError ''list.expression_unsupported''"

definition invalid_ir :: py_error where
  "invalid_ir = ValidationError ''expression.invalid_ir''"

definition unresolved_dependency :: py_error where
  "unresolved_dependency = ValidationError ''expression.unresolved_dependency''"

definition strategy_of :: "pydict \<Rightarrow> bool \<Rightarrow> bool \<Rightarrow> (list_strategy \<times> string) result" where
  "strategy_of node has_lists expansion =
     (if explicit_list_reduction node \<noteq> None
      then raise_if (\<not> has_lists) list_unsupported (Inr (LIST_NATIVE_REDUCE, ''scalar''))
      else if \<not> has_lists then Inr (SCALAR, ''scalar'')
      else if is_native_map_node node then Inr (LIST_NATIVE_MAP, ''list'')
      else if contains_kind node ''window'' then Inl list_unsupported
      else if expansion \<and> is_shape_preserving_node node then Inr (EXPAND_CALCULATE_COMPACT, ''list'')
      else Inl list_unsupported)"

definition is_list_dtype :: "string \<Rightarrow> bool" where
  "is_list_dtype dtype =
     (let t = filter (\<lambda>c. c \<noteq> CHR '' '') (py_lower (py_strip dtype)) in
      starts_with t ''list<'' \<or> starts_with t ''large_list<'')"

record expression_plan =
  ep_name :: string
  ep_strategy :: list_strategy
  ep_dependencies :: "string list"
  ep_list_dependencies :: "string list"
  ep_output_dtype :: string
  ep_output_cardinality :: string

definition source_cardinality :: "(string \<times> string) list \<Rightarrow> (string \<times> string) list" where
  "source_cardinality = map (\<lambda>(name, dtype). (name, if is_list_dtype dtype then ''list'' else ''scalar''))"

text \<open>One step of the inner loop: the plans so far and the cardinality of every name bound so far.\<close>

definition plan_expression ::
  "bool \<Rightarrow> pyval \<Rightarrow> expression_plan list \<times> (string \<times> string) list \<Rightarrow>
   (expression_plan list \<times> (string \<times> string) list) result" where
  "plan_expression expansion item = (\<lambda>(plans, cardinality).
     raise_if (\<not> is_dict item) invalid_ir (
     let expression = dict_of item;
         name = py_strip (text_at expression ''name'');
         node = get_key expression ''expr'' in
     raise_if (\<not> is_dict node) invalid_ir (
     res_bind (expression_column_references (dict_of node)) (\<lambda>dependencies.
     raise_if (\<exists>d \<in> set dependencies. map_of cardinality d = None) unresolved_dependency (
     let lists = filter (\<lambda>d. map_of cardinality d = Some ''list'') dependencies in
     res_bind (strategy_of (dict_of node) (lists \<noteq> []) expansion) (\<lambda>(strategy, shape).
     let dtype = str_or (get_key expression ''dtype'') ''unknown'';
         plan = \<lparr>ep_name = name, ep_strategy = strategy, ep_dependencies = dependencies,
                 ep_list_dependencies = lists,
                 ep_output_dtype = (if shape = ''list'' then ''list<'' @ dtype @ ''>'' else dtype),
                 ep_output_cardinality = shape\<rparr>
     in Inr (plans @ [plan], dict_put name shape cardinality)))))))"

definition plan_layer ::
  "bool \<Rightarrow> pyval \<Rightarrow> expression_plan list \<times> (string \<times> string) list \<Rightarrow>
   (expression_plan list \<times> (string \<times> string) list) result" where
  "plan_layer expansion layer state =
     (case get_key (dict_of layer) ''expressions'' of
        VList items \<Rightarrow> res_fold (plan_expression expansion) items state
      | _ \<Rightarrow> Inl invalid_ir)"

definition plan_expression_execution ::
  "pydict \<Rightarrow> (string \<times> string) list \<Rightarrow> bool \<Rightarrow> expression_plan list result" where
  "plan_expression_execution document source_dtypes expansion =
     res_bind (py_iter (py_or (get_key document ''layers'') (VList []))) (\<lambda>layers.
     res_bind (res_fold (plan_layer expansion) layers ([], source_cardinality source_dtypes)) (\<lambda>(plans, _).
       Inr plans))"

section \<open>The document's expressions\<close>

text \<open>
  \<open>for_expressions\<close> is the loop of \<open>_expressions\<close>: the mappings of every layer that is a
  mapping, in order. It is a loop and not a list because the iteration itself may raise, after
  earlier expressions have been processed.
\<close>

definition items_or_empty :: "pydict \<Rightarrow> string \<Rightarrow> pyval list result" where
  "items_or_empty d k = py_iter (py_or (get_key d k) (VList []))"

definition mappings :: "pyval list \<Rightarrow> pydict list" where
  "mappings items = map dict_of (filter is_dict items)"

definition for_expressions :: "(pydict \<Rightarrow> 's \<Rightarrow> 's result) \<Rightarrow> pydict \<Rightarrow> 's \<Rightarrow> 's result" where
  "for_expressions body document s =
     res_bind (items_or_empty document ''layers'') (\<lambda>layers.
       res_fold (\<lambda>layer s. res_bind (items_or_empty layer ''expressions'') (\<lambda>items.
         res_fold body (mappings items) s)) (mappings layers) s)"

definition ir_expressions :: "pydict \<Rightarrow> pydict list result" where
  "ir_expressions document = for_expressions (\<lambda>expression found. Inr (found @ [expression])) document []"

text \<open>Keep the layers' expressions that satisfy \<open>keep\<close>; a layer left empty goes.\<close>

definition kept_items :: "(pydict \<Rightarrow> bool) \<Rightarrow> pyval list \<Rightarrow> pyval list" where
  "kept_items keep items = filter (\<lambda>item. is_dict item \<and> keep (dict_of item)) items"

definition kept_layers :: "(pydict \<Rightarrow> bool) \<Rightarrow> pydict \<Rightarrow> pyval list result" where
  "kept_layers keep document =
     res_bind (items_or_empty document ''layers'') (\<lambda>layers.
     res_bind (res_map (\<lambda>layer. res_bind (items_or_empty layer ''expressions'') (\<lambda>items.
         Inr (layer, kept_items keep items))) (mappings layers)) (\<lambda>pairs.
       Inr (map (\<lambda>(layer, items). VDict (dict_put ''expressions'' (VList items) layer))
              (filter (\<lambda>(layer, items). items \<noteq> []) pairs))))"

definition filter_expression_ir :: "pydict \<Rightarrow> string list \<Rightarrow> pydict result" where
  "filter_expression_ir document skipped =
     (if skipped = [] then Inr document
      else res_bind (kept_layers (\<lambda>e. text_at e ''name'' \<notin> set skipped) document) (\<lambda>layers.
             Inr (dict_put ''layers'' (VList layers) document)))"

section \<open>The part of a document that some outputs need\<close>

text \<open>
  The recursion of \<open>visit\<close> on its growing set of required names. \<open>fuel\<close> bounds the depth; one
  more than the number of expressions is always enough.
\<close>

definition named_expressions :: "pydict list \<Rightarrow> (string \<times> pydict) list" where
  "named_expressions expressions = dict_of_pairs (map (\<lambda>e. (text_at e ''name'', e)) expressions)"

text \<open>The column references of an expression that are themselves expressions of the document.\<close>

definition expression_dependencies :: "(string \<times> pydict) list \<Rightarrow> pydict \<Rightarrow> string list result" where
  "expression_dependencies by_name expression =
     (case get_key expression ''expr'' of
        VDict node \<Rightarrow> res_bind (expression_column_references node) (\<lambda>names.
                        Inr (filter (\<lambda>n. map_of by_name n \<noteq> None) names))
      | _ \<Rightarrow> Inr [])"

fun visit :: "(string \<times> pydict) list \<Rightarrow> nat \<Rightarrow> string \<Rightarrow> string list \<Rightarrow> string list result" where
  "visit by_name 0 name required = Inl (RuntimeError ''recursion'')"
| "visit by_name (Suc fuel) name required =
     (if name \<in> set required then Inr required
      else (case map_of by_name name of
              None \<Rightarrow> Inl unresolved_dependency
            | Some expression \<Rightarrow>
                res_bind (expression_dependencies by_name expression) (\<lambda>names.
                  res_fold (visit by_name fuel) names (name # required))))"

definition required_names :: "(string \<times> pydict) list \<Rightarrow> string list \<Rightarrow> string list result" where
  "required_names by_name outputs = res_fold (visit by_name (Suc (length by_name))) outputs []"

definition subset_expression_ir :: "pydict \<Rightarrow> string list \<Rightarrow> pydict result" where
  "subset_expression_ir document outputs =
     res_bind (ir_expressions document) (\<lambda>expressions.
     res_bind (required_names (named_expressions expressions) outputs) (\<lambda>required.
     res_bind (kept_layers (\<lambda>e. text_at e ''name'' \<in> set required) document) (\<lambda>layers.
       Inr (dict_put ''layers'' (VList layers) document))))"

section \<open>Facts about documents\<close>

lemma res_fold_append: "res_fold f (xs @ ys) s = res_bind (res_fold f xs s) (res_fold f ys)"
  by (induction xs arbitrary: s) (auto simp: res_bind_def split: sum.splits)

lemma res_fold_collect: "res_fold (\<lambda>x acc. Inr (acc @ [x])) xs acc = Inr (acc @ xs)"
  by (induction xs arbitrary: acc) auto

definition layer_expressions :: "pydict \<Rightarrow> pydict list result" where
  "layer_expressions layer = res_bind (items_or_empty layer ''expressions'') (\<lambda>items. Inr (mappings items))"

lemma res_fold_nested:
  assumes "res_map g xs = Inr yss"
  shows "res_fold (\<lambda>x s. res_bind (g x) (\<lambda>ys. res_fold f ys s)) xs s = res_fold f (concat yss) s"
  using assms by (induction xs arbitrary: yss s) (auto simp: res_simps res_fold_append intro!: arg_cong [where f = "res_bind _"] ext)

text \<open>When the document can be iterated, the loop is the loop over the list of its expressions.\<close>

lemma res_fold_inner_error:
  assumes "res_map g xs = Inl e"
  shows "\<exists>e. res_fold (\<lambda>x s. res_bind (g x) (\<lambda>ys. res_fold f ys s)) xs s = Inl e"
  using assms
proof (induction xs arbitrary: s)
  case (Cons x xs)
  then show ?case
    by (cases "g x"; cases "res_fold f (projr (g x)) s") (auto simp: res_simps)
qed simp

lemma layer_fold:
  "(\<lambda>layer s. res_bind (items_or_empty layer ''expressions'') (\<lambda>items. res_fold f (mappings items) s)) =
   (\<lambda>layer s. res_bind (layer_expressions layer) (\<lambda>es. res_fold f es s))"
  by (auto simp: layer_expressions_def res_bind_def fun_eq_iff split: sum.splits)

lemma ir_expressions_iff:
  "ir_expressions document = Inr es \<longleftrightarrow>
     (\<exists>layers ess. items_or_empty document ''layers'' = Inr layers \<and>
        res_map layer_expressions (mappings layers) = Inr ess \<and> es = concat ess)"
proof (cases "items_or_empty document ''layers''")
  case (Inr layers)
  show ?thesis
  proof (cases "res_map layer_expressions (mappings layers)")
    case (Inl e)
    then show ?thesis
      using res_fold_inner_error [OF Inl, of "\<lambda>e found. Inr (found @ [e])" "[]"]
      by (auto simp: ir_expressions_def for_expressions_def Inr layer_fold)
  next
    case ess: (Inr ess)
    show ?thesis
      unfolding ir_expressions_def for_expressions_def layer_fold Inr res_bind_Inr res_fold_nested [OF ess]
      by (auto simp: ess res_fold_collect)
  qed
qed (simp add: ir_expressions_def for_expressions_def)

lemma for_expressions_eq:
  assumes "ir_expressions document = Inr es"
  shows "for_expressions body document s = res_fold body es s"
  using assms unfolding ir_expressions_iff
  by (auto simp: for_expressions_def layer_fold res_fold_nested)

lemma kept_layers_expressions:
  assumes "ir_expressions document = Inr es"
  shows "\<exists>layers. kept_layers keep document = Inr layers \<and>
           ir_expressions (dict_put ''layers'' (VList layers) document) = Inr (filter keep es)"
proof -
  from assms obtain layers ess where l: "items_or_empty document ''layers'' = Inr layers"
    and ess: "res_map layer_expressions (mappings layers) = Inr ess" "es = concat ess"
    unfolding ir_expressions_iff by blast
  let ?pair = "\<lambda>layer. res_bind (items_or_empty layer ''expressions'') (\<lambda>items. Inr (layer, kept_items keep items))"
  let ?build = "\<lambda>(layer, items). VDict (dict_put ''expressions'' (VList items) layer)"
  have "\<exists>pairs. res_map ?pair ms = Inr pairs \<and>
      res_map layer_expressions (map (\<lambda>p. dict_of (?build p)) (filter (\<lambda>(layer, items). items \<noteq> []) pairs)) =
        Inr (filter (\<lambda>es. es \<noteq> []) (map (filter keep) ess))"
    if "res_map layer_expressions ms = Inr ess" for ms ess
    using that
  proof (induction ms arbitrary: ess)
    case (Cons m ms)
    from Cons.prems obtain first rest where first: "layer_expressions m = Inr first"
      and rest: "ess = first # rest" "res_map layer_expressions ms = Inr rest"
      by (auto simp: res_simps)
    from first obtain items where m: "items_or_empty m ''expressions'' = Inr items"
      and items: "first = mappings items"
      by (auto simp: res_simps layer_expressions_def)
    have ess: "ess = mappings items # rest" "res_map layer_expressions ms = Inr rest"
      using rest items by simp_all
    have kept: "mappings (kept_items keep items) = filter keep (mappings items)"
      by (simp add: mappings_def kept_items_def filter_map comp_def conj_commute)
    have nil: "kept_items keep items = [] \<longleftrightarrow> filter keep (mappings items) = []"
      by (induction items) (auto simp: mappings_def kept_items_def)
    have layer: "layer_expressions (dict_put ''expressions'' (VList (kept_items keep items)) m) =
        Inr (filter keep (mappings items))"
      by (cases "kept_items keep items")
        (auto simp: layer_expressions_def items_or_empty_def get_key_def dict_simps py_or_def kept [symmetric])
    from Cons.IH [OF ess(2)] show ?case
      by (auto simp: m ess(1) nil layer)
  qed simp
  from this [OF ess(1)] obtain pairs where pairs: "res_map ?pair (mappings layers) = Inr pairs"
    and kept: "res_map layer_expressions (map (\<lambda>p. dict_of (?build p)) (filter (\<lambda>(layer, items). items \<noteq> []) pairs)) =
        Inr (filter (\<lambda>es. es \<noteq> []) (map (filter keep) ess))" by blast
  let ?new = "map ?build (filter (\<lambda>(layer, items). items \<noteq> []) pairs)"
  have "kept_layers keep document = Inr ?new"
    by (simp add: kept_layers_def l pairs)
  moreover have "items_or_empty (dict_put ''layers'' (VList ?new) document) ''layers'' = Inr ?new"
    by (cases ?new) (auto simp: items_or_empty_def get_key_def dict_simps py_or_def)
  moreover have "mappings ?new = map (\<lambda>p. dict_of (?build p)) (filter (\<lambda>(layer, items). items \<noteq> []) pairs)"
    by (induction pairs) (auto simp: mappings_def)
  moreover have "concat (filter (\<lambda>es. es \<noteq> []) (map (filter keep) ess)) = filter keep (concat ess)"
    by (induction ess) auto
  ultimately show ?thesis
    using kept unfolding ir_expressions_iff by (auto simp: ess(2))
qed

lemma filter_expression_ir_expressions:
  assumes "ir_expressions document = Inr es"
  shows "\<exists>document'. filter_expression_ir document skipped = Inr document' \<and>
           ir_expressions document' = Inr (filter (\<lambda>e. text_at e ''name'' \<notin> set skipped) es)"
proof (cases "skipped = []")
  case True
  then show ?thesis using assms by (simp add: filter_expression_ir_def)
next
  case False
  with kept_layers_expressions [OF assms, of "\<lambda>e. text_at e ''name'' \<notin> set skipped"]
  show ?thesis by (auto simp: filter_expression_ir_def)
qed

section \<open>The subset is the dependency closure\<close>

definition dependencies_of :: "(string \<times> pydict) list \<Rightarrow> string \<Rightarrow> string list" where
  "dependencies_of by_name name =
     (case map_of by_name name of
        None \<Rightarrow> []
      | Some e \<Rightarrow> (case expression_dependencies by_name e of Inl _ \<Rightarrow> [] | Inr names \<Rightarrow> names))"

definition dependency_edges :: "(string \<times> pydict) list \<Rightarrow> (string \<times> string) set" where
  "dependency_edges by_name = {(m, n). n \<in> set (dependencies_of by_name m)}"

definition dependency_closure :: "(string \<times> pydict) list \<Rightarrow> string list \<Rightarrow> string set" where
  "dependency_closure by_name outputs = (dependency_edges by_name)\<^sup>* `` set outputs"

lemma closure_member: "o1 \<in> set outputs \<Longrightarrow> o1 \<in> dependency_closure by_name outputs"
  by (auto simp: dependency_closure_def)

lemma closure_mono:
  "set outputs \<subseteq> dependency_closure by_name outs \<Longrightarrow>
   dependency_closure by_name outputs \<subseteq> dependency_closure by_name outs"
  unfolding dependency_closure_def by (auto intro: rtrancl_trans)

lemma closure_dependency:
  "m \<in> dependency_closure by_name outputs \<Longrightarrow> n \<in> set (dependencies_of by_name m) \<Longrightarrow>
   n \<in> dependency_closure by_name outputs"
  unfolding dependency_closure_def dependency_edges_def by (auto intro: rtrancl_into_rtrancl)

lemma closure_least:
  assumes "set outputs \<subseteq> R" and "\<And>m. m \<in> R \<Longrightarrow> set (dependencies_of by_name m) \<subseteq> R"
  shows "dependency_closure by_name outputs \<subseteq> R"
proof -
  have "x \<in> R \<Longrightarrow> (x, y) \<in> (dependency_edges by_name)\<^sup>* \<Longrightarrow> y \<in> R" for x y
    by (rotate_tac, induction rule: rtrancl_induct) (use assms(2) in \<open>auto simp: dependency_edges_def\<close>)
  with assms(1) show ?thesis by (auto simp: dependency_closure_def)
qed

text \<open>What a visit adds: needed names of the document, each with its dependencies.\<close>

definition extends_by :: "(string \<times> pydict) list \<Rightarrow> string list \<Rightarrow> string list \<Rightarrow> string list \<Rightarrow> bool" where
  "extends_by by_name outputs before now \<longleftrightarrow>
     set before \<subseteq> set now \<and> set outputs \<subseteq> set now \<and> set now \<subseteq> set before \<union> dependency_closure by_name outputs \<and>
     (\<forall>x \<in> set now - set before. map_of by_name x \<noteq> None \<and> set (dependencies_of by_name x) \<subseteq> set now)"

lemma extends_by_trans:
  assumes a: "extends_by bn [x] r s" and b: "extends_by bn xs s t"
  shows "extends_by bn (x # xs) r t"
proof -
  have "dependency_closure bn [x] \<subseteq> dependency_closure bn (x # xs)"
    "dependency_closure bn xs \<subseteq> dependency_closure bn (x # xs)"
    by (auto simp: dependency_closure_def)
  then have "set t \<subseteq> set r \<union> dependency_closure bn (x # xs)"
    using a b unfolding extends_by_def by blast
  moreover have "map_of bn y \<noteq> None \<and> set (dependencies_of bn y) \<subseteq> set t" if "y \<in> set t - set r" for y
  proof (cases "y \<in> set s")
    case True
    with that a b show ?thesis unfolding extends_by_def by blast
  next
    case False
    with that b show ?thesis unfolding extends_by_def by blast
  qed
  moreover have "set r \<subseteq> set t" "set (x # xs) \<subseteq> set t"
    using a b unfolding extends_by_def by auto
  ultimately show ?thesis unfolding extends_by_def by blast
qed

lemma fold_extends:
  assumes "res_fold f xs r = Inr t" and "\<And>x r s. f x r = Inr s \<Longrightarrow> extends_by bn [x] r s"
  shows "extends_by bn xs r t"
  using assms(1)
proof (induction xs arbitrary: r)
  case Nil
  then show ?case by (simp add: extends_by_def dependency_closure_def)
next
  case (Cons x xs)
  then obtain s where "f x r = Inr s" "res_fold f xs s = Inr t" by (auto simp: res_simps)
  with Cons.IH assms(2) show ?case by (blast intro: extends_by_trans)
qed

lemma visit_extends: "visit bn fuel name r = Inr t \<Longrightarrow> extends_by bn [name] r t"
proof (induction fuel arbitrary: name r t)
  case (Suc fuel)
  show ?case
  proof (cases "name \<in> set r")
    case True
    with Suc.prems show ?thesis by (auto simp: extends_by_def dependency_closure_def)
  next
    case False
    with Suc.prems obtain e names where e: "map_of bn name = Some e"
      and names: "expression_dependencies bn e = Inr names" "res_fold (visit bn fuel) names (name # r) = Inr t"
      by (auto simp: res_simps split: option.splits)
    from fold_extends [OF names(2) Suc.IH] have ext: "extends_by bn names (name # r) t" .
    have deps: "dependencies_of bn name = names" using e names by (simp add: dependencies_of_def)
    have "set names \<subseteq> dependency_closure bn [name]"
      using closure_dependency [OF closure_member, of name "[name]" _ bn] deps by auto
    then have "dependency_closure bn names \<subseteq> dependency_closure bn [name]"
      by (rule closure_mono)
    with ext e deps show ?thesis
      using closure_member [of name "[name]" bn] unfolding extends_by_def by auto
  qed
qed simp

lemma required_names_closure:
  assumes "required_names bn outputs = Inr required"
  shows "set required = dependency_closure bn outputs" and "\<forall>x \<in> set required. map_of bn x \<noteq> None"
proof -
  have "extends_by bn outputs [] required"
    using assms visit_extends unfolding required_names_def by (rule fold_extends)
  then show "set required = dependency_closure bn outputs" "\<forall>x \<in> set required. map_of bn x \<noteq> None"
    using closure_least [of outputs "set required" bn] unfolding extends_by_def by auto
qed

text \<open>The bound on the depth is never the reason to stop.\<close>

definition unvisited :: "(string \<times> pydict) list \<Rightarrow> string list \<Rightarrow> nat" where
  "unvisited bn required = card (fst ` set bn - set required)"

lemma unvisited_mono: "set r \<subseteq> set s \<Longrightarrow> unvisited bn s \<le> unvisited bn r"
  unfolding unvisited_def by (rule card_mono) auto

lemma unvisited_less: "map_of bn name = Some e \<Longrightarrow> name \<notin> set r \<Longrightarrow> unvisited bn (name # r) < unvisited bn r"
proof -
  assume "map_of bn name = Some e" "name \<notin> set r"
  moreover from this have "name \<in> fst ` set bn" by (force dest: map_of_SomeD)
  ultimately have "fst ` set bn - set (name # r) \<subset> fst ` set bn - set r" by auto
  then show ?thesis unfolding unvisited_def by (intro psubset_card_mono) auto
qed

lemma visit_total:
  assumes "unvisited bn r < fuel" and "map_of bn name \<noteq> None"
    and "\<forall>n e. map_of bn n = Some e \<longrightarrow> (\<exists>names. expression_dependencies bn e = Inr names)"
  shows "\<exists>t. visit bn fuel name r = Inr t"
  using assms(1,2)
proof (induction fuel arbitrary: name r)
  case (Suc fuel)
  show ?case
  proof (cases "name \<in> set r")
    case False
    from Suc.prems(2) obtain e where e: "map_of bn name = Some e" by auto
    with assms(3) obtain names where names: "expression_dependencies bn e = Inr names" by blast
    have known: "\<forall>n \<in> set names. map_of bn n \<noteq> None"
      using names by (auto simp: expression_dependencies_def res_simps split: pyval.splits)
    have "unvisited bn s < fuel \<Longrightarrow> \<exists>t. res_fold (visit bn fuel) ns s = Inr t"
      if "\<forall>n \<in> set ns. map_of bn n \<noteq> None" for ns s
      using that
    proof (induction ns arbitrary: s)
      case (Cons n ns)
      from Cons.prems have "map_of bn n \<noteq> None" by simp
      with Suc.IH [of s n] Cons.prems obtain t where t: "visit bn fuel n s = Inr t" by blast
      then have "set s \<subseteq> set t" using visit_extends by (auto simp: extends_by_def)
      then have "unvisited bn t < fuel" using unvisited_mono [of s t bn] Cons.prems by linarith
      with Cons t show ?case by auto
    qed simp
    from this [OF known, of "name # r"] unvisited_less [OF e False] Suc.prems(1) False e names
    show ?thesis by auto
  qed simp
qed simp

lemma required_names_total:
  assumes "\<forall>n e. map_of bn n = Some e \<longrightarrow> (\<exists>names. expression_dependencies bn e = Inr names)"
    and "\<forall>n \<in> set outputs. map_of bn n \<noteq> None"
  shows "\<exists>required. required_names bn outputs = Inr required"
proof -
  have small: "unvisited bn r < Suc (length bn)" for r
  proof -
    have "unvisited bn r \<le> card (fst ` set bn)" unfolding unvisited_def by (rule card_mono) auto
    also have "\<dots> \<le> length bn" by (metis card_length length_map set_map)
    finally show ?thesis by simp
  qed
  have "\<exists>t. res_fold (visit bn (Suc (length bn))) ns s = Inr t" if "\<forall>n \<in> set ns. map_of bn n \<noteq> None" for ns s
    using that
  proof (induction ns arbitrary: s)
    case (Cons n ns)
    then show ?case using visit_total [OF small _ assms(1), of n s] by (auto simp del: visit.simps)
  qed simp
  with assms(2) show ?thesis unfolding required_names_def by blast
qed

lemma subset_expression_ir_expressions:
  assumes "subset_expression_ir document outputs = Inr document'"
  shows "\<exists>es. ir_expressions document = Inr es \<and>
    ir_expressions document' =
      Inr (filter (\<lambda>e. text_at e ''name'' \<in> dependency_closure (named_expressions es) outputs) es)"
proof -
  from assms obtain es required layers where es: "ir_expressions document = Inr es"
    and r: "required_names (named_expressions es) outputs = Inr required"
    and l: "kept_layers (\<lambda>e. text_at e ''name'' \<in> set required) document = Inr layers"
      "document' = dict_put ''layers'' (VList layers) document"
    by (auto simp: subset_expression_ir_def res_simps)
  from kept_layers_expressions [OF es, of "\<lambda>e. text_at e ''name'' \<in> set required"] es l
  show ?thesis by (auto simp: required_names_closure(1) [OF r])
qed

section \<open>Running a subset\<close>

text \<open>
  An engine evaluates a document's expressions in order, each on the columns there are by then.
  The engine is native code; all that the plan relies on is that the value of a node depends on
  the columns the node refers to.
\<close>

definition expression_node :: "pydict \<Rightarrow> pydict" where
  "expression_node expression = dict_of (get_key expression ''expr'')"

definition run_expressions ::
  "(pydict \<Rightarrow> (string \<Rightarrow> 'v) \<Rightarrow> 'v) \<Rightarrow> pydict list \<Rightarrow> (string \<Rightarrow> 'v) \<Rightarrow> string \<Rightarrow> 'v" where
  "run_expressions engine expressions columns =
     fold (\<lambda>e columns. columns(text_at e ''name'' := engine (expression_node e) columns)) expressions columns"

locale reference_engine =
  fixes engine :: "pydict \<Rightarrow> (string \<Rightarrow> 'v) \<Rightarrow> 'v"
  assumes depends_on_references:
    "(\<forall>r \<in> set (column_names node). columns r = columns' r) \<Longrightarrow> engine node columns = engine node columns'"
begin

lemma run_skips_unneeded:
  assumes "\<And>e r. e \<in> set es \<Longrightarrow> keep e \<Longrightarrow> r \<in> set (column_names (expression_node e)) \<Longrightarrow> r \<in> S"
    and "\<And>e. e \<in> set es \<Longrightarrow> \<not> keep e \<Longrightarrow> text_at e ''name'' \<notin> S"
    and "\<forall>n \<in> S. columns n = columns' n" and "n \<in> S"
  shows "run_expressions engine (filter keep es) columns n = run_expressions engine es columns' n"
  using assms
proof (induction es arbitrary: columns columns')
  case Nil
  then show ?case by (simp add: run_expressions_def)
next
  case (Cons e es)
  show ?case
  proof (cases "keep e")
    case True
    with Cons.prems(1,3) have same: "engine (expression_node e) columns = engine (expression_node e) columns'"
      by (intro depends_on_references) auto
    have "run_expressions engine (filter keep es) (columns(text_at e ''name'' := engine (expression_node e) columns)) n =
      run_expressions engine es (columns'(text_at e ''name'' := engine (expression_node e) columns')) n"
      by (rule Cons.IH) (use Cons.prems same in auto)
    with True show ?thesis by (simp add: run_expressions_def)
  next
    case False
    have "run_expressions engine (filter keep es) columns n =
      run_expressions engine es (columns'(text_at e ''name'' := engine (expression_node e) columns')) n"
      by (rule Cons.IH) (use Cons.prems False in auto)
    with False show ?thesis by (simp add: run_expressions_def)
  qed
qed

end

definition distinct_names :: "pydict list \<Rightarrow> bool" where
  "distinct_names expressions = distinct (map (\<lambda>e. text_at e ''name'') expressions)"

lemma dict_of_distinct_pairs: "distinct (map fst ps) \<Longrightarrow> dict_of_pairs ps = ps"
proof -
  have "distinct (map fst (d @ ps)) \<Longrightarrow> fold (\<lambda>(k, v) d. dict_put k v d) ps d = d @ ps" for d
  proof (induction ps arbitrary: d)
    case (Cons p ps)
    obtain k v where p: "p = (k, v)" by force
    with Cons.prems have "dict_put k v d = d @ [(k, v)]" by (auto intro: dict_put_new)
    with Cons p show ?case by auto
  qed simp
  from this [of "[]"] show "distinct (map fst ps) \<Longrightarrow> dict_of_pairs ps = ps" by (simp add: dict_of_pairs_def)
qed

lemma named_expressions_lookup:
  assumes "distinct_names es"
  shows "map_of (named_expressions es) n = Some e \<longleftrightarrow> e \<in> set es \<and> text_at e ''name'' = n"
proof -
  let ?ps = "map (\<lambda>e. (text_at e ''name'', e)) es"
  have d: "distinct (map fst ?ps)" using assms by (simp add: distinct_names_def comp_def)
  then show ?thesis
    by (auto simp: named_expressions_def dict_of_distinct_pairs map_of_eq_Some_iff)
qed

lemma named_expressions_None:
  "map_of (named_expressions es) n = None \<longleftrightarrow> n \<notin> (\<lambda>e. text_at e ''name'') ` set es"
proof -
  have "map_of (named_expressions es) n = None \<longleftrightarrow> n \<notin> fst ` set (named_expressions es)"
    by (simp add: map_of_eq_None_iff)
  then show ?thesis unfolding named_expressions_def fst_set_dict_of_pairs by (auto simp: image_iff)
qed

text \<open>A node that a visit walked: all its references to expressions are dependencies.\<close>

lemma dependencies_of_references:
  assumes "distinct_names es" and "e \<in> set es" and "is_dict (get_key e ''expr'')"
    and "walkable (expression_node e)"
    and "r \<in> set (column_names (expression_node e))" and "map_of (named_expressions es) r \<noteq> None"
  shows "r \<in> set (dependencies_of (named_expressions es) (text_at e ''name''))"
proof -
  from assms(1,2) have "map_of (named_expressions es) (text_at e ''name'') = Some e"
    by (simp add: named_expressions_lookup)
  with assms(3-6) show ?thesis
    by (cases "get_key e ''expr''")
      (auto simp: dependencies_of_def expression_dependencies_def expression_column_references_def expression_node_def)
qed

text \<open>Every expression of the document has a node that can be walked.\<close>

definition evaluable :: "pydict list \<Rightarrow> bool" where
  "evaluable expressions = list_all (\<lambda>e. is_dict (get_key e ''expr'') \<and> walkable (expression_node e)) expressions"

lemma evaluable_dependencies:
  assumes "evaluable es" and "e \<in> set es"
  shows "\<exists>names. expression_dependencies by_name e = Inr names"
  using assms by (cases "get_key e ''expr''")
    (auto simp: evaluable_def list_all_iff expression_dependencies_def expression_column_references_def expression_node_def)

lemma subset_of_evaluable:
  assumes "ir_expressions document = Inr es" and "distinct_names es" and "evaluable es"
    and "set outputs \<subseteq> (\<lambda>e. text_at e ''name'') ` set es"
  shows "\<exists>document'. subset_expression_ir document outputs = Inr document'"
proof -
  have "\<exists>required. required_names (named_expressions es) outputs = Inr required"
  proof (rule required_names_total)
    show "\<forall>n e. map_of (named_expressions es) n = Some e \<longrightarrow>
        (\<exists>names. expression_dependencies (named_expressions es) e = Inr names)"
      using evaluable_dependencies [OF assms(3)] by (simp add: named_expressions_lookup [OF assms(2)])
    show "\<forall>n \<in> set outputs. map_of (named_expressions es) n \<noteq> None"
      using assms(4) by (auto simp: named_expressions_None)
  qed
  then obtain required where "required_names (named_expressions es) outputs = Inr required" ..
  moreover from kept_layers_expressions [OF assms(1), of "\<lambda>e. text_at e ''name'' \<in> set required"]
  obtain layers where "kept_layers (\<lambda>e. text_at e ''name'' \<in> set required) document = Inr layers" by blast
  ultimately show ?thesis by (simp add: subset_expression_ir_def assms(1))
qed

context reference_engine
begin

lemma closure_run:
  assumes "distinct_names es" and "evaluable es" and "n \<in> dependency_closure (named_expressions es) outputs"
  shows "run_expressions engine (filter (\<lambda>e. text_at e ''name'' \<in> dependency_closure (named_expressions es) outputs) es)
           columns n = run_expressions engine es columns n"
proof (rule run_skips_unneeded)
  let ?C = "dependency_closure (named_expressions es) outputs"
  let ?S = "?C \<union> - (\<lambda>e. text_at e ''name'') ` set es"
  show "n \<in> ?S" using assms(3) by simp
  show "\<forall>n \<in> ?S. columns n = columns n" by simp
  show "text_at e ''name'' \<notin> ?S" if "e \<in> set es" "text_at e ''name'' \<notin> ?C" for e
    using that by auto
  show "r \<in> ?S" if e: "e \<in> set es" "text_at e ''name'' \<in> ?C" and r: "r \<in> set (column_names (expression_node e))" for e r
  proof (cases "map_of (named_expressions es) r = None")
    case True
    then show ?thesis by (simp add: named_expressions_None)
  next
    case False
    from e(1) assms(2) have "is_dict (get_key e ''expr'')" "walkable (expression_node e)"
      by (simp_all add: evaluable_def list_all_iff)
    from dependencies_of_references [OF assms(1) e(1) this r False] closure_dependency [OF e(2)]
    show ?thesis by blast
  qed
qed

end


text \<open>Two layers; \<open>b\<close> and \<open>c\<close> read \<open>a\<close>, and \<open>c\<close> a column of the source as well.\<close>

definition column_node :: "string \<Rightarrow> pyval" where
  "column_node n = VDict [(''kind'', VStr ''column''), (''name'', VStr n)]"

definition sum_node :: "pyval \<Rightarrow> pyval \<Rightarrow> pyval" where
  "sum_node l r = VDict [(''kind'', VStr ''binary''), (''operator'', VStr ''+''), (''left'', l), (''right'', r)]"

definition sample_expression :: "string \<Rightarrow> pyval \<Rightarrow> pyval" where
  "sample_expression n node = VDict [(''name'', VStr n), (''expr'', node)]"

definition sample_expressions :: "pyval list" where
  "sample_expressions = [sample_expression ''a'' (column_node ''x''),
     sample_expression ''b'' (sum_node (column_node ''a'') (column_node ''a'')),
     sample_expression ''c'' (sum_node (column_node ''y'') (column_node ''a''))]"

definition sample_ir :: pydict where
  "sample_ir = [(''layers'', VList [VDict [(''expressions'', VList (take 1 sample_expressions))],
     VDict [(''expressions'', VList (drop 1 sample_expressions))]])]"

definition counting_engine :: "pydict \<Rightarrow> (string \<Rightarrow> nat) \<Rightarrow> nat" where
  "counting_engine node columns = Suc (sum_list (map columns (column_names node)))"

lemma sample_ir_facts:
  "ir_expressions sample_ir = Inr (map dict_of sample_expressions)"
  "distinct_names (map dict_of sample_expressions)"
  "evaluable (map dict_of sample_expressions)"
  "set [''c''] \<subseteq> (\<lambda>e. text_at e ''name'') ` set (map dict_of sample_expressions)"
  by code_simp+


section \<open>Shapes of expressions\<close>

lemma mapping_with_iff: "mapping_with p v \<longleftrightarrow> (\<exists>d. v = VDict d \<and> p d)"
  by (cases v) (auto simp: mapping_with_def)

definition native_kind :: "string \<Rightarrow> bool" where
  "native_kind kind \<longleftrightarrow> kind \<in> {''column'', ''literal'', ''alias'', ''binary'', ''case''}"

lemma native_step:
  assumes "is_native_map_node node"
  shows "native_kind (text_at node ''kind'')" and "list_all (mapping_with is_native_map_node) (node_children node)"
proof -
  from assms show "native_kind (text_at node ''kind'')"
    by (subst (asm) is_native_map_node.simps) (auto simp: Let_def native_kind_def split: if_splits)
  show "list_all (mapping_with is_native_map_node) (node_children node)"
  proof (cases "text_at node ''kind'' = ''case''")
    case True
    with assms obtain branches where "get_key node ''branches'' = VList branches"
      "list_all (mapping_with (\<lambda>branch. mapping_with is_native_map_node (get_key branch ''when'') \<and>
         mapping_with is_native_map_node (get_key branch ''then''))) branches"
      "mapping_with is_native_map_node (get_key node ''otherwise'')"
      by (subst (asm) is_native_map_node.simps) (auto simp: Let_def split: pyval.splits)
    with True show ?thesis
      by (auto simp: node_children_def list_all_iff mapping_with_iff [of "\<lambda>b. _ b \<and> _ b"])
  next
    case False
    with assms show ?thesis
      by (subst (asm) is_native_map_node.simps) (auto simp: Let_def node_children_def split: if_splits)
  qed
qed

lemma walk_nodes_all:
  assumes "P node" and "\<And>n c. P n \<Longrightarrow> VDict c \<in> set (node_children n) \<Longrightarrow> P c"
  shows "n \<in> set (walk_nodes node) \<Longrightarrow> P n"
  using assms(1)
proof (induction node rule: walk_nodes.induct)
  case (1 node)
  from \<open>n \<in> set (walk_nodes node)\<close> have "n = node \<or> (\<exists>c \<in> set (child_nodes node). n \<in> set (walk_nodes c))"
    by (subst (asm) walk_nodes.simps) auto
  then show ?case
  proof
    assume "\<exists>c \<in> set (child_nodes node). n \<in> set (walk_nodes c)"
    then obtain c where c: "c \<in> set (child_nodes node)" "n \<in> set (walk_nodes c)" by blast
    from c(1) have "VDict c \<in> set (node_children node)" by (auto simp: child_nodes_def elim: is_dict.elims)
    with 1 c assms(2) show ?thesis by blast
  qed (use 1 in simp)
qed

lemma native_walk: "is_native_map_node node \<Longrightarrow> n \<in> set (walk_nodes node) \<Longrightarrow> is_native_map_node n"
proof (erule walk_nodes_all [where P = is_native_map_node, rotated -1])
  show "is_native_map_node c" if "is_native_map_node n" "VDict c \<in> set (node_children n)" for n c
    using native_step(2) [OF that(1)] that(2) by (auto simp: list_all_iff mapping_with_iff)
qed

lemma native_no_window: "is_native_map_node node \<Longrightarrow> \<not> contains_kind node ''window''"
  using native_step(1) [OF native_walk] by (fastforce simp: contains_kind_def list_ex_iff native_kind_def)

lemma native_is_shape_preserving: "is_native_map_node node \<Longrightarrow> is_shape_preserving_node node"
proof (induction node rule: is_shape_preserving_node.induct)
  case (1 node)
  from native_step [OF 1(3)] have "list_all (mapping_with is_native_map_node) (node_children node)"
    and kind: "native_kind (text_at node ''kind'')" by auto
  with 1 native_no_window show ?case
    by (subst is_shape_preserving_node.simps)
       (auto simp: Let_def list_all_iff mapping_with_iff native_kind_def)
qed

section \<open>The execution plan is well typed\<close>

text \<open>
  A plan of an expression in an environment that says of each bound name whether it is a list: its
  dependencies are the columns the expression reads, all bound; it yields a list exactly when one
  of them is a list and nothing in the expression reduces lists; and a list is computed natively or
  by expansion only where that keeps the shape.
\<close>

definition typed_plan :: "bool \<Rightarrow> (string \<times> string) list \<Rightarrow> pydict \<Rightarrow> expression_plan \<Rightarrow> bool" where
  "typed_plan expansion cardinality expression plan \<longleftrightarrow>
     (let node = expression_node expression;
          lists = filter (\<lambda>d. map_of cardinality d = Some ''list'') (column_names node);
          reduces = (explicit_list_reduction node \<noteq> None)
      in ep_name plan = py_strip (text_at expression ''name'') \<and>
         ep_dependencies plan = column_names node \<and> ep_list_dependencies plan = lists \<and>
         (\<forall>d \<in> set (column_names node). map_of cardinality d \<noteq> None) \<and>
         ep_output_cardinality plan = (if lists \<noteq> [] \<and> \<not> reduces then ''list'' else ''scalar'') \<and>
         (case ep_strategy plan of
            SCALAR \<Rightarrow> lists = [] \<and> \<not> reduces
          | LIST_NATIVE_REDUCE \<Rightarrow> lists \<noteq> [] \<and> reduces
          | LIST_NATIVE_MAP \<Rightarrow> lists \<noteq> [] \<and> is_native_map_node node
          | EXPAND_CALCULATE_COMPACT \<Rightarrow> lists \<noteq> [] \<and> expansion \<and> is_shape_preserving_node node \<and> \<not> contains_kind node ''window''
          | UNSUPPORTED \<Rightarrow> False))"

fun typed_plans :: "bool \<Rightarrow> (string \<times> string) list \<Rightarrow> pydict list \<Rightarrow> expression_plan list \<Rightarrow> bool" where
  "typed_plans expansion cardinality [] plans = (plans = [])"
| "typed_plans expansion cardinality (e # es) plans =
     (case plans of
        [] \<Rightarrow> False
      | plan # rest \<Rightarrow> typed_plan expansion cardinality e plan \<and>
          typed_plans expansion (dict_put (ep_name plan) (ep_output_cardinality plan) cardinality) es rest)"

lemma plan_expression_typed:
  assumes "plan_expression expansion item (plans, cardinality) = Inr state"
  shows "\<exists>e plan. item = VDict e \<and> typed_plan expansion cardinality e plan \<and>
    state = (plans @ [plan], dict_put (ep_name plan) (ep_output_cardinality plan) cardinality)"
proof (cases item)
  case (VDict e)
  with assms show ?thesis
    by (auto simp: plan_expression_def res_simps Let_def expression_column_references_def strategy_of_def
        typed_plan_def expression_node_def split: if_splits)
qed (use assms in \<open>auto simp: plan_expression_def res_simps\<close>)

lemma plan_expressions_typed:
  assumes "res_fold (plan_expression expansion) items (plans, cardinality) = Inr (plans', cardinality')"
  shows "\<exists>es more. items = map VDict es \<and> plans' = plans @ more \<and> typed_plans expansion cardinality es more"
  using assms
proof (induction items arbitrary: plans cardinality)
  case (Cons item items)
  then obtain s where s: "plan_expression expansion item (plans, cardinality) = Inr s"
    and rest: "res_fold (plan_expression expansion) items s = Inr (plans', cardinality')" by (auto simp: res_simps)
  from plan_expression_typed [OF s] obtain e plan where e: "item = VDict e" "typed_plan expansion cardinality e plan"
    and s': "s = (plans @ [plan], dict_put (ep_name plan) (ep_output_cardinality plan) cardinality)" by blast
  from Cons.IH [OF rest [unfolded s']] obtain es more where "items = map VDict es" "plans' = plans @ plan # more"
    "typed_plans expansion (dict_put (ep_name plan) (ep_output_cardinality plan) cardinality) es more" by auto
  with e show ?case by (intro exI [where x = "e # es"] exI [where x = "plan # more"]) simp
qed simp

lemma mappings_of_dicts: "mappings (map VDict es) = es"
  by (induction es) (auto simp: mappings_def)

lemma plan_layer_items:
  assumes "plan_layer expansion layer state = Inr state'"
  shows "\<exists>items. is_dict layer \<and> items_or_empty (dict_of layer) ''expressions'' = Inr items \<and>
    res_fold (plan_expression expansion) items state = Inr state'"
proof (cases "get_key (dict_of layer) ''expressions''")
  case (VList items)
  with assms have "res_fold (plan_expression expansion) items state = Inr state'" by (simp add: plan_layer_def)
  moreover have "is_dict layer" using VList by (cases layer) (auto simp: get_key_def)
  moreover have "items_or_empty (dict_of layer) ''expressions'' = Inr items"
    using VList by (cases items) (auto simp: items_or_empty_def py_or_def)
  ultimately show ?thesis by blast
qed (use assms in \<open>simp_all add: plan_layer_def\<close>)

lemma plan_layers_items:
  assumes "res_fold (plan_layer expansion) layers state = Inr state'"
  shows "\<exists>itemss. list_all is_dict layers \<and>
     res_map (\<lambda>layer. items_or_empty layer ''expressions'') (mappings layers) = Inr itemss \<and>
     res_fold (plan_expression expansion) (concat itemss) state = Inr state'"
  using assms
proof (induction layers arbitrary: state)
  case (Cons layer layers)
  then obtain s where s: "plan_layer expansion layer state = Inr s"
    and rest: "res_fold (plan_layer expansion) layers s = Inr state'" by (auto simp: res_simps)
  from plan_layer_items [OF s] Cons.IH [OF rest] show ?case by (auto simp: mappings_def res_fold_append)
qed (simp add: mappings_def)

lemma plan_expression_execution_typed:
  assumes "plan_expression_execution document dtypes expansion = Inr plans"
  shows "\<exists>es. ir_expressions document = Inr es \<and> typed_plans expansion (source_cardinality dtypes) es plans"
proof -
  from assms obtain layers cardinality where l: "items_or_empty document ''layers'' = Inr layers"
    and run: "res_fold (plan_layer expansion) layers ([], source_cardinality dtypes) = Inr (plans, cardinality)"
    by (auto simp: plan_expression_execution_def items_or_empty_def res_simps)
  from plan_layers_items [OF run] obtain itemss where
    itemss: "res_map (\<lambda>layer. items_or_empty layer ''expressions'') (mappings layers) = Inr itemss"
    and items: "res_fold (plan_expression expansion) (concat itemss) ([], source_cardinality dtypes) = Inr (plans, cardinality)"
    by blast
  from plan_expressions_typed [OF items] obtain es where es: "concat itemss = map VDict es"
    and typed: "typed_plans expansion (source_cardinality dtypes) es plans" by auto
  have "res_map layer_expressions ms = Inr (map mappings ess)"
    if "res_map (\<lambda>layer. items_or_empty layer ''expressions'') ms = Inr ess" for ms ess
    using that by (induction ms arbitrary: ess) (auto simp: res_simps layer_expressions_def)
  from this [OF itemss] have "ir_expressions document = Inr (concat (map mappings itemss))"
    using l unfolding ir_expressions_iff by blast
  moreover have "concat (map mappings itemss) = mappings (concat itemss)"
    by (induction itemss) (auto simp: mappings_def)
  ultimately show ?thesis using typed by (auto simp: es mappings_of_dicts)
qed


definition sample_dtypes :: "(string \<times> string) list" where
  "sample_dtypes = [(''x'', ''int64''), (''y'', ''list<double>'')]"


end
