(* ===== verification/CalculatedPlan.thy ===== *)
theory CalculatedPlan
  imports ExpressionIr ChangeReceipt
begin

text \<open>
  Planning of the calculated-fact asset (0102): \<open>binding.py\<close> binds every column reference of an expression
  document to a source column, an alias, a lookup column or an earlier expression, and skips what
  cannot be bound; \<open>fingerprint.py\<close> derives the physical inputs of every expression;
  \<open>planning.py\<close> composes the two with the execution plan; \<open>task.py\<close> builds the request of a task.
  The rows of external files, the columns of the source and SHA-256 are parameters.
\<close>

section \<open>External files\<close>

text \<open>The rows of a file are what \<open>project_rows\<close> yields of it.\<close>

record alias_file =
  af_rows :: "pydict list"
  af_source_field :: string
  af_alias_field :: string

record lookup_file =
  lf_alias :: string
  lf_checksum :: string
  lf_source_keys :: "string list"
  lf_lookup_keys :: "string list"
  lf_schema :: "(string \<times> string) list"
  lf_rows :: "pydict list"

definition invalid_alias_binding :: py_error where
  "invalid_alias_binding = ValidationError ''column_alias.invalid_binding''"

definition alias_row ::
  "alias_file \<Rightarrow> pydict \<Rightarrow> (string \<times> string) list \<times> (string \<times> string) list \<Rightarrow>
   ((string \<times> string) list \<times> (string \<times> string) list) result" where
  "alias_row f row = (\<lambda>(registry, pairs).
     let source = py_strip (text_at row (af_source_field f)); alias = py_strip (text_at row (af_alias_field f)) in
     raise_if (source = [] \<or> alias = []) invalid_alias_binding (
     raise_if ((source, alias) \<in> set pairs) invalid_alias_binding (
     raise_if (map_of registry alias \<noteq> None \<and> map_of registry alias \<noteq> Some source) invalid_alias_binding (
     Inr (dict_put alias source registry, pairs @ [(source, alias)])))))"

definition load_column_alias_registry :: "alias_file list \<Rightarrow> (string \<times> string) list result" where
  "load_column_alias_registry files =
     res_bind (res_fold (\<lambda>f. res_fold (alias_row f) (af_rows f)) files ([], [])) (\<lambda>(registry, _). Inr registry)"

text \<open>The rows of an expression file before they are compiled: name and text, both stripped.\<close>

definition expression_row ::
  "string \<Rightarrow> string \<Rightarrow> pydict \<Rightarrow> (string \<times> string) list \<Rightarrow> (string \<times> string) list result" where
  "expression_row name_field expression_field row pairs =
     (let name = py_strip (text_at row name_field); expression = py_strip (text_at row expression_field) in
      raise_if (name = [] \<or> expression = []) (ValidationError ''expression_file.missing_field'') (
      raise_if (name \<in> fst ` set pairs) (ValidationError ''expression_file.duplicate_output'') (
      Inr (pairs @ [(name, expression)]))))"

definition read_expression_rows :: "string \<Rightarrow> string \<Rightarrow> pydict list \<Rightarrow> (string \<times> string) list result" where
  "read_expression_rows name_field expression_field rows =
     res_bind (res_fold (expression_row name_field expression_field) rows []) (\<lambda>pairs.
       raise_if (pairs = []) (ValidationError ''expression_file.missing_field'') (Inr pairs))"

section \<open>The definition\<close>

record list_column =
  lc_source :: string
  lc_target :: string

record calc_spec =
  cs_identity :: "string list"
  cs_partition :: "string list"
  cs_include :: "string list"
  cs_lookups :: "lookup_file list"
  cs_alias_files :: "alias_file list"
  cs_expand :: "list_column list"
  cs_compact :: "list_column list"
  cs_wide :: bool

text \<open>\<open>d.get(key, default)\<close> on a dictionary of texts.\<close>

definition get_or :: "(string \<times> string) list \<Rightarrow> string \<Rightarrow> string \<Rightarrow> string" where
  "get_or d k v = (case map_of d k of None \<Rightarrow> v | Some u \<Rightarrow> u)"

section \<open>Binding references\<close>

datatype binding_kind = KSource | KAlias | KLookup | KExpression

definition kind_text :: "binding_kind \<Rightarrow> string" where
  "kind_text k = (case k of KSource \<Rightarrow> ''source'' | KAlias \<Rightarrow> ''virtual_alias'' | KLookup \<Rightarrow> ''lookup''
                  | KExpression \<Rightarrow> ''expression'')"

record dependency_binding =
  db_logical :: string
  db_kind :: binding_kind
  db_physical :: string
  db_lookup :: "string option"

datatype missing_reason = UpstreamExpressionSkipped | SourceColumnMissing | LookupColumnMissing
  | LookupKeyMissing "string list" "string list"

record missing_dependency =
  md_logical :: string
  md_physical :: string
  md_kind :: binding_kind
  md_reason :: missing_reason

datatype leaf = Missing missing_dependency | Bound dependency_binding

record expression_skip =
  es_name :: string
  es_upstream :: bool
  es_missing :: "missing_dependency list"

text \<open>What a run of the binder reads, and what it has decided so far.\<close>

record bind_context =
  bc_dtypes :: "(string \<times> string) list"
  bc_registry :: "(string \<times> string) list"
  bc_lookups :: "lookup_file list"
  bc_outputs :: "string list"

record bind_state =
  bs_bound :: "(string \<times> dependency_binding) list"
  bs_available :: "string list"
  bs_skipped :: "expression_skip list"

definition has_column :: "(string \<times> string) list \<Rightarrow> string \<Rightarrow> bool" where
  "has_column dtypes name = (map_of dtypes name \<noteq> None)"

definition lookup_schemas :: "lookup_file list \<Rightarrow> (string \<times> (string \<times> string) list) list" where
  "lookup_schemas lookups = dict_of_pairs (map (\<lambda>l. (lf_alias l, lf_schema l)) lookups)"

definition new_binding :: "string \<Rightarrow> binding_kind \<Rightarrow> string \<Rightarrow> string option \<Rightarrow> leaf" where
  "new_binding name kind physical alias =
     Bound \<lparr>db_logical = name, db_kind = kind, db_physical = physical, db_lookup = alias\<rparr>"

definition missing_leaf :: "string \<Rightarrow> string \<Rightarrow> binding_kind \<Rightarrow> missing_reason \<Rightarrow> leaf" where
  "missing_leaf name physical kind reason =
     Missing \<lparr>md_logical = name, md_physical = physical, md_kind = kind, md_reason = reason\<rparr>"

text \<open>A name no source column, alias or qualified lookup answers to.\<close>

definition bind_unqualified :: "bind_context \<Rightarrow> string \<Rightarrow> leaf result" where
  "bind_unqualified ctx name =
     (case filter (\<lambda>(alias, schema). has_column schema name) (lookup_schemas (bc_lookups ctx)) of
        [(alias, _)] \<Rightarrow> Inr (new_binding name KLookup name (Some alias))
      | _ # _ # _ \<Rightarrow> Inl (ValidationError ''expression.ambiguous_dependency'')
      | [] \<Rightarrow> if name \<in> set (bc_outputs ctx) then Inl (ValidationError ''expression.dependency_cycle'')
              else Inr (missing_leaf name name KSource SourceColumnMissing))"

definition bind_leaf_or_missing :: "bind_context \<Rightarrow> string \<Rightarrow> leaf result" where
  "bind_leaf_or_missing ctx name =
     (if has_column (bc_dtypes ctx) name then Inr (new_binding name KSource name None)
      else case map_of (bc_registry ctx) name of
        Some physical \<Rightarrow> Inr (new_binding name KAlias physical None)
      | None \<Rightarrow>
          (let (alias, dotted, column) = partition_on (CHR ''.'') name in
           case (if dotted then map_of (lookup_schemas (bc_lookups ctx)) alias else None) of
             Some schema \<Rightarrow>
               Inr (if has_column schema column then new_binding name KLookup column (Some alias)
                    else missing_leaf name column KLookup LookupColumnMissing)
           | None \<Rightarrow> bind_unqualified ctx name))"

definition source_key_missing :: "bind_context \<Rightarrow> string \<Rightarrow> bool" where
  "source_key_missing ctx key =
     (\<not> has_column (bc_dtypes ctx) (case map_of (bc_registry ctx) key of None \<Rightarrow> key | Some physical \<Rightarrow> physical))"

definition lookup_named :: "lookup_file list \<Rightarrow> string option \<Rightarrow> lookup_file option" where
  "lookup_named lookups alias = find (\<lambda>l. Some (lf_alias l) = alias) lookups"

text \<open>A binding that was found still has to have its physical column, or its lookup's keys.\<close>

definition checked_leaf :: "bind_context \<Rightarrow> dependency_binding \<Rightarrow> leaf" where
  "checked_leaf ctx b =
     (if db_kind b \<in> {KSource, KAlias} \<and> \<not> has_column (bc_dtypes ctx) (db_physical b)
        then missing_leaf (db_logical b) (db_physical b) (db_kind b) SourceColumnMissing
      else if db_kind b = KLookup
        then (case lookup_named (bc_lookups ctx) (db_lookup b) of
                None \<Rightarrow> Bound b
              | Some l \<Rightarrow>
                  (let keys = filter (\<lambda>k. \<not> has_column (lf_schema l) k) (lf_lookup_keys l);
                       source_keys = filter (source_key_missing ctx) (lf_source_keys l)
                   in if keys \<noteq> [] \<or> source_keys \<noteq> []
                      then missing_leaf (db_logical b) (db_physical b) KLookup (LookupKeyMissing keys source_keys)
                      else Bound b))
      else Bound b)"

definition skipped_names :: "expression_skip list \<Rightarrow> string list" where
  "skipped_names skips = map es_name skips"

definition resolve_reference :: "bind_context \<Rightarrow> bind_state \<Rightarrow> string \<Rightarrow> leaf result" where
  "resolve_reference ctx st name =
     (if name \<in> set (skipped_names (bs_skipped st))
        then Inr (missing_leaf name name KExpression UpstreamExpressionSkipped)
      else if name \<in> set (bs_available st) then Inr (new_binding name KExpression name None)
      else res_bind (bind_leaf_or_missing ctx name) (\<lambda>leaf.
             Inr (case leaf of Missing m \<Rightarrow> leaf | Bound b \<Rightarrow> checked_leaf ctx b)))"

text \<open>One reference of an expression: the missing dependencies and the bindings found so far.\<close>

definition bind_reference ::
  "bind_context \<Rightarrow> bind_state \<Rightarrow> string \<Rightarrow> missing_dependency list \<times> dependency_binding list \<Rightarrow>
   (missing_dependency list \<times> dependency_binding list) result" where
  "bind_reference ctx st name = (\<lambda>(missing, bound).
     res_bind (resolve_reference ctx st name) (\<lambda>leaf.
     case leaf of
       Missing m \<Rightarrow> Inr (missing @ [m], bound)
     | Bound b \<Rightarrow>
         raise_if (map_of (bs_bound st) name \<noteq> None \<and> map_of (bs_bound st) name \<noteq> Some b)
           (ValidationError ''expression.ambiguous_dependency'') (Inr (missing, bound @ [b]))))"

definition bind_expression :: "bind_context \<Rightarrow> pydict \<Rightarrow> bind_state \<Rightarrow> bind_state result" where
  "bind_expression ctx expression st =
     (let name = text_at expression ''name''; node = get_key expression ''expr'' in
      raise_if (\<not> is_dict node) invalid_ir (
      res_bind (expression_column_references (dict_of node)) (\<lambda>references.
      res_bind (res_fold (bind_reference ctx st) references ([], [])) (\<lambda>(missing, bound).
        Inr (if missing \<noteq> []
             then st\<lparr>bs_skipped := bs_skipped st @
                      [\<lparr>es_name = name, es_upstream = list_ex (\<lambda>m. md_kind m = KExpression) missing,
                        es_missing = missing\<rparr>]\<rparr>
             else st\<lparr>bs_bound := fold (\<lambda>b. dict_setdefault (db_logical b) b) bound (bs_bound st),
                     bs_available := bs_available st @ [name]\<rparr>)))))"

definition bind_expressions :: "bind_context \<Rightarrow> pydict \<Rightarrow> bind_state result" where
  "bind_expressions ctx document =
     for_expressions (bind_expression ctx) document \<lparr>bs_bound = [], bs_available = [], bs_skipped = []\<rparr>"

section \<open>The binding plan\<close>

record binding_plan =
  bp_bindings :: "dependency_binding list"
  bp_projection :: "string list"
  bp_lookup_projection :: "(string \<times> string list) list"
  bp_hash :: string
  bp_skipped :: "expression_skip list"

definition invalid_key_mapping :: py_error where
  "invalid_key_mapping = ValidationError ''lookup.invalid_key_mapping''"

definition validate_alias_collisions :: "(string \<times> string) list \<Rightarrow> (string \<times> string) list \<Rightarrow> unit result" where
  "validate_alias_collisions registry dtypes =
     raise_if (\<exists>alias \<in> set (dict_keys registry). has_column dtypes alias) invalid_alias_binding (Inr ())"

text \<open>The columns of list expansion, entered as aliases of their source.\<close>

definition expand_alias :: "list_column \<Rightarrow> (string \<times> string) list \<Rightarrow> (string \<times> string) list result" where
  "expand_alias c registry =
     (if lc_target c = lc_source c then Inr registry
      else raise_if (map_of registry (lc_target c) \<noteq> None \<and> map_of registry (lc_target c) \<noteq> Some (lc_source c))
             (ValidationError ''list.duplicate_binding'') (Inr (dict_put (lc_target c) (lc_source c) registry)))"

definition bind_source_key :: "bind_context \<Rightarrow> string \<Rightarrow> string result" where
  "bind_source_key ctx key =
     (if has_column (bc_dtypes ctx) key then Inr key
      else case map_of (bc_registry ctx) key of Some physical \<Rightarrow> Inr physical | None \<Rightarrow> Inl invalid_key_mapping)"

text \<open>The sets \<open>lookup_values\<close>: the physical columns that the bindings take from a lookup, sorted.\<close>

definition lookup_values :: "dependency_binding list \<Rightarrow> string \<Rightarrow> string list" where
  "lookup_values bindings alias =
     sort (dict_fromkeys (map db_physical (filter (\<lambda>b. db_kind b = KLookup \<and> db_lookup b = Some alias) bindings)))"

definition used_lookups :: "bind_context \<Rightarrow> dependency_binding list \<Rightarrow> lookup_file list" where
  "used_lookups ctx bindings = filter (\<lambda>l. lookup_values bindings (lf_alias l) \<noteq> []) (bc_lookups ctx)"

definition key_columns :: "bind_context \<Rightarrow> lookup_file \<Rightarrow> string list result" where
  "key_columns ctx l = res_map (bind_source_key ctx) (lf_source_keys l)"

definition retained_columns :: "calc_spec \<Rightarrow> string list" where
  "retained_columns spec = cs_identity spec @ cs_partition spec @ cs_include spec"

definition source_projection :: "calc_spec \<Rightarrow> bind_context \<Rightarrow> dependency_binding list \<Rightarrow> string list result" where
  "source_projection spec ctx bindings =
     res_bind (res_map (key_columns ctx) (used_lookups ctx bindings)) (\<lambda>keys.
     let projection = dict_fromkeys (retained_columns spec @
           map db_physical (filter (\<lambda>b. db_kind b \<in> {KSource, KAlias}) bindings) @ concat keys @
           filter (has_column (bc_dtypes ctx)) (map lc_source (cs_expand spec)))
     in raise_if (\<exists>name \<in> set projection. \<not> has_column (bc_dtypes ctx) name \<and> name \<in> set (retained_columns spec))
          unresolved_dependency (Inr projection))"

definition normalize_dtype :: "string \<Rightarrow> string" where
  "normalize_dtype dtype =
     (let t = py_strip (py_lower dtype) in
      case map_of [(''string'', ''string''), (''large_string'', ''string''), (''utf8'', ''string''),
                   (''int64'', ''int64''), (''bigint'', ''int64''), (''int32'', ''int32''), (''integer'', ''int32''),
                   (''double'', ''double''), (''float64'', ''double''), (''bool'', ''bool''), (''boolean'', ''bool'')] t
      of Some u \<Rightarrow> u | None \<Rightarrow> t)"

text \<open>\<open>dtypes[name]\<close>.\<close>

definition column_dtype :: "(string \<times> string) list \<Rightarrow> string \<Rightarrow> string result" where
  "column_dtype dtypes name = (case map_of dtypes name of None \<Rightarrow> Inl (KeyError name) | Some t \<Rightarrow> Inr t)"

definition key_type_differs :: "bind_context \<Rightarrow> lookup_file \<Rightarrow> string \<times> string \<Rightarrow> bool result" where
  "key_type_differs ctx l keys =
     res_bind (bind_source_key ctx (fst keys)) (\<lambda>physical.
     res_bind (column_dtype (bc_dtypes ctx) physical) (\<lambda>source.
     res_bind (column_dtype (lf_schema l) (snd keys)) (\<lambda>target.
       Inr (normalize_dtype source \<noteq> normalize_dtype target))))"

definition validate_lookup_key_types :: "bind_context \<Rightarrow> lookup_file \<Rightarrow> unit result" where
  "validate_lookup_key_types ctx l =
     (let pairs = zip (lf_source_keys l) (lf_lookup_keys l) in
      res_bind (res_map (key_type_differs ctx l) pairs) (\<lambda>differ.
      raise_if (length (lf_source_keys l) \<noteq> length (lf_lookup_keys l)) (ValueError ''zip'') (
      raise_if (True \<in> set differ) invalid_key_mapping (Inr ()))))"

text \<open>The composite keys of a lookup file without a null: the rows its uniqueness is checked on.\<close>

definition lookup_key_rows :: "lookup_file \<Rightarrow> string list list" where
  "lookup_key_rows l =
     map (map json_compact) (filter (\<lambda>values. VNone \<notin> set values)
       (map (\<lambda>row. map (get_key row) (lf_lookup_keys l)) (lf_rows l)))"

definition validate_lookup_key_uniqueness :: "lookup_file \<Rightarrow> unit result" where
  "validate_lookup_key_uniqueness l =
     raise_if (\<not> distinct (lookup_key_rows l)) (ValidationError ''lookup.non_unique_keys'') (Inr ())"

definition lookup_projection :: "bind_context \<Rightarrow> dependency_binding list \<Rightarrow> lookup_file \<Rightarrow> (string \<times> string list) result" where
  "lookup_projection ctx bindings l =
     raise_if (\<exists>k \<in> set (lf_lookup_keys l). \<not> has_column (lf_schema l) k) invalid_key_mapping (
     res_bind (validate_lookup_key_types ctx l) (\<lambda>_.
     res_bind (validate_lookup_key_uniqueness l) (\<lambda>_.
       Inr (lf_alias l, dict_fromkeys (lf_lookup_keys l @ lookup_values bindings (lf_alias l))))))"

definition optional_text :: "string option \<Rightarrow> pyval" where
  "optional_text v = (case v of None \<Rightarrow> VNone | Some s \<Rightarrow> VStr s)"

definition binding_document :: "dependency_binding \<Rightarrow> pyval" where
  "binding_document b =
     VDict [(''logical_name'', VStr (db_logical b)), (''kind'', VStr (kind_text (db_kind b))),
            (''physical_name'', VStr (db_physical b)), (''lookup_alias'', optional_text (db_lookup b))]"

definition binding_payload :: "dependency_binding list \<Rightarrow> string list \<Rightarrow> (string \<times> string list) list \<Rightarrow> pyval" where
  "binding_payload bindings projection lookups =
     VDict [(''bindings'', VList (map binding_document bindings)),
            (''source_projection'', VList (map VStr projection)),
            (''lookup_projection'', VDict (map (\<lambda>(alias, names). (alias, VTuple (map VStr names))) lookups)),
            (''contract_version'', VStr ''smoking-data.binding-plan.v1'')]"

definition binding_context :: "calc_spec \<Rightarrow> (string \<times> string) list \<Rightarrow> pydict \<Rightarrow> bind_context result" where
  "binding_context spec dtypes document =
     res_bind (load_column_alias_registry (cs_alias_files spec)) (\<lambda>files.
     res_bind (res_fold expand_alias (cs_expand spec) files) (\<lambda>registry.
     res_bind (validate_alias_collisions registry dtypes) (\<lambda>_.
     res_bind (ir_expressions document) (\<lambda>expressions.
       Inr \<lparr>bc_dtypes = dtypes, bc_registry = registry, bc_lookups = cs_lookups spec,
            bc_outputs = map (\<lambda>e. text_at e ''name'') expressions\<rparr>))))"

definition build_binding_plan ::
  "(string \<Rightarrow> string) \<Rightarrow> calc_spec \<Rightarrow> pydict \<Rightarrow> (string \<times> string) list \<Rightarrow> binding_plan result" where
  "build_binding_plan sha spec document dtypes =
     res_bind (binding_context spec dtypes document) (\<lambda>ctx.
     res_bind (bind_expressions ctx document) (\<lambda>st.
     let bindings = map snd (bs_bound st) in
     res_bind (source_projection spec ctx bindings) (\<lambda>projection.
     res_bind (res_map (lookup_projection ctx bindings) (used_lookups ctx bindings)) (\<lambda>lookups.
       Inr \<lparr>bp_bindings = bindings, bp_projection = projection, bp_lookup_projection = dict_of_pairs lookups,
            bp_hash = sha (json_compact (binding_payload bindings projection (dict_of_pairs lookups))),
            bp_skipped = bs_skipped st\<rparr>))))"

section \<open>Fingerprints\<close>

record fingerprint =
  fp_name :: string
  fp_expression_hash :: string
  fp_binding_hash :: string
  fp_columns :: "string list"
  fp_constants :: "string list"

text \<open>The physical inputs of an expression: columns, constants, and the documents of its bindings.\<close>

record inputs =
  in_columns :: "string list"
  in_constants :: "string list"
  in_bindings :: "pyval list"

definition lookup_constant :: "lookup_file \<Rightarrow> string \<Rightarrow> string" where
  "lookup_constant l physical = ''lookup:'' @ lf_alias l @ '':'' @ physical @ '':sha256:'' @ lf_checksum l"

definition add_binding_inputs ::
  "lookup_file list \<Rightarrow> (string \<times> string) list \<Rightarrow> dependency_binding \<Rightarrow> inputs \<Rightarrow> inputs result" where
  "add_binding_inputs lookups registry b inputs =
     (if db_kind b \<in> {KSource, KAlias} then Inr (inputs\<lparr>in_columns := in_columns inputs @ [db_physical b]\<rparr>)
      else if db_kind b \<noteq> KLookup \<or> db_lookup b = None then Inl (ValidationError ''expression.invalid_binding'')
      else (case map_of (dict_of_pairs (map (\<lambda>l. (lf_alias l, l)) lookups)) (the (db_lookup b)) of
              None \<Rightarrow> Inl (KeyError (the (db_lookup b)))
            | Some l \<Rightarrow>
                Inr (inputs\<lparr>in_columns := in_columns inputs @
                         map (\<lambda>k. get_or registry k k) (lf_source_keys l),
                       in_constants := in_constants inputs @ [lookup_constant l (db_physical b)]\<rparr>)))"

definition expression_binding_document :: "string \<Rightarrow> pyval" where
  "expression_binding_document name =
     binding_document \<lparr>db_logical = name, db_kind = KExpression, db_physical = name, db_lookup = None\<rparr>"

definition reference_inputs ::
  "lookup_file list \<Rightarrow> (string \<times> string) list \<Rightarrow> (string \<times> dependency_binding) list \<Rightarrow> (string \<times> inputs) list \<Rightarrow>
   string \<Rightarrow> inputs \<Rightarrow> inputs result" where
  "reference_inputs lookups registry bindings resolved name inputs =
     (case map_of resolved name of
        Some prior \<Rightarrow>
          Inr \<lparr>in_columns = in_columns inputs @ in_columns prior,
               in_constants = in_constants inputs @ in_constants prior,
               in_bindings = in_bindings inputs @ in_bindings prior @ [expression_binding_document name]\<rparr>
      | None \<Rightarrow>
          (case map_of bindings name of
             None \<Rightarrow> Inl unresolved_dependency
           | Some b \<Rightarrow>
               res_bind (add_binding_inputs lookups registry b inputs) (\<lambda>inputs.
                 Inr (inputs\<lparr>in_bindings := in_bindings inputs @ [binding_document b]\<rparr>))))"

text \<open>Duplicates by canonical text go; the last of equal documents stands in the first one's place.\<close>

definition unique_documents :: "pyval list \<Rightarrow> pyval list" where
  "unique_documents docs = map snd (dict_of_pairs (map (\<lambda>d. (json_compact d, d)) docs))"

definition binding_digest :: "(string \<Rightarrow> string) \<Rightarrow> pyval list \<Rightarrow> string" where
  "binding_digest sha docs =
     sha (json_compact (VDict [(''bindings'', VList docs),
       (''contract_version'', VStr ''smoking-data.expression-binding.v1'')]))"

definition fingerprint_of :: "(string \<Rightarrow> string) \<Rightarrow> pydict \<Rightarrow> inputs \<Rightarrow> fingerprint" where
  "fingerprint_of sha expression inputs =
     \<lparr>fp_name = text_at expression ''name'',
      fp_expression_hash = sha (json_compact (VDict expression)),
      fp_binding_hash = binding_digest sha (in_bindings inputs),
      fp_columns = sort (dict_fromkeys (in_columns inputs)),
      fp_constants = sort (dict_fromkeys (in_constants inputs))\<rparr>"

definition add_fingerprint ::
  "(string \<Rightarrow> string) \<Rightarrow> pydict \<Rightarrow> (string \<times> inputs) list \<Rightarrow> fingerprint list \<Rightarrow> inputs \<Rightarrow>
   (string \<times> inputs) list \<times> fingerprint list" where
  "add_fingerprint sha expression resolved results inputs =
     (dict_put (text_at expression ''name'') inputs resolved, results @ [fingerprint_of sha expression inputs])"

definition unique_inputs :: "inputs \<Rightarrow> inputs" where
  "unique_inputs i =
     \<lparr>in_columns = in_columns i, in_constants = in_constants i, in_bindings = unique_documents (in_bindings i)\<rparr>"

definition fingerprint_expression ::
  "(string \<Rightarrow> string) \<Rightarrow> lookup_file list \<Rightarrow> (string \<times> string) list \<Rightarrow> (string \<times> dependency_binding) list \<Rightarrow> pydict \<Rightarrow>
   (string \<times> inputs) list \<times> fingerprint list \<Rightarrow> ((string \<times> inputs) list \<times> fingerprint list) result" where
  "fingerprint_expression sha lookups registry bindings expression = (\<lambda>(resolved, results).
     let name = text_at expression ''name''; node = get_key expression ''expr'' in
     raise_if (name = [] \<or> \<not> is_dict node) invalid_ir (
     res_bind (expression_column_references (dict_of node)) (\<lambda>references.
     res_bind (res_fold (reference_inputs lookups registry bindings resolved) references
         \<lparr>in_columns = [], in_constants = [], in_bindings = []\<rparr>) (\<lambda>inputs.
       Inr (add_fingerprint sha expression resolved results (unique_inputs inputs))))))"

definition bindings_by_name :: "dependency_binding list \<Rightarrow> (string \<times> dependency_binding) list" where
  "bindings_by_name bindings = dict_of_pairs (map (\<lambda>b. (db_logical b, b)) bindings)"

definition derive_expression_fingerprint_specs ::
  "(string \<Rightarrow> string) \<Rightarrow> calc_spec \<Rightarrow> pydict \<Rightarrow> dependency_binding list \<Rightarrow> fingerprint list result" where
  "derive_expression_fingerprint_specs sha spec document bindings =
     res_bind (load_column_alias_registry (cs_alias_files spec)) (\<lambda>registry.
     res_bind (for_expressions (fingerprint_expression sha (cs_lookups spec) registry (bindings_by_name bindings))
       document ([], [])) (\<lambda>(_, results). Inr results))"

section \<open>The run plan\<close>

record calc_plan =
  cp_ir :: pydict
  cp_binding :: binding_plan
  cp_expressions :: "expression_plan list"
  cp_fingerprints :: "fingerprint list"
  cp_fact_sources :: "(string \<times> string) list"

text \<open>The types under which expressions are planned: the source's columns and what names were bound to.\<close>

definition logical_dtype ::
  "(string \<times> string) list \<Rightarrow> (string \<times> (string \<times> string) list) list \<Rightarrow> dependency_binding \<Rightarrow>
   (string \<times> string) list \<Rightarrow> (string \<times> string) list result" where
  "logical_dtype dtypes schemas b known =
     (if db_kind b \<in> {KSource, KAlias}
        then res_bind (column_dtype dtypes (db_physical b)) (\<lambda>t. Inr (dict_put (db_logical b) t known))
      else if db_kind b = KLookup \<and> db_lookup b \<noteq> None
        then (case map_of schemas (the (db_lookup b)) of
                None \<Rightarrow> Inl (KeyError (the (db_lookup b)))
              | Some schema \<Rightarrow> res_bind (column_dtype schema (db_physical b)) (\<lambda>t. Inr (dict_put (db_logical b) t known)))
      else Inr known)"

definition logical_dtypes ::
  "calc_spec \<Rightarrow> (string \<times> string) list \<Rightarrow> dependency_binding list \<Rightarrow> (string \<times> string) list result" where
  "logical_dtypes spec dtypes bindings =
     res_fold (logical_dtype dtypes (lookup_schemas (cs_lookups spec))) bindings dtypes"

text \<open>Outputs of list expansion that are compacted under another name.\<close>

definition compact_names :: "calc_spec \<Rightarrow> expression_plan list \<Rightarrow> (string \<times> string) list" where
  "compact_names spec expressions =
     dict_of_pairs (map (\<lambda>c. (lc_source c, lc_target c))
       (filter (\<lambda>c. lc_source c \<in> set (map ep_name expressions)) (cs_compact spec)))"

definition published_name :: "(string \<times> string) list \<Rightarrow> fingerprint \<Rightarrow> string" where
  "published_name compact f = get_or compact (fp_name f) (fp_name f)"

definition fact_source_names :: "(string \<times> string) list \<Rightarrow> fingerprint list \<Rightarrow> (string \<times> string) list" where
  "fact_source_names compact raw = dict_of_pairs (map (\<lambda>f. (published_name compact f, fp_name f)) raw)"

definition build_calculated_fact_plan ::
  "(string \<Rightarrow> string) \<Rightarrow> calc_spec \<Rightarrow> (string \<times> string) list \<Rightarrow> pydict \<Rightarrow> calc_plan result" where
  "build_calculated_fact_plan sha spec dtypes document =
     raise_if (\<exists>c \<in> set (cs_include spec). \<not> has_column dtypes c) (ValidationError ''wide_output.missing_include_column'') (
     res_bind (build_binding_plan sha spec document dtypes) (\<lambda>binding.
     res_bind (filter_expression_ir document (skipped_names (bp_skipped binding))) (\<lambda>active.
     res_bind (logical_dtypes spec dtypes (bp_bindings binding)) (\<lambda>logical.
     res_bind (plan_expression_execution active logical (cs_expand spec \<noteq> [])) (\<lambda>expressions.
     res_bind (derive_expression_fingerprint_specs sha spec active (bp_bindings binding)) (\<lambda>raw.
     let compact = compact_names spec expressions; sources = fact_source_names compact raw in
     raise_if (\<exists>n \<in> set (dict_keys compact). n \<notin> set (map ep_name expressions))
       (ValidationError ''list.compaction_source_missing'') (
     raise_if (length sources \<noteq> length raw) (ValidationError ''list.duplicate_binding'') (
     let fingerprints = map (\<lambda>f. f\<lparr>fp_name := published_name compact f\<rparr>) raw in
     raise_if (cs_wide spec \<and> (\<exists>f \<in> set fingerprints. fp_name f \<in> set (retained_columns spec)))
       (ValidationError ''wide_output.duplicate_column'') (
       Inr \<lparr>cp_ir = active, cp_binding = binding, cp_expressions = expressions, cp_fingerprints = fingerprints,
            cp_fact_sources = sources\<rparr>))))))))) "

section \<open>Tasks\<close>

text \<open>The expressions a segment with the given columns can calculate.\<close>

definition segment_expression_names :: "fingerprint list \<Rightarrow> string list \<Rightarrow> string list" where
  "segment_expression_names fingerprints available =
     map fp_name (filter (\<lambda>f. set (fp_columns f) \<subseteq> set available) fingerprints)"

definition required_physical :: "calc_spec \<Rightarrow> calc_plan \<Rightarrow> string list \<Rightarrow> string list" where
  "required_physical spec plan names =
     retained_columns spec @ concat (map fp_columns (filter (\<lambda>f. fp_name f \<in> set names) (cp_fingerprints plan)))"

definition logical_aliases :: "calc_spec \<Rightarrow> (string \<times> string) list \<Rightarrow> dependency_binding list \<Rightarrow> (string \<times> string) list" where
  "logical_aliases spec registry bindings =
     dict_of_pairs (map (\<lambda>b. (db_logical b, db_physical b)) (filter (\<lambda>b. db_kind b = KAlias) bindings) @
       map (\<lambda>k. (k, get_or registry k k))
         (filter (\<lambda>k. map_of registry k \<noteq> None) (concat (map lf_source_keys (cs_lookups spec)))))"

text \<open>Pairs of a projected name and its source column.\<close>

definition projection_columns :: "calc_spec \<Rightarrow> calc_plan \<Rightarrow> string list \<Rightarrow> string list \<Rightarrow> (string \<times> string) list result" where
  "projection_columns spec plan names available =
     res_bind (load_column_alias_registry (cs_alias_files spec)) (\<lambda>registry.
     let required = required_physical spec plan names;
         physical = map (\<lambda>n. (n, n)) (filter (\<lambda>n. n \<in> set required \<and> n \<in> set available) (bp_projection (cp_binding plan)));
         aliases = filter (\<lambda>(logical, p). p \<in> set required \<and> logical \<notin> set (map fst physical) \<and> p \<in> set available)
                     (logical_aliases spec registry (bp_bindings (cp_binding plan)))
     in Inr (physical @ aliases))"

record lookup_config =
  lg_alias :: string
  lg_source_keys :: "string list"
  lg_lookup_keys :: "string list"
  lg_values :: "(string \<times> string) list"

definition lookup_enrich_configs :: "calc_spec \<Rightarrow> calc_plan \<Rightarrow> lookup_config list" where
  "lookup_enrich_configs spec plan =
     filter (\<lambda>c. lg_values c \<noteq> [])
       (map (\<lambda>l. \<lparr>lg_alias = lf_alias l, lg_source_keys = lf_source_keys l, lg_lookup_keys = lf_lookup_keys l,
                  lg_values = dict_fromkeys (map (\<lambda>b. (db_physical b, db_logical b))
                    (filter (\<lambda>b. db_kind b = KLookup \<and> db_lookup b = Some (lf_alias l))
                      (bp_bindings (cp_binding plan))))\<rparr>) (cs_lookups spec))"

record task_request =
  tr_projection :: "(string \<times> string) list"
  tr_ir :: pydict
  tr_lookups :: "lookup_config list"

definition build_task_request ::
  "calc_spec \<Rightarrow> calc_plan \<Rightarrow> string list \<Rightarrow> string list \<Rightarrow> task_request result" where
  "build_task_request spec plan names available =
     res_bind (projection_columns spec plan names available) (\<lambda>projection.
     res_bind (subset_expression_ir (cp_ir plan) (map (\<lambda>n. get_or (cp_fact_sources plan) n n) names)) (\<lambda>ir.
       Inr \<lparr>tr_projection = projection, tr_ir = ir, tr_lookups = lookup_enrich_configs spec plan\<rparr>))"

end
