(* ===== verification/CalculatedTasks.thy ===== *)
theory CalculatedTasks
  imports CalculatedPlan
begin

text \<open>
  What the plan of a calculated-fact run guarantees its tasks. The binder's loop is taken apart first:
  a kept expression reads names known before it or leaves whose physical inputs exist. From that
  follow the columns of the fingerprints as a fixpoint over the references, their place in the
  projection, and that a task's request provides every column its expressions read.
\<close>

section \<open>What the binder guarantees\<close>

text \<open>A binding that is not to an expression: its physical inputs exist.\<close>

definition leaf_ok :: "bind_context \<Rightarrow> dependency_binding \<Rightarrow> bool" where
  "leaf_ok ctx b =
     (case db_kind b of
        KSource \<Rightarrow> db_physical b = db_logical b \<and> has_column (bc_dtypes ctx) (db_physical b)
      | KAlias \<Rightarrow> map_of (bc_registry ctx) (db_logical b) = Some (db_physical b) \<and>
                  has_column (bc_dtypes ctx) (db_physical b) \<and> \<not> has_column (bc_dtypes ctx) (db_logical b)
      | KLookup \<Rightarrow> (\<exists>l \<in> set (bc_lookups ctx). db_lookup b = Some (lf_alias l) \<and>
                     has_column (lf_schema l) (db_physical b) \<and>
                     list_all (has_column (lf_schema l)) (lf_lookup_keys l) \<and>
                     list_all (\<lambda>k. \<not> source_key_missing ctx k) (lf_source_keys l))
      | KExpression \<Rightarrow> False)"

lemma lookup_schemas_Some:
  "map_of (lookup_schemas lookups) alias = Some schema \<Longrightarrow>
     \<exists>l \<in> set lookups. lf_alias l = alias \<and> lf_schema l = schema"
proof -
  have "\<forall>(a, s) \<in> set (fold (\<lambda>(k, v) d. dict_put k v d) (map (\<lambda>l. (lf_alias l, lf_schema l)) ls) d).
          P a s" if "\<forall>(a, s) \<in> set d. P a s" "\<forall>l \<in> set ls. P (lf_alias l) (lf_schema l)" for ls d P
    using that
  proof (induction ls arbitrary: d)
    case (Cons l ls)
    from Cons.prems set_dict_put [of "lf_alias l" "lf_schema l" d]
    have "\<forall>(a, s) \<in> set (dict_put (lf_alias l) (lf_schema l) d). P a s" by fastforce
    with Cons show ?case by simp
  qed simp
  from this [of "[]" "\<lambda>a s. \<exists>l \<in> set lookups. lf_alias l = a \<and> lf_schema l = s" lookups]
  show "map_of (lookup_schemas lookups) alias = Some schema \<Longrightarrow> ?thesis"
    by (fastforce simp: lookup_schemas_def dict_of_pairs_def dest: map_of_SomeD)
qed

definition distinct_aliases :: "lookup_file list \<Rightarrow> bool" where
  "distinct_aliases lookups = distinct (map lf_alias lookups)"

lemma lookup_named_distinct:
  assumes "distinct_aliases lookups" and "l \<in> set lookups"
  shows "lookup_named lookups (Some (lf_alias l)) = Some l"
proof -
  have "lookup_named lookups (Some (lf_alias l)) \<noteq> None"
    using assms(2) by (auto simp: lookup_named_def find_None_iff)
  then obtain l' where l': "lookup_named lookups (Some (lf_alias l)) = Some l'" by auto
  then have "l' \<in> set lookups" "lf_alias l' = lf_alias l"
    unfolding lookup_named_def find_Some_iff by auto
  with assms l' show ?thesis by (auto simp: distinct_aliases_def distinct_map dest: inj_onD)
qed

text \<open>A leaf that binds at all binds to something that exists, except for what \<open>checked_leaf\<close> asks.\<close>

definition leaf_found :: "bind_context \<Rightarrow> dependency_binding \<Rightarrow> bool" where
  "leaf_found ctx b =
     (case db_kind b of
        KSource \<Rightarrow> db_physical b = db_logical b \<and> has_column (bc_dtypes ctx) (db_physical b)
      | KAlias \<Rightarrow> map_of (bc_registry ctx) (db_logical b) = Some (db_physical b) \<and> \<not> has_column (bc_dtypes ctx) (db_logical b)
      | KLookup \<Rightarrow> (\<exists>l \<in> set (bc_lookups ctx). db_lookup b = Some (lf_alias l) \<and> has_column (lf_schema l) (db_physical b))
      | KExpression \<Rightarrow> False)"

lemma bind_unqualified_found:
  assumes "bind_unqualified ctx name = Inr (Bound b)"
  shows "db_logical b = name \<and> leaf_found ctx b"
proof -
  from assms obtain named schema where one: "filter (\<lambda>(alias, schema). has_column schema name) (lookup_schemas (bc_lookups ctx)) = [(named, schema)]"
    and b: "new_binding name KLookup name (Some named) = Bound b"
    by (auto simp: bind_unqualified_def missing_leaf_def split: list.splits if_splits)
  from one have "(named, schema) \<in> set (filter (\<lambda>(alias, schema). has_column schema name) (lookup_schemas (bc_lookups ctx)))"
    by simp
  then have "(named, schema) \<in> set (lookup_schemas (bc_lookups ctx))" and h: "has_column schema name" by auto
  moreover have "dict_wf (lookup_schemas (bc_lookups ctx))" by (simp add: lookup_schemas_def dict_wf_of_pairs)
  ultimately have "map_of (lookup_schemas (bc_lookups ctx)) named = Some schema"
    by (simp add: dict_wf_def)
  from lookup_schemas_Some [OF this] h b show ?thesis
    by (auto simp: new_binding_def leaf_found_def)
qed

lemma bind_leaf_found:
  assumes "bind_leaf_or_missing ctx name = Inr (Bound b)"
  shows "db_logical b = name \<and> leaf_found ctx b"
proof (cases "has_column (bc_dtypes ctx) name")
  case True
  with assms show ?thesis by (auto simp: bind_leaf_or_missing_def new_binding_def leaf_found_def)
next
  case no_column: False
  show ?thesis
  proof (cases "map_of (bc_registry ctx) name")
    case (Some physical)
    with assms no_column show ?thesis by (auto simp: bind_leaf_or_missing_def new_binding_def leaf_found_def)
  next
    case None
    obtain named dotted column where p: "partition_on (CHR ''.'') name = (named, dotted, column)"
      by (cases "partition_on (CHR ''.'') name") auto
    show ?thesis
    proof (cases "if dotted then map_of (lookup_schemas (bc_lookups ctx)) named else None")
      case None
      with assms no_column \<open>map_of (bc_registry ctx) name = None\<close> p have "bind_unqualified ctx name = Inr (Bound b)"
        by (simp add: bind_leaf_or_missing_def)
      then show ?thesis by (rule bind_unqualified_found)
    next
      case (Some schema)
      then have "map_of (lookup_schemas (bc_lookups ctx)) named = Some schema" by (auto split: if_splits)
      from lookup_schemas_Some [OF this] Some assms no_column \<open>map_of (bc_registry ctx) name = None\<close> p show ?thesis
        by (auto simp: bind_leaf_or_missing_def new_binding_def missing_leaf_def leaf_found_def split: if_splits)
    qed
  qed
qed

lemma checked_leaf_ok:
  assumes "checked_leaf ctx b = Bound b'" and "leaf_found ctx b" and "distinct_aliases (bc_lookups ctx)"
  shows "b' = b \<and> leaf_ok ctx b"
proof (cases "db_kind b")
  case KLookup
  with assms(2) obtain l where l: "l \<in> set (bc_lookups ctx)" "db_lookup b = Some (lf_alias l)" "has_column (lf_schema l) (db_physical b)"
    by (auto simp: leaf_found_def)
  from lookup_named_distinct [OF assms(3) l(1)] l assms(1) KLookup show ?thesis
    by (auto simp: checked_leaf_def missing_leaf_def leaf_ok_def Let_def filter_empty_conv list_all_iff split: if_splits)
qed (use assms(1,2) in \<open>auto simp: checked_leaf_def missing_leaf_def leaf_ok_def leaf_found_def split: if_splits\<close>)

lemma resolve_reference_ok:
  assumes "resolve_reference ctx st name = Inr (Bound b)" and "distinct_aliases (bc_lookups ctx)"
  shows "db_logical b = name \<and>
    (if name \<in> set (bs_available st) then db_kind b = KExpression else leaf_ok ctx b)"
proof (cases "name \<in> set (skipped_names (bs_skipped st)) \<or> name \<in> set (bs_available st)")
  case True
  with assms(1) have "name \<notin> set (skipped_names (bs_skipped st))" and "new_binding name KExpression name None = Bound b"
    by (auto simp: resolve_reference_def missing_leaf_def split: if_splits)
  with True show ?thesis by (auto simp: new_binding_def)
next
  case False
  with assms(1) obtain leaf where leaf: "bind_leaf_or_missing ctx name = Inr leaf"
    and b: "(case leaf of Missing m \<Rightarrow> leaf | Bound b \<Rightarrow> checked_leaf ctx b) = Bound b"
    by (auto simp: resolve_reference_def res_simps)
  from b obtain b0 where b0: "leaf = Bound b0" "checked_leaf ctx b0 = Bound b" by (cases leaf) auto
  from bind_leaf_found [of ctx name b0] leaf b0 checked_leaf_ok [OF b0(2) _ assms(2)] False
  show ?thesis by auto
qed

definition references :: "pydict \<Rightarrow> string list" where
  "references expression = column_names (expression_node expression)"

definition expression_name :: "pydict \<Rightarrow> string" where
  "expression_name expression = text_at expression ''name''"

lemma bind_references_bound:
  assumes "res_fold (bind_reference ctx st) names (m, bs) = Inr ([], bound)"
  shows "m = [] \<and> (\<exists>more. bound = bs @ more \<and>
    list_all2 (\<lambda>r b. resolve_reference ctx st r = Inr (Bound b) \<and>
      (map_of (bs_bound st) r = None \<or> map_of (bs_bound st) r = Some b)) names more)"
  using assms
proof (induction names arbitrary: m bs)
  case (Cons n names)
  then obtain s where s: "bind_reference ctx st n (m, bs) = Inr s"
    and rest: "res_fold (bind_reference ctx st) names s = Inr ([], bound)" by (auto simp: res_simps)
  obtain m' bs' where s': "s = (m', bs')" by force
  from Cons.IH [of m' bs'] rest s' obtain more where m': "m' = []" and more: "bound = bs' @ more"
    "list_all2 (\<lambda>r b. resolve_reference ctx st r = Inr (Bound b) \<and>
      (map_of (bs_bound st) r = None \<or> map_of (bs_bound st) r = Some b)) names more" by blast
  obtain leaf where leaf: "resolve_reference ctx st n = Inr leaf"
    using s by (cases "resolve_reference ctx st n") (auto simp: bind_reference_def)
  show ?case
  proof (cases leaf)
    case (Missing x)
    with leaf s s' m' show ?thesis by (simp add: bind_reference_def)
  next
    case (Bound b)
    with s' m' leaf have "m = []" "bs' = bs @ [b]" "resolve_reference ctx st n = Inr (Bound b)"
      "map_of (bs_bound st) n = None \<or> map_of (bs_bound st) n = Some b"
      using s by (auto simp: bind_reference_def res_simps)
    with more show ?thesis by auto
  qed
qed simp

lemma list_all2_member: "list_all2 P xs ys \<Longrightarrow> x \<in> set xs \<Longrightarrow> \<exists>y \<in> set ys. P x y"
  by (induction rule: list_all2_induct) auto

lemma list_all2_member2: "list_all2 P xs ys \<Longrightarrow> y \<in> set ys \<Longrightarrow> \<exists>x \<in> set xs. P x y"
  by (induction rule: list_all2_induct) auto

lemma setdefault_fold:
  "map_of (fold (\<lambda>b. dict_setdefault (db_logical b) b) bs d) = map_of (map (\<lambda>b. (db_logical b, b)) bs) ++ map_of d"
  by (induction bs arbitrary: d) (auto simp: dict_simps map_add_def fun_eq_iff split: option.splits)

lemma setdefault_fold_wf:
  "dict_wf d \<Longrightarrow> dict_wf (fold (\<lambda>b. dict_setdefault (db_logical b) b) bs d)"
  by (induction bs arbitrary: d) (auto simp: dict_simps)

definition bound_wf :: "bind_context \<Rightarrow> (string \<times> dependency_binding) list \<Rightarrow> bool" where
  "bound_wf ctx bound \<longleftrightarrow> dict_wf bound \<and>
     (\<forall>n b. map_of bound n = Some b \<longrightarrow> db_logical b = n \<and> (db_kind b = KExpression \<or> leaf_ok ctx b))"

lemma bindings_by_name_bound:
  assumes "bound_wf ctx bound"
  shows "bindings_by_name (map snd bound) = bound"
proof -
  have "map (\<lambda>b. (db_logical b, b)) (map snd bound) = bound"
    using assms by (auto simp: bound_wf_def dict_wf_def intro!: map_idI)
  then show ?thesis
    using assms by (simp add: bindings_by_name_def bound_wf_def dict_wf_def dict_of_distinct_pairs)
qed

text \<open>One expression: it is skipped, or all its references are bound.\<close>

lemma bind_expression_cases:
  assumes "bind_expression ctx e st = Inr st'" and "distinct_aliases (bc_lookups ctx)" and "bound_wf ctx (bs_bound st)"
  shows "is_dict (get_key e ''expr'') \<and> walkable (expression_node e) \<and> bound_wf ctx (bs_bound st') \<and>
    map_of (bs_bound st) \<subseteq>\<^sub>m map_of (bs_bound st') \<and>
    (bs_available st' = bs_available st \<and>
       skipped_names (bs_skipped st') = skipped_names (bs_skipped st) @ [expression_name e] \<or>
     bs_available st' = bs_available st @ [expression_name e] \<and> bs_skipped st' = bs_skipped st \<and>
       (\<forall>r \<in> set (references e). r \<notin> set (bs_available st) \<longrightarrow>
         (\<exists>b. map_of (bs_bound st') r = Some b \<and> leaf_ok ctx b)))"
proof -
  from assms(1) obtain missing bound where node: "is_dict (get_key e ''expr'')" "walkable (expression_node e)"
    and run: "res_fold (bind_reference ctx st) (references e) ([], []) = Inr (missing, bound)"
    and st': "st' = (if missing \<noteq> []
             then st\<lparr>bs_skipped := bs_skipped st @
                      [\<lparr>es_name = text_at e ''name'', es_upstream = list_ex (\<lambda>m. md_kind m = KExpression) missing,
                        es_missing = missing\<rparr>]\<rparr>
             else st\<lparr>bs_bound := fold (\<lambda>b. dict_setdefault (db_logical b) b) bound (bs_bound st),
                     bs_available := bs_available st @ [text_at e ''name'']\<rparr>)"
    by (auto simp: bind_expression_def Let_def res_simps expression_column_references_def references_def
        expression_node_def split: if_splits)
  show ?thesis
  proof (cases "missing = []")
    case False
    then have s: "bs_bound st' = bs_bound st" "bs_available st' = bs_available st"
      "skipped_names (bs_skipped st') = skipped_names (bs_skipped st) @ [expression_name e]"
      by (simp_all add: st' skipped_names_def expression_name_def)
    show ?thesis unfolding s using node assms(3) by simp
  next
    case True
    with run bind_references_bound [of ctx st "references e" "[]" "[]" bound] have
      all: "list_all2 (\<lambda>r b. resolve_reference ctx st r = Inr (Bound b) \<and>
        (map_of (bs_bound st) r = None \<or> map_of (bs_bound st) r = Some b)) (references e) bound" by auto
    then have each: "list_all2 (\<lambda>r b. db_logical b = r \<and> (if r \<in> set (bs_available st) then db_kind b = KExpression else leaf_ok ctx b) \<and>
        (map_of (bs_bound st) r = None \<or> map_of (bs_bound st) r = Some b)) (references e) bound"
      using resolve_reference_ok [OF _ assms(2)] by (auto elim!: list_all2_mono)
    then have names: "map db_logical bound = references e"
      by (induction rule: list_all2_induct) auto
    then have distinct: "distinct (map db_logical bound)" by (simp add: references_def column_names_def)
    have s: "bs_bound st' = fold (\<lambda>b. dict_setdefault (db_logical b) b) bound (bs_bound st)"
      "bs_available st' = bs_available st @ [expression_name e]" "bs_skipped st' = bs_skipped st"
      by (simp_all add: st' True expression_name_def)
    have found: "map_of (map (\<lambda>b. (db_logical b, b)) bound) n = Some b \<longleftrightarrow> b \<in> set bound \<and> db_logical b = n" for n b
      using distinct by (subst map_of_eq_Some_iff) (auto simp: comp_def)
    have le: "map_of (bs_bound st) \<subseteq>\<^sub>m map_of (bs_bound st')"
      by (simp add: s setdefault_fold)
    have "db_kind b = KExpression \<or> leaf_ok ctx b" if "b \<in> set bound" for b
      using list_all2_member2 [OF each that] by (auto split: if_splits)
    then have wf: "bound_wf ctx (bs_bound st')"
      using assms(3) found unfolding bound_wf_def s
      by (auto simp: setdefault_fold setdefault_fold_wf map_add_Some_iff)
    have "\<exists>b. map_of (bs_bound st') r = Some b \<and> leaf_ok ctx b"
      if r: "r \<in> set (references e)" "r \<notin> set (bs_available st)" for r
    proof -
      from r obtain b where b: "b \<in> set bound" "db_logical b = r" "leaf_ok ctx b"
        "map_of (bs_bound st) r = None \<or> map_of (bs_bound st) r = Some b"
        using list_all2_member [OF each] by fastforce
      with found [of r b] show ?thesis by (auto simp: s setdefault_fold map_add_Some_iff)
    qed
    with node le wf s show ?thesis by auto
  qed
qed

text \<open>The expressions that are kept, in order: each reads names known before it or leaves bound to inputs.\<close>

fun bound_in_order :: "bind_context \<Rightarrow> (string \<Rightarrow> dependency_binding option) \<Rightarrow> string set \<Rightarrow> pydict list \<Rightarrow> bool" where
  "bound_in_order ctx bound known [] = True"
| "bound_in_order ctx bound known (e # es) =
     (is_dict (get_key e ''expr'') \<and> walkable (expression_node e) \<and>
      (\<forall>r \<in> set (references e). r \<notin> known \<longrightarrow> (\<exists>b. bound r = Some b \<and> leaf_ok ctx b)) \<and>
      bound_in_order ctx bound (insert (expression_name e) known) es)"

lemma bound_in_order_mono: "bound_in_order ctx bound known es \<Longrightarrow> bound \<subseteq>\<^sub>m bound' \<Longrightarrow> bound_in_order ctx bound' known es"
  by (induction es arbitrary: known) (fastforce simp: map_le_def dom_def)+

lemma bind_loop:
  assumes "res_fold (bind_expression ctx) es st = Inr st'" and "distinct_aliases (bc_lookups ctx)"
    and "bound_wf ctx (bs_bound st)" and "distinct (map expression_name es)"
    and "set (map expression_name es) \<inter> set (skipped_names (bs_skipped st)) = {}"
  shows "bound_wf ctx (bs_bound st') \<and> map_of (bs_bound st) \<subseteq>\<^sub>m map_of (bs_bound st') \<and>
    set (skipped_names (bs_skipped st')) \<subseteq> set (skipped_names (bs_skipped st)) \<union> set (map expression_name es) \<and>
    set (skipped_names (bs_skipped st)) \<subseteq> set (skipped_names (bs_skipped st')) \<and>
    bound_in_order ctx (map_of (bs_bound st')) (set (bs_available st))
      (filter (\<lambda>e. expression_name e \<notin> set (skipped_names (bs_skipped st'))) es)"
  using assms
proof (induction es arbitrary: st)
  case (Cons e es)
  from Cons.prems(1) obtain s where s: "bind_expression ctx e st = Inr s"
    and rest: "res_fold (bind_expression ctx) es s = Inr st'" by (auto simp: res_simps)
  note step = bind_expression_cases [OF s Cons.prems(2,3)]
  have wf: "bound_wf ctx (bs_bound s)" and le: "map_of (bs_bound st) \<subseteq>\<^sub>m map_of (bs_bound s)" using step by auto
  have "set (skipped_names (bs_skipped s)) \<subseteq> insert (expression_name e) (set (skipped_names (bs_skipped st)))"
    using step by auto
  moreover have "expression_name e \<notin> set (map expression_name es)"
    "set (map expression_name es) \<inter> set (skipped_names (bs_skipped st)) = {}"
    using Cons.prems(4,5) by auto
  ultimately have apart: "set (map expression_name es) \<inter> set (skipped_names (bs_skipped s)) = {}" by blast
  have d: "distinct (map expression_name es)" using Cons.prems(4) by simp
  note IH = Cons.IH [OF rest Cons.prems(2) wf d apart]
  have le': "map_of (bs_bound st) \<subseteq>\<^sub>m map_of (bs_bound st')" using le IH map_le_trans by blast
  from step show ?case
  proof (elim conjE disjE)
    assume "bs_available s = bs_available st"
      "skipped_names (bs_skipped s) = skipped_names (bs_skipped st) @ [expression_name e]"
    with IH le' show ?thesis by auto
  next
    assume a: "bs_available s = bs_available st @ [expression_name e]" "bs_skipped s = bs_skipped st"
      and node: "is_dict (get_key e ''expr'')" "walkable (expression_node e)"
      and refs: "\<forall>r \<in> set (references e). r \<notin> set (bs_available st) \<longrightarrow>
         (\<exists>b. map_of (bs_bound s) r = Some b \<and> leaf_ok ctx b)"
    have kept: "expression_name e \<notin> set (skipped_names (bs_skipped st'))"
      using IH a Cons.prems(4,5) by auto
    have "\<exists>b. map_of (bs_bound st') r = Some b \<and> leaf_ok ctx b"
      if "r \<in> set (references e)" "r \<notin> set (bs_available st)" for r
      using refs that IH by (metis domI map_le_def)
    with IH le' a node kept show ?thesis by auto
  qed
qed simp

section \<open>The context of a binding plan\<close>

definition expands_in_place :: "calc_spec \<Rightarrow> bool" where
  "expands_in_place spec = list_all (\<lambda>c. lc_target c = lc_source c) (cs_expand spec)"

definition context_ok :: "bind_context \<Rightarrow> bool" where
  "context_ok ctx \<longleftrightarrow> distinct_aliases (bc_lookups ctx) \<and>
     (\<forall>n. has_column (bc_dtypes ctx) n \<longrightarrow> map_of (bc_registry ctx) n = None)"

lemma expand_in_place: "list_all (\<lambda>c. lc_target c = lc_source c) cs \<Longrightarrow> res_fold expand_alias cs registry = Inr registry"
  by (induction cs) (auto simp: expand_alias_def)

lemma binding_context_ok:
  assumes "binding_context spec dtypes document = Inr ctx" and "distinct_aliases (cs_lookups spec)"
    and "expands_in_place spec"
  shows "context_ok ctx \<and> load_column_alias_registry (cs_alias_files spec) = Inr (bc_registry ctx) \<and>
    bc_dtypes ctx = dtypes \<and> bc_lookups ctx = cs_lookups spec"
proof -
  from assms(1,3) obtain registry where r: "load_column_alias_registry (cs_alias_files spec) = Inr registry"
    and c: "validate_alias_collisions registry dtypes = Inr ()"
    and ctx: "bc_registry ctx = registry" "bc_dtypes ctx = dtypes" "bc_lookups ctx = cs_lookups spec"
    by (auto simp: binding_context_def res_simps expands_in_place_def expand_in_place)
  from c have "\<forall>n. has_column dtypes n \<longrightarrow> map_of registry n = None"
    by (auto simp: validate_alias_collisions_def res_simps dict_keys_def map_of_eq_None_iff)
  with r ctx assms(2) show ?thesis by (simp add: context_ok_def)
qed

text \<open>The physical columns a bound leaf needs.\<close>

definition leaf_inputs :: "bind_context \<Rightarrow> dependency_binding \<Rightarrow> string list" where
  "leaf_inputs ctx b =
     (if db_kind b \<in> {KSource, KAlias} then [db_physical b]
      else (case lookup_named (bc_lookups ctx) (db_lookup b) of
              None \<Rightarrow> [] | Some l \<Rightarrow> map (\<lambda>k. get_or (bc_registry ctx) k k) (lf_source_keys l)))"

lemma source_key_bound:
  assumes "context_ok ctx" and "bind_source_key ctx k = Inr p"
  shows "p = get_or (bc_registry ctx) k k"
  using assms by (auto simp: bind_source_key_def context_ok_def get_or_def split: if_splits option.splits)

lemma source_key_present:
  "\<not> source_key_missing ctx k \<Longrightarrow> has_column (bc_dtypes ctx) (get_or (bc_registry ctx) k k)"
  by (auto simp: source_key_missing_def get_or_def split: option.splits)

lemma leaf_lookup:
  assumes "context_ok ctx" and "leaf_ok ctx b" and "db_kind b = KLookup"
  shows "\<exists>l \<in> set (bc_lookups ctx). db_lookup b = Some (lf_alias l) \<and>
    lookup_named (bc_lookups ctx) (db_lookup b) = Some l \<and> list_all (\<lambda>k. \<not> source_key_missing ctx k) (lf_source_keys l)"
proof -
  from assms(2,3) obtain l where l: "l \<in> set (bc_lookups ctx)" "db_lookup b = Some (lf_alias l)"
    "list_all (\<lambda>k. \<not> source_key_missing ctx k) (lf_source_keys l)" by (auto simp: leaf_ok_def)
  with assms(1) lookup_named_distinct [of "bc_lookups ctx" l] show ?thesis by (auto simp: context_ok_def)
qed

lemma leaf_inputs_are_columns:
  assumes "context_ok ctx" and "leaf_ok ctx b" and "c \<in> set (leaf_inputs ctx b)"
  shows "has_column (bc_dtypes ctx) c"
proof (cases "db_kind b = KLookup")
  case True
  from leaf_lookup [OF assms(1,2) True] assms(3) True show ?thesis
    by (auto simp: leaf_inputs_def list_all_iff intro: source_key_present)
next
  case False
  with assms(2,3) show ?thesis by (cases "db_kind b") (auto simp: leaf_ok_def leaf_inputs_def)
qed

lemma used_lookup:
  assumes "b \<in> set bindings" and "db_kind b = KLookup" and "db_lookup b = Some (lf_alias l)" and "l \<in> set (bc_lookups ctx)"
  shows "l \<in> set (used_lookups ctx bindings)"
proof -
  have "db_physical b \<in> set (lookup_values bindings (lf_alias l))"
    using assms(1-3) by (auto simp: lookup_values_def)
  with assms(4) show ?thesis by (auto simp: used_lookups_def)
qed

lemma key_columns_bound:
  assumes "context_ok ctx" and "key_columns ctx l = Inr keys"
  shows "keys = map (\<lambda>k. get_or (bc_registry ctx) k k) (lf_source_keys l)"
proof -
  have "res_map (bind_source_key ctx) ks = Inr ps \<Longrightarrow> ps = map (\<lambda>k. get_or (bc_registry ctx) k k) ks" for ks ps
    by (induction ks arbitrary: ps) (auto simp: res_simps source_key_bound [OF assms(1)])
  with assms(2) show ?thesis by (simp add: key_columns_def)
qed

lemma projection_covers:
  assumes "source_projection spec ctx bindings = Inr projection" and "context_ok ctx"
    and "b \<in> set bindings" and "leaf_ok ctx b"
  shows "set (leaf_inputs ctx b) \<subseteq> set projection"
proof -
  from assms(1) obtain keys where keys: "res_map (key_columns ctx) (used_lookups ctx bindings) = Inr keys"
    and p: "projection = dict_fromkeys (retained_columns spec @
      map db_physical (filter (\<lambda>b. db_kind b \<in> {KSource, KAlias}) bindings) @ concat keys @
      filter (has_column (bc_dtypes ctx)) (map lc_source (cs_expand spec)))"
    by (auto simp: source_projection_def res_simps Let_def)
  show ?thesis
  proof (cases "db_kind b = KLookup")
    case True
    from leaf_lookup [OF assms(2,4) True] obtain l where l: "l \<in> set (bc_lookups ctx)" "db_lookup b = Some (lf_alias l)"
      "lookup_named (bc_lookups ctx) (db_lookup b) = Some l" by blast
    from used_lookup [OF assms(3) True l(2,1)] res_map_input [OF keys]
    obtain ks where "ks \<in> set keys" "key_columns ctx l = Inr ks" by blast
    with key_columns_bound [OF assms(2)] True l show ?thesis by (auto simp: leaf_inputs_def p)
  next
    case False
    with assms(3,4) show ?thesis by (auto simp: leaf_inputs_def leaf_ok_def p split: binding_kind.splits)
  qed
qed

lemma projection_is_columns:
  assumes "source_projection spec ctx bindings = Inr projection" and "context_ok ctx"
    and "\<forall>b \<in> set bindings. db_kind b = KExpression \<or> leaf_ok ctx b" and "c \<in> set projection"
  shows "has_column (bc_dtypes ctx) c"
proof -
  from assms(1) obtain keys where keys: "res_map (key_columns ctx) (used_lookups ctx bindings) = Inr keys"
    and p: "projection = dict_fromkeys (retained_columns spec @
      map db_physical (filter (\<lambda>b. db_kind b \<in> {KSource, KAlias}) bindings) @ concat keys @
      filter (has_column (bc_dtypes ctx)) (map lc_source (cs_expand spec)))"
    and retained: "\<forall>name \<in> set projection. has_column (bc_dtypes ctx) name \<or> name \<notin> set (retained_columns spec)"
    by (auto simp: source_projection_def res_simps Let_def)
  have "has_column (bc_dtypes ctx) c" if "ks \<in> set keys" "c \<in> set ks" for ks
  proof -
    from res_map_output [OF keys that(1)] obtain l where l: "l \<in> set (used_lookups ctx bindings)" "key_columns ctx l = Inr ks" by blast
    then have "l \<in> set (bc_lookups ctx)" and "set (lookup_values bindings (lf_alias l)) \<noteq> {}"
      by (simp_all add: used_lookups_def)
    then obtain b where b: "b \<in> set bindings" "db_kind b = KLookup" "db_lookup b = Some (lf_alias l)" "l \<in> set (bc_lookups ctx)"
      unfolding lookup_values_def set_sort_key set_dict_fromkeys by auto
    with assms(2,3) lookup_named_distinct [of "bc_lookups ctx" l] have "leaf_ok ctx b"
      "lookup_named (bc_lookups ctx) (db_lookup b) = Some l" by (auto simp: context_ok_def)
    with b key_columns_bound [OF assms(2) l(2)] that(2) leaf_inputs_are_columns [OF assms(2), of b c]
    show ?thesis by (simp add: leaf_inputs_def)
  qed
  moreover have "has_column (bc_dtypes ctx) (db_physical b)" if "b \<in> set bindings" "db_kind b \<in> {KSource, KAlias}" for b
    using assms(3) that by (auto simp: leaf_ok_def split: binding_kind.splits)
  ultimately show ?thesis using assms(4) retained by (auto simp: p)
qed

section \<open>What fingerprints cover\<close>

text \<open>The columns a reference contributes: those of an earlier expression, or of its leaf.\<close>

definition contribution :: "bind_context \<Rightarrow> (string \<Rightarrow> dependency_binding option) \<Rightarrow> (string \<Rightarrow> inputs option) \<Rightarrow> string \<Rightarrow> string set" where
  "contribution ctx bound resolved r =
     (case resolved r of
        Some prior \<Rightarrow> set (in_columns prior)
      | None \<Rightarrow> (case bound r of None \<Rightarrow> {} | Some b \<Rightarrow> set (leaf_inputs ctx b)))"

lemma lookup_by_alias:
  assumes "distinct_aliases lookups" and "l \<in> set lookups"
  shows "map_of (dict_of_pairs (map (\<lambda>l. (lf_alias l, l)) lookups)) (lf_alias l) = Some l"
proof -
  have "distinct (map fst (map (\<lambda>l. (lf_alias l, l)) lookups))" using assms(1) by (simp add: distinct_aliases_def comp_def)
  then show ?thesis using assms(2) by (subst dict_of_distinct_pairs) auto
qed

lemma add_leaf_inputs:
  assumes "context_ok ctx" and "leaf_ok ctx b"
  shows "\<exists>i. add_binding_inputs (bc_lookups ctx) (bc_registry ctx) b inputs = Inr i \<and>
    in_columns i = in_columns inputs @ leaf_inputs ctx b"
proof (cases "db_kind b = KLookup")
  case True
  from leaf_lookup [OF assms True] obtain l where l: "l \<in> set (bc_lookups ctx)" "db_lookup b = Some (lf_alias l)"
    "lookup_named (bc_lookups ctx) (db_lookup b) = Some l" by blast
  with True assms(1) lookup_by_alias [of "bc_lookups ctx" l] show ?thesis
    by (auto simp: add_binding_inputs_def leaf_inputs_def context_ok_def)
next
  case False
  with assms(2) show ?thesis
    by (auto simp: add_binding_inputs_def leaf_inputs_def leaf_ok_def split: binding_kind.splits)
qed

lemma reference_fold:
  assumes "context_ok ctx"
    and "\<forall>r \<in> set names. map_of resolved r \<noteq> None \<or> (\<exists>b. map_of bound r = Some b \<and> leaf_ok ctx b)"
  shows "\<exists>i. res_fold (reference_inputs (bc_lookups ctx) (bc_registry ctx) bound resolved) names inputs = Inr i \<and>
    set (in_columns i) = set (in_columns inputs) \<union> (\<Union>r \<in> set names. contribution ctx (map_of bound) (map_of resolved) r)"
  using assms(2)
proof (induction names arbitrary: inputs)
  case (Cons r names)
  have "\<exists>i. reference_inputs (bc_lookups ctx) (bc_registry ctx) bound resolved r inputs = Inr i \<and>
      set (in_columns i) = set (in_columns inputs) \<union> contribution ctx (map_of bound) (map_of resolved) r"
  proof (cases "map_of resolved r")
    case None
    with Cons.prems obtain b where b: "map_of bound r = Some b" "leaf_ok ctx b" by auto
    from add_leaf_inputs [OF assms(1) b(2), of inputs] obtain i where
      "add_binding_inputs (bc_lookups ctx) (bc_registry ctx) b inputs = Inr i" "in_columns i = in_columns inputs @ leaf_inputs ctx b"
      by blast
    with None b show ?thesis by (simp add: reference_inputs_def contribution_def)
  qed (simp add: reference_inputs_def contribution_def)
  then obtain i where i: "reference_inputs (bc_lookups ctx) (bc_registry ctx) bound resolved r inputs = Inr i"
    "set (in_columns i) = set (in_columns inputs) \<union> contribution ctx (map_of bound) (map_of resolved) r" by blast
  with Cons.IH [of i] Cons.prems show ?case by auto
qed simp

text \<open>No expression reads its own name or one defined later, as the compiler's layers promise.\<close>

fun in_dependency_order :: "pydict list \<Rightarrow> bool" where
  "in_dependency_order [] = True"
| "in_dependency_order (e # es) =
     (set (references e) \<inter> set (map expression_name (e # es)) = {} \<and> in_dependency_order es)"

lemma in_dependency_order_filter: "in_dependency_order es \<Longrightarrow> in_dependency_order (filter keep es)"
  by (induction es) auto

lemma fingerprint_loop:
  assumes "context_ok ctx" and "bound_in_order ctx (map_of bound) (fst ` set resolved) es"
    and "distinct (map expression_name es)" and "set (map expression_name es) \<inter> fst ` set resolved = {}"
    and "\<forall>e \<in> set es. expression_name e \<noteq> []" and "in_dependency_order es"
  shows "\<exists>resolved' more. res_fold (fingerprint_expression sha (bc_lookups ctx) (bc_registry ctx) bound) es (resolved, results) =
      Inr (resolved', results @ more) \<and> map_of resolved \<subseteq>\<^sub>m map_of resolved' \<and>
    fst ` set resolved' = fst ` set resolved \<union> set (map expression_name es) \<and>
    list_all2 (\<lambda>e f. fp_name f = expression_name e \<and>
      (\<exists>i. map_of resolved' (expression_name e) = Some i \<and> set (fp_columns f) = set (in_columns i) \<and>
        set (in_columns i) = (\<Union>r \<in> set (references e). contribution ctx (map_of bound) (map_of resolved') r))) es more"
  using assms(2-)
proof (induction es arbitrary: resolved results)
  case (Cons e es)
  let ?step = "fingerprint_expression sha (bc_lookups ctx) (bc_registry ctx) bound"
  have node: "is_dict (get_key e ''expr'')" "walkable (expression_node e)"
    and refs: "\<forall>r \<in> set (references e). r \<notin> fst ` set resolved \<longrightarrow> (\<exists>b. map_of bound r = Some b \<and> leaf_ok ctx b)"
    and rest: "bound_in_order ctx (map_of bound) (insert (expression_name e) (fst ` set resolved)) es"
    using Cons.prems(1) by auto
  from refs have refs': "\<forall>r \<in> set (references e). map_of resolved r \<noteq> None \<or> (\<exists>b. map_of bound r = Some b \<and> leaf_ok ctx b)"
    unfolding map_of_eq_None_iff by blast
  from reference_fold [OF assms(1) this] obtain i where
    i: "res_fold (reference_inputs (bc_lookups ctx) (bc_registry ctx) bound resolved) (references e)
          \<lparr>in_columns = [], in_constants = [], in_bindings = []\<rparr> = Inr i"
    and cols: "set (in_columns i) = (\<Union>r \<in> set (references e). contribution ctx (map_of bound) (map_of resolved) r)"
    by (metis (no_types, lifting) empty_set inputs.select_convs(1) sup_bot_left)
  let ?i = "unique_inputs i"
  let ?R = "dict_put (expression_name e) ?i resolved"
  let ?f = "fingerprint_of sha e ?i"
  have step: "?step e (resolved, results) = Inr (?R, results @ [?f])"
    using i node Cons.prems(4)
    by (simp add: fingerprint_expression_def expression_column_references_def expression_node_def
        references_def expression_name_def add_fingerprint_def Let_def)
  have keys: "fst ` set ?R = insert (expression_name e) (fst ` set resolved)" by (rule fst_set_dict_put)
  have fresh: "map_of resolved (expression_name e) = None" using Cons.prems(3) by (auto simp: map_of_eq_None_iff)
  have "\<exists>resolved' more. res_fold ?step es (?R, results @ [?f]) = Inr (resolved', (results @ [?f]) @ more) \<and>
      map_of ?R \<subseteq>\<^sub>m map_of resolved' \<and> fst ` set resolved' = fst ` set ?R \<union> set (map expression_name es) \<and>
      list_all2 (\<lambda>e f. fp_name f = expression_name e \<and>
        (\<exists>i. map_of resolved' (expression_name e) = Some i \<and> set (fp_columns f) = set (in_columns i) \<and>
          set (in_columns i) = (\<Union>r \<in> set (references e). contribution ctx (map_of bound) (map_of resolved') r))) es more"
    by (rule Cons.IH) (use rest keys Cons.prems in auto)
  then obtain R more where R: "res_fold ?step es (?R, results @ [?f]) = Inr (R, (results @ [?f]) @ more)"
    "map_of ?R \<subseteq>\<^sub>m map_of R" "fst ` set R = fst ` set ?R \<union> set (map expression_name es)"
    and all: "list_all2 (\<lambda>e f. fp_name f = expression_name e \<and>
        (\<exists>i. map_of R (expression_name e) = Some i \<and> set (fp_columns f) = set (in_columns i) \<and>
          set (in_columns i) = (\<Union>r \<in> set (references e). contribution ctx (map_of bound) (map_of R) r))) es more" by blast
  have le: "map_of resolved \<subseteq>\<^sub>m map_of R" using R(2) fresh by (auto simp: map_le_def dict_simps dom_def)
  have "map_of R (expression_name e) = Some ?i" using R(2) by (auto simp: map_le_def dict_simps dom_def)
  moreover have "contribution ctx (map_of bound) (map_of R) r = contribution ctx (map_of bound) (map_of resolved) r"
    if "r \<in> set (references e)" for r
  proof (cases "map_of resolved r")
    case None
    then have "r \<notin> fst ` set R" using R(3) keys that Cons.prems(5) by (auto simp: map_of_eq_None_iff)
    then have "map_of R r = None" by (simp add: map_of_eq_None_iff)
    with None show ?thesis by (simp add: contribution_def)
  next
    case (Some prior)
    with le have "map_of R r = Some prior" by (metis domI map_le_def)
    with Some show ?thesis by (simp add: contribution_def)
  qed
  moreover have "fp_name ?f = expression_name e" "set (fp_columns ?f) = set (in_columns ?i)"
    by (simp_all add: fingerprint_of_def expression_name_def)
  ultimately have "fp_name ?f = expression_name e \<and> (\<exists>i. map_of R (expression_name e) = Some i \<and>
      set (fp_columns ?f) = set (in_columns i) \<and>
      set (in_columns i) = (\<Union>r \<in> set (references e). contribution ctx (map_of bound) (map_of R) r))"
    using cols by (simp add: unique_inputs_def)
  with all R le keys step show ?case by (intro exI [where x = R] exI [where x = "?f # more"]) simp
qed simp

section \<open>From the binding plan to tasks\<close>

text \<open>What the theorems below ask of a definition and its expression document.\<close>

definition well_formed_inputs :: "calc_spec \<Rightarrow> pydict list \<Rightarrow> bool" where
  "well_formed_inputs spec es \<longleftrightarrow>
     distinct_names es \<and> list_all (\<lambda>e. expression_name e \<noteq> []) es \<and> in_dependency_order es \<and>
     distinct_aliases (cs_lookups spec) \<and> expands_in_place spec"

lemma distinct_names_iff: "distinct_names es \<longleftrightarrow> distinct (map expression_name es)"
  by (simp add: distinct_names_def expression_name_def [abs_def])

lemma well_formed_names: "well_formed_inputs spec es \<Longrightarrow> distinct (map expression_name es)"
  by (simp add: well_formed_inputs_def distinct_names_iff)

lemma binding_plan_facts:
  assumes "build_binding_plan sha spec document dtypes = Inr bp" and "ir_expressions document = Inr es"
    and "well_formed_inputs spec es"
  shows "\<exists>ctx bound. context_ok ctx \<and> bc_dtypes ctx = dtypes \<and> bc_lookups ctx = cs_lookups spec \<and>
    load_column_alias_registry (cs_alias_files spec) = Inr (bc_registry ctx) \<and> bound_wf ctx bound \<and>
    bp_bindings bp = map snd bound \<and> source_projection spec ctx (map snd bound) = Inr (bp_projection bp) \<and>
    bound_in_order ctx (map_of bound) {}
      (filter (\<lambda>e. expression_name e \<notin> set (skipped_names (bp_skipped bp))) es)"
proof -
  from assms(1) obtain ctx st lookups where ctx: "binding_context spec dtypes document = Inr ctx"
    and st: "bind_expressions ctx document = Inr st"
    and p: "source_projection spec ctx (map snd (bs_bound st)) = Inr (bp_projection bp)"
    and bp: "bp_bindings bp = map snd (bs_bound st)" "bp_skipped bp = bs_skipped st"
    by (auto simp: build_binding_plan_def res_simps Let_def)
  from assms(3) have wf: "distinct_aliases (cs_lookups spec)" "expands_in_place spec"
    by (simp_all add: well_formed_inputs_def)
  from binding_context_ok [OF ctx wf] have ok: "context_ok ctx" "bc_dtypes ctx = dtypes" "bc_lookups ctx = cs_lookups spec"
    "load_column_alias_registry (cs_alias_files spec) = Inr (bc_registry ctx)" by auto
  have run: "res_fold (bind_expression ctx) es \<lparr>bs_bound = [], bs_available = [], bs_skipped = []\<rparr> = Inr st"
    using st by (simp add: bind_expressions_def for_expressions_eq [OF assms(2)])
  from bind_loop [OF run _ _ well_formed_names [OF assms(3)]] ok wf(1)
  have "bound_wf ctx (bs_bound st)" "bound_in_order ctx (map_of (bs_bound st)) {}
      (filter (\<lambda>e. expression_name e \<notin> set (skipped_names (bs_skipped st))) es)"
    by (auto simp: bound_wf_def skipped_names_def)
  with ok p bp show ?thesis by auto
qed

lemma closure_contribution:
  assumes "distinct_names es" and "evaluable es" and "n \<in> dependency_closure (named_expressions es) outputs"
    and "\<forall>e \<in> set es. \<exists>i. map_of resolved (expression_name e) = Some i \<and>
       set (in_columns i) = (\<Union>r \<in> set (references e). contribution ctx bound (map_of resolved) r)"
    and "\<forall>n \<in> set outputs. contribution ctx bound (map_of resolved) n \<subseteq> C"
  shows "contribution ctx bound (map_of resolved) n \<subseteq> C"
proof -
  from assms(3) obtain first where "first \<in> set outputs" and "(first, n) \<in> (dependency_edges (named_expressions es))\<^sup>*"
    by (auto simp: dependency_closure_def)
  from this(2) show ?thesis
  proof (induction rule: rtrancl_induct)
    case base
    then show ?case using assms(5) \<open>first \<in> set outputs\<close> by blast
  next
    case (step m k)
    from step(2) have k: "k \<in> set (dependencies_of (named_expressions es) m)" by (simp add: dependency_edges_def)
    then obtain e where e: "map_of (named_expressions es) m = Some e"
      by (cases "map_of (named_expressions es) m") (auto simp: dependencies_of_def)
    then have e': "e \<in> set es" "expression_name e = m" using named_expressions_lookup [OF assms(1)] by (auto simp: expression_name_def)
    have "k \<in> set (references e)"
      using k e by (auto simp: dependencies_of_def expression_dependencies_def expression_column_references_def
          references_def expression_node_def split: pyval.splits if_splits)
    with assms(4) e' step.IH show ?case by (fastforce simp: contribution_def)
  qed
qed

text \<open>What a run plan consists of.\<close>

definition run_facts ::
  "calc_spec \<Rightarrow> (string \<times> string) list \<Rightarrow> pydict list \<Rightarrow> calc_plan \<Rightarrow> bind_context \<Rightarrow> (string \<times> dependency_binding) list \<Rightarrow>
   pydict list \<Rightarrow> (string \<times> inputs) list \<Rightarrow> fingerprint list \<Rightarrow> (string \<times> string) list \<Rightarrow> bool" where
  "run_facts spec dtypes es plan ctx bound active resolved raw compact \<longleftrightarrow>
    context_ok ctx \<and> bc_dtypes ctx = dtypes \<and> bc_lookups ctx = cs_lookups spec \<and>
    load_column_alias_registry (cs_alias_files spec) = Inr (bc_registry ctx) \<and> bound_wf ctx bound \<and>
    bp_bindings (cp_binding plan) = map snd bound \<and>
    source_projection spec ctx (map snd bound) = Inr (bp_projection (cp_binding plan)) \<and>
    ir_expressions (cp_ir plan) = Inr active \<and> set active \<subseteq> set es \<and> distinct_names active \<and> in_dependency_order active \<and>
    bound_in_order ctx (map_of bound) {} active \<and>
    list_all2 (\<lambda>e f. fp_name f = expression_name e \<and>
      (\<exists>i. map_of resolved (expression_name e) = Some i \<and> set (fp_columns f) = set (in_columns i) \<and>
        set (in_columns i) = (\<Union>r \<in> set (references e). contribution ctx (map_of bound) (map_of resolved) r))) active raw \<and>
    fst ` set resolved = set (map expression_name active) \<and>
    cp_fingerprints plan = map (\<lambda>f. f\<lparr>fp_name := published_name compact f\<rparr>) raw \<and>
    cp_fact_sources plan = fact_source_names compact raw \<and> length (fact_source_names compact raw) = length raw"

lemma run_plan_facts:
  assumes "build_calculated_fact_plan sha spec dtypes document = Inr plan" and "ir_expressions document = Inr es"
    and "well_formed_inputs spec es"
  shows "\<exists>ctx bound active resolved raw compact. run_facts spec dtypes es plan ctx bound active resolved raw compact"
proof -
  from assms(1) obtain binding logical expressions raw where
    binding: "build_binding_plan sha spec document dtypes = Inr binding"
    and active: "filter_expression_ir document (skipped_names (bp_skipped binding)) = Inr (cp_ir plan)"
    and derive: "derive_expression_fingerprint_specs sha spec (cp_ir plan) (bp_bindings binding) = Inr raw"
    and plan: "length (fact_source_names (compact_names spec expressions) raw) = length raw" "cp_binding plan = binding"
      "cp_fingerprints plan = map (\<lambda>f. f\<lparr>fp_name := published_name (compact_names spec expressions) f\<rparr>) raw"
      "cp_fact_sources plan = fact_source_names (compact_names spec expressions) raw"
    by (auto simp: build_calculated_fact_plan_def res_simps Let_def)
  from binding_plan_facts [OF binding assms(2,3)] obtain ctx bound where
    ok: "context_ok ctx" "bc_dtypes ctx = dtypes" "bc_lookups ctx = cs_lookups spec"
      "load_column_alias_registry (cs_alias_files spec) = Inr (bc_registry ctx)" "bound_wf ctx bound"
      "bp_bindings binding = map snd bound" "source_projection spec ctx (map snd bound) = Inr (bp_projection binding)"
    and order: "bound_in_order ctx (map_of bound) {}
      (filter (\<lambda>e. expression_name e \<notin> set (skipped_names (bp_skipped binding))) es)" by blast
  let ?active = "filter (\<lambda>e. expression_name e \<notin> set (skipped_names (bp_skipped binding))) es"
  have ir: "ir_expressions (cp_ir plan) = Inr ?active"
    using filter_expression_ir_expressions [OF assms(2), of "skipped_names (bp_skipped binding)"] active
    by (simp add: expression_name_def)
  have wf: "distinct_names ?active" "in_dependency_order ?active" "\<forall>e \<in> set ?active. expression_name e \<noteq> []"
    using assms(3) by (auto simp: well_formed_inputs_def distinct_names_iff distinct_map_filter list_all_iff in_dependency_order_filter)
  from fingerprint_loop [OF ok(1), of bound "[]" ?active sha "[]"] order wf obtain resolved more where
    run: "res_fold (fingerprint_expression sha (bc_lookups ctx) (bc_registry ctx) bound) ?active ([], []) = Inr (resolved, more)"
    and keys: "fst ` set resolved = set (map expression_name ?active)"
    and all: "list_all2 (\<lambda>e f. fp_name f = expression_name e \<and>
      (\<exists>i. map_of resolved (expression_name e) = Some i \<and> set (fp_columns f) = set (in_columns i) \<and>
        set (in_columns i) = (\<Union>r \<in> set (references e). contribution ctx (map_of bound) (map_of resolved) r))) ?active more"
    by (auto simp: distinct_names_iff)
  have "raw = more"
    using derive run ok by (simp add: derive_expression_fingerprint_specs_def for_expressions_eq [OF ir] bindings_by_name_bound)
  with ok order ir wf keys all plan
  have "run_facts spec dtypes es plan ctx bound ?active resolved raw (compact_names spec expressions)"
    unfolding run_facts_def by auto
  then show ?thesis by blast
qed

lemma leaf_contribution_bounded:
  assumes "bound_in_order ctx bound known es" and "\<forall>r b. bound r = Some b \<longrightarrow> leaf_ok ctx b \<longrightarrow> set (leaf_inputs ctx b) \<subseteq> Q"
    and "\<forall>e \<in> set es. \<exists>i. resolved (expression_name e) = Some i \<and>
       set (in_columns i) = (\<Union>r \<in> set (references e). contribution ctx bound resolved r)"
    and "\<forall>r \<in> known. \<exists>i. resolved r = Some i \<and> set (in_columns i) \<subseteq> Q"
    and "\<forall>r. resolved r \<noteq> None \<longrightarrow> r \<in> known \<union> set (map expression_name es)"
    and "in_dependency_order es" and "e \<in> set es" and "resolved (expression_name e) = Some i"
  shows "set (in_columns i) \<subseteq> Q"
  using assms
proof (induction es arbitrary: known)
  case (Cons x es)
  have first: "\<exists>i. resolved (expression_name x) = Some i \<and> set (in_columns i) \<subseteq> Q"
  proof -
    from Cons.prems(3) obtain i where i: "resolved (expression_name x) = Some i"
      "set (in_columns i) = (\<Union>r \<in> set (references x). contribution ctx bound resolved r)" by auto
    have "contribution ctx bound resolved r \<subseteq> Q" if r: "r \<in> set (references x)" for r
    proof (cases "resolved r")
      case None
      then have "r \<notin> known" using Cons.prems(4) by auto
      with Cons.prems(1) r obtain b where "bound r = Some b" "leaf_ok ctx b" by auto
      with None Cons.prems(2) show ?thesis by (auto simp: contribution_def)
    next
      case (Some j)
      with r Cons.prems(5,6) have "r \<in> known" by auto
      with Cons.prems(4) Some show ?thesis by (fastforce simp: contribution_def)
    qed
    with i show ?thesis by auto
  qed
  show ?case
  proof (cases "e = x")
    case True
    with first Cons.prems(8) show ?thesis by auto
  next
    case False
    show ?thesis
      by (rule Cons.IH [where known = "insert (expression_name x) known"]) (use Cons.prems first False in auto)
  qed
qed simp

lemma fingerprint_columns_bounded:
  assumes "build_calculated_fact_plan sha spec dtypes document = Inr plan" and "ir_expressions document = Inr es"
    and "well_formed_inputs spec es" and "f \<in> set (cp_fingerprints plan)" and "c \<in> set (fp_columns f)"
  shows "c \<in> set (bp_projection (cp_binding plan)) \<and> has_column dtypes c"
proof -
  from run_plan_facts [OF assms(1-3)] obtain ctx bound active resolved raw compact where
    facts: "run_facts spec dtypes es plan ctx bound active resolved raw compact" by blast
  note run = facts [unfolded run_facts_def]
  from run have ok: "context_ok ctx" "bc_dtypes ctx = dtypes"
      "source_projection spec ctx (map snd bound) = Inr (bp_projection (cp_binding plan))" by blast+
  from run have order: "bound_in_order ctx (map_of bound) {} active" "in_dependency_order active" by blast+
  from run have all: "list_all2 (\<lambda>e f. fp_name f = expression_name e \<and>
      (\<exists>i. map_of resolved (expression_name e) = Some i \<and> set (fp_columns f) = set (in_columns i) \<and>
        set (in_columns i) = (\<Union>r \<in> set (references e). contribution ctx (map_of bound) (map_of resolved) r))) active raw" by blast
  from run have keys: "fst ` set resolved = set (map expression_name active)"
    and plan: "cp_fingerprints plan = map (\<lambda>f. f\<lparr>fp_name := published_name compact f\<rparr>) raw" by blast+
  let ?Q = "{c \<in> set (bp_projection (cp_binding plan)). has_column dtypes c}"
  from assms(4,5) plan obtain f0 where f0: "f0 \<in> set raw" "c \<in> set (fp_columns f0)" by auto
  from list_all2_member2 [OF all f0(1)] obtain e i where e: "e \<in> set active"
    "map_of resolved (expression_name e) = Some i" "set (fp_columns f0) = set (in_columns i)" by blast
  have leaf: "set (leaf_inputs ctx b) \<subseteq> ?Q" if "map_of bound r = Some b" "leaf_ok ctx b" for r b
  proof -
    from that(1) have "b \<in> set (map snd bound)" by (force dest: map_of_SomeD)
    from projection_covers [OF ok(3,1) this that(2)] leaf_inputs_are_columns [OF ok(1) that(2)] ok(2)
    show ?thesis by auto
  qed
  have fixed: "\<forall>e \<in> set active. \<exists>i. map_of resolved (expression_name e) = Some i \<and>
       set (in_columns i) = (\<Union>r \<in> set (references e). contribution ctx (map_of bound) (map_of resolved) r)"
    using list_all2_member [OF all] by blast
  have "set (in_columns i) \<subseteq> ?Q"
  proof (rule leaf_contribution_bounded [OF order(1) _ fixed _ _ order(2) e(1,2)])
    show "\<forall>r b. map_of bound r = Some b \<longrightarrow> leaf_ok ctx b \<longrightarrow> set (leaf_inputs ctx b) \<subseteq> ?Q" using leaf by blast
    show "\<forall>r. map_of resolved r \<noteq> None \<longrightarrow> r \<in> {} \<union> set (map expression_name active)"
      using keys by (simp add: map_of_eq_None_iff)
  qed simp
  with e f0 show ?thesis by auto
qed

text \<open>
  C39: what a calculation depends on is what the run reads. Every column in the fingerprint of a
  calculated output - its physical inputs, through all the expressions it is computed from and the
  keys of the lookups it uses - is a column of the source, and is in the projection that the run
  reads. So a change of the source that a fingerprint does not see cannot reach the output, and no
  input of it is left unread.
\<close>

theorem fingerprints_cover_inputs:
  assumes "build_calculated_fact_plan sha spec dtypes document = Inr plan" and "ir_expressions document = Inr es"
    and "well_formed_inputs spec es"
  shows "list_all (\<lambda>f. set (fp_columns f) \<subseteq> set (bp_projection (cp_binding plan)) \<and>
      list_all (has_column dtypes) (fp_columns f)) (cp_fingerprints plan)"
  using fingerprint_columns_bounded [OF assms] by (auto simp: list_all_iff)

section \<open>Tasks have what they need\<close>

text \<open>A reference of a task's expression: another of its expressions, a projected column, or a column of a
  lookup whose keys are projected.\<close>

definition reference_available :: "task_request \<Rightarrow> pydict list \<Rightarrow> string \<Rightarrow> bool" where
  "reference_available task es r \<longleftrightarrow>
     r \<in> set (map expression_name es) \<or> r \<in> set (map fst (tr_projection task)) \<or>
     list_ex (\<lambda>c. r \<in> set (map snd (lg_values c)) \<and>
                  set (lg_source_keys c) \<subseteq> set (map fst (tr_projection task))) (tr_lookups task)"

lemma dict_of_pairs_lookup:
  assumes "r \<in> fst ` set ps" and "\<And>v. (r, v) \<in> set ps \<Longrightarrow> v = w"
  shows "map_of (dict_of_pairs ps) r = Some w"
proof -
  have "map_of (rev ps) r \<noteq> None" using assms(1) by (simp add: map_of_eq_None_iff)
  then obtain v where v: "map_of (rev ps) r = Some v" by blast
  moreover from map_of_SomeD [OF v] assms(2) have "v = w" by simp
  ultimately show ?thesis by (simp add: map_of_dict_of_pairs)
qed

lemma logical_alias:
  assumes "bound_wf ctx bound" and "map_of (bc_registry ctx) r = Some p"
    and "(\<exists>b. map_of bound r = Some b \<and> db_kind b = KAlias) \<or> r \<in> set (concat (map lf_source_keys (cs_lookups spec)))"
  shows "(r, p) \<in> set (logical_aliases spec (bc_registry ctx) (map snd bound))"
proof -
  let ?A = "map (\<lambda>b. (db_logical b, db_physical b)) (filter (\<lambda>b. db_kind b = KAlias) (map snd bound))"
  let ?B = "map (\<lambda>k. (k, get_or (bc_registry ctx) k k))
    (filter (\<lambda>k. map_of (bc_registry ctx) k \<noteq> None) (concat (map lf_source_keys (cs_lookups spec))))"
  have bound: "map_of bound (db_logical b) = Some b" if "b \<in> set (map snd bound)" for b
  proof -
    from that obtain n where "(n, b) \<in> set bound" by auto
    with assms(1) show ?thesis by (auto simp: bound_wf_def dict_wf_def)
  qed
  have "v = p" if "(r, v) \<in> set ?A" for v
  proof -
    from that obtain b where b: "b \<in> set (map snd bound)" "db_kind b = KAlias" "db_logical b = r" "db_physical b = v" by auto
    with assms(1) bound [OF b(1)] have "db_kind b = KExpression \<or> leaf_ok ctx b" unfolding bound_wf_def by blast
    with b(2) have "leaf_ok ctx b" by simp
    with b assms(2) show ?thesis by (simp add: leaf_ok_def)
  qed
  moreover have "v = p" if "(r, v) \<in> set ?B" for v using that assms(2) by (auto simp: get_or_def)
  moreover have "r \<in> fst ` set (?A @ ?B)"
    using assms(3)
  proof
    assume "\<exists>b. map_of bound r = Some b \<and> db_kind b = KAlias"
    then obtain b where b: "map_of bound r = Some b" "db_kind b = KAlias" by blast
    with assms(1) have "db_logical b = r" "b \<in> set (map snd bound)" by (force simp: bound_wf_def dest: map_of_SomeD)+
    with b show ?thesis by (force simp: image_iff)
  next
    assume "r \<in> set (concat (map lf_source_keys (cs_lookups spec)))"
    with assms(2) have "(r, get_or (bc_registry ctx) r r) \<in> set ?B" by auto
    then show ?thesis by (force simp: image_iff)
  qed
  ultimately have "map_of (dict_of_pairs (?A @ ?B)) r = Some p"
    by (intro dict_of_pairs_lookup) (unfold set_append, blast+)
  then show ?thesis unfolding logical_aliases_def by (rule map_of_SomeD)
qed

lemma in_order_leaf:
  "bound_in_order ctx bound known es \<Longrightarrow> e \<in> set es \<Longrightarrow> r \<in> set (references e) \<Longrightarrow>
   r \<notin> known \<Longrightarrow> r \<notin> set (map expression_name es) \<Longrightarrow> \<exists>b. bound r = Some b \<and> leaf_ok ctx b"
  by (induction es arbitrary: known) auto

lemma in_order_evaluable: "bound_in_order ctx bound known es \<Longrightarrow> evaluable es"
  by (induction es arbitrary: known) (auto simp: evaluable_def)

text \<open>A leaf whose columns are projected is available to the task.\<close>

definition task_columns :: "calc_spec \<Rightarrow> calc_plan \<Rightarrow> string list \<Rightarrow> string list \<Rightarrow> string set" where
  "task_columns spec plan names available =
     {c \<in> set (bp_projection (cp_binding plan)). c \<in> set (required_physical spec plan names) \<and> c \<in> set available}"

lemma leaf_available:
  assumes "run_facts spec dtypes es plan ctx bound active resolved raw compact"
    and "projection_columns spec plan names available = Inr projection"
    and "map_of bound r = Some b" and "leaf_ok ctx b"
    and "set (leaf_inputs ctx b) \<subseteq> task_columns spec plan names available"
    and "tr_projection task = projection" and "tr_lookups task = lookup_enrich_configs spec plan"
  shows "reference_available task es' r"
proof -
  note run = assms(1) [unfolded run_facts_def]
  from run have ok: "context_ok ctx" "bound_wf ctx bound" "bc_lookups ctx = cs_lookups spec"
    "load_column_alias_registry (cs_alias_files spec) = Inr (bc_registry ctx)"
    "source_projection spec ctx (map snd bound) = Inr (bp_projection (cp_binding plan))"
    "bp_bindings (cp_binding plan) = map snd bound" by blast+
  let ?C = "task_columns spec plan names available"
  let ?physical = "map (\<lambda>n. (n, n)) (filter (\<lambda>n. n \<in> set (required_physical spec plan names) \<and> n \<in> set available)
    (bp_projection (cp_binding plan)))"
  have projection: "projection = ?physical @
      filter (\<lambda>(logical, p). p \<in> set (required_physical spec plan names) \<and> logical \<notin> set (map fst ?physical) \<and> p \<in> set available)
        (logical_aliases spec (bc_registry ctx) (map snd bound))"
    using assms(2) unfolding projection_columns_def ok Let_def res_bind_Inr by blast
  have column: "c \<in> set (map fst projection)" if "c \<in> ?C" for c
    using that by (auto simp: projection task_columns_def image_iff)
  have aliased: "k \<in> set (map fst projection)"
    if "map_of (bc_registry ctx) k = Some p" "p \<in> ?C"
      "(\<exists>b. map_of bound k = Some b \<and> db_kind b = KAlias) \<or> k \<in> set (concat (map lf_source_keys (cs_lookups spec)))" for k p
  proof (cases "k \<in> ?C")
    case False
    with logical_alias [OF ok(2) that(1,3)] that(2) have "(k, p) \<in> set projection"
      by (auto simp: projection task_columns_def)
    then show ?thesis by force
  qed (rule column)
  from ok(2) assms(3) have b: "db_logical b = r" "b \<in> set (map snd bound)"
    by (force simp: bound_wf_def dest: map_of_SomeD)+
  show ?thesis
  proof (cases "db_kind b")
    case KSource
    with assms(4,5) b column show ?thesis by (auto simp: leaf_ok_def leaf_inputs_def reference_available_def assms(6))
  next
    case KAlias
    with assms(3,4,5) b aliased [of r "db_physical b"] show ?thesis
      by (auto simp: leaf_ok_def leaf_inputs_def reference_available_def assms(6))
  next
    case KExpression
    with assms(4) show ?thesis by (simp add: leaf_ok_def)
  next
    case KLookup
    from leaf_lookup [OF ok(1) assms(4) KLookup] obtain l where l: "l \<in> set (cs_lookups spec)" "db_lookup b = Some (lf_alias l)"
      "lookup_named (bc_lookups ctx) (db_lookup b) = Some l" using ok(3) by auto
    let ?c = "\<lparr>lg_alias = lf_alias l, lg_source_keys = lf_source_keys l, lg_lookup_keys = lf_lookup_keys l,
                  lg_values = dict_fromkeys (map (\<lambda>b. (db_physical b, db_logical b))
                    (filter (\<lambda>b. db_kind b = KLookup \<and> db_lookup b = Some (lf_alias l)) (bp_bindings (cp_binding plan))))\<rparr>"
    have pair: "(db_physical b, r) \<in> set (lg_values ?c)" using KLookup l b ok(6) by auto
    have "lg_values ?c \<noteq> []" by (rule length_greater_0_conv [THEN iffD1, OF length_pos_if_in_set [OF pair]])
    with l(1) have config: "?c \<in> set (lookup_enrich_configs spec plan)"
      unfolding lookup_enrich_configs_def by auto
    have "k \<in> set (map fst projection)" if k: "k \<in> set (lf_source_keys l)" for k
    proof -
      have c: "get_or (bc_registry ctx) k k \<in> ?C" using assms(5) KLookup l(3) k by (auto simp: leaf_inputs_def)
      show ?thesis
      proof (cases "map_of (bc_registry ctx) k")
        case None
        with c column show ?thesis by (simp add: get_or_def)
      next
        case (Some p)
        with c k l(1) show ?thesis by (intro aliased [OF Some]) (auto simp: get_or_def)
      qed
    qed
    then have keys: "set (lg_source_keys ?c) \<subseteq> set (map fst projection)" by auto
    from pair have "r \<in> set (map snd (lg_values ?c))" by force
    with config keys show ?thesis unfolding reference_available_def assms(6,7) list_ex_iff by blast
  qed
qed

lemma published_names_distinct:
  assumes "length (fact_source_names compact raw) = length raw" and "f \<in> set raw"
  shows "get_or (fact_source_names compact raw) (published_name compact f) (published_name compact f) = fp_name f"
proof -
  let ?ps = "map (\<lambda>f. (published_name compact f, fp_name f)) raw"
  have "distinct (map fst (dict_of_pairs ?ps))" using dict_wf_of_pairs by (simp add: dict_wf_def)
  then have "card (set (map fst (dict_of_pairs ?ps))) = length ?ps"
    using distinct_card assms(1) by (fastforce simp: fact_source_names_def)
  moreover have "set (map fst (dict_of_pairs ?ps)) = set (map fst ?ps)"
    by (simp only: set_map fst_set_dict_of_pairs)
  ultimately have "distinct (map fst ?ps)" by (metis card_distinct length_map)
  then have "map_of (fact_source_names compact raw) (published_name compact f) = Some (fp_name f)"
    using assms(2) unfolding fact_source_names_def by (subst dict_of_distinct_pairs) auto
  then show ?thesis by (simp add: get_or_def)
qed

lemma task_available:
  assumes "build_calculated_fact_plan sha spec dtypes document = Inr plan" and "ir_expressions document = Inr es"
    and "well_formed_inputs spec es"
    and "set names \<subseteq> set (segment_expression_names (cp_fingerprints plan) available)"
  shows "\<exists>task es'. build_task_request spec plan names available = Inr task \<and> ir_expressions (tr_ir task) = Inr es' \<and>
      list_all (\<lambda>n. get_or (cp_fact_sources plan) n n \<in> set (map expression_name es')) names \<and>
      list_all (\<lambda>e. list_all (reference_available task es') (references e)) es'"
proof -
  from run_plan_facts [OF assms(1-3)] obtain ctx bound active resolved raw compact where
    facts: "run_facts spec dtypes es plan ctx bound active resolved raw compact" by blast
  note run = facts [unfolded run_facts_def]
  from run have registry: "load_column_alias_registry (cs_alias_files spec) = Inr (bc_registry ctx)"
    and active: "ir_expressions (cp_ir plan) = Inr active" "distinct_names active" "in_dependency_order active"
    and order: "bound_in_order ctx (map_of bound) {} active" by blast+
  from run have all: "list_all2 (\<lambda>e f. fp_name f = expression_name e \<and>
      (\<exists>i. map_of resolved (expression_name e) = Some i \<and> set (fp_columns f) = set (in_columns i) \<and>
        set (in_columns i) = (\<Union>r \<in> set (references e). contribution ctx (map_of bound) (map_of resolved) r))) active raw" by blast
  from run have keys: "fst ` set resolved = set (map expression_name active)"
    and plan: "cp_fingerprints plan = map (\<lambda>f. f\<lparr>fp_name := published_name compact f\<rparr>) raw"
      "cp_fact_sources plan = fact_source_names compact raw" "length (fact_source_names compact raw) = length raw" by blast+
  let ?C = "task_columns spec plan names available"
  let ?out = "\<lambda>n. get_or (cp_fact_sources plan) n n"
  let ?outputs = "map ?out names"
  have fixed: "\<forall>e \<in> set active. \<exists>i. map_of resolved (expression_name e) = Some i \<and>
       set (in_columns i) = (\<Union>r \<in> set (references e). contribution ctx (map_of bound) (map_of resolved) r)"
    using list_all2_member [OF all] by blast
  have output_of: "?out n \<in> set (map expression_name active) \<and> contribution ctx (map_of bound) (map_of resolved) (?out n) \<subseteq> ?C"
    if n: "n \<in> set names" for n
  proof -
    from n assms(4) obtain f where f: "f \<in> set (cp_fingerprints plan)" "fp_name f = n" "set (fp_columns f) \<subseteq> set available"
      by (auto simp: segment_expression_names_def)
    then obtain f0 where f0: "f0 \<in> set raw" "f = f0\<lparr>fp_name := published_name compact f0\<rparr>" by (auto simp: plan(1))
    with f(2) have "?out n = fp_name f0" using published_names_distinct [OF plan(3) f0(1)] by (auto simp: plan(2))
    moreover from list_all2_member2 [OF all f0(1)] obtain e i where e: "e \<in> set active" "fp_name f0 = expression_name e"
      "map_of resolved (expression_name e) = Some i" "set (fp_columns f0) = set (in_columns i)" by blast
    moreover have "set (fp_columns f) \<subseteq> ?C"
      using fingerprint_columns_bounded [OF assms(1-3) f(1)] f n by (auto simp: task_columns_def required_physical_def)
    ultimately show ?thesis using f0(2) by (auto simp: contribution_def)
  qed
  have eval: "evaluable active" by (rule in_order_evaluable [OF order])
  have "set ?outputs \<subseteq> (\<lambda>e. text_at e ''name'') ` set active"
    using output_of by (auto simp: expression_name_def)
  from subset_of_evaluable [OF active(1,2) eval this] obtain ir where ir: "subset_expression_ir (cp_ir plan) ?outputs = Inr ir" by blast
  let ?needed = "dependency_closure (named_expressions active) ?outputs"
  let ?es = "filter (\<lambda>e. expression_name e \<in> ?needed) active"
  have ir': "ir_expressions ir = Inr ?es"
    using subset_expression_ir_expressions [OF ir] active(1) by (auto simp: expression_name_def)
  obtain projection where projection: "projection_columns spec plan names available = Inr projection"
    by (simp add: projection_columns_def registry Let_def)
  let ?task = "\<lparr>tr_projection = projection, tr_ir = ir, tr_lookups = lookup_enrich_configs spec plan\<rparr>"
  have task: "build_task_request spec plan names available = Inr ?task"
    by (simp add: build_task_request_def projection ir)
  have "?out n \<in> set (map expression_name ?es)" if n: "n \<in> set names" for n
  proof -
    have "?out n \<in> ?needed" by (rule closure_member) (use n in auto)
    with output_of [OF n] show ?thesis by auto
  qed
  moreover have "reference_available ?task ?es r" if e: "e \<in> set ?es" and r: "r \<in> set (references e)" for e r
  proof (cases "r \<in> set (map expression_name active)")
    case True
    then have "map_of (named_expressions active) r \<noteq> None" by (auto simp: named_expressions_None expression_name_def)
    moreover from eval e have "is_dict (get_key e ''expr'')" "walkable (expression_node e)" by (auto simp: evaluable_def list_all_iff)
    ultimately have "r \<in> set (dependencies_of (named_expressions active) (text_at e ''name''))"
      using dependencies_of_references [OF active(2), of e r] e r by (auto simp: references_def)
    with e have "r \<in> ?needed" by (auto intro: closure_dependency simp: expression_name_def)
    with True show ?thesis by (auto simp: reference_available_def)
  next
    case False
    with in_order_leaf [OF order, of e r] e r obtain b where b: "map_of bound r = Some b" "leaf_ok ctx b" by auto
    from False keys have "map_of resolved r = None" by (simp add: map_of_eq_None_iff)
    with b have leaf: "contribution ctx (map_of bound) (map_of resolved) r = set (leaf_inputs ctx b)"
      by (simp add: contribution_def)
    have needed: "expression_name e \<in> ?needed" using e by simp
    have "\<forall>n \<in> set ?outputs. contribution ctx (map_of bound) (map_of resolved) n \<subseteq> ?C"
    proof
      fix n assume "n \<in> set ?outputs"
      then obtain k where "k \<in> set names" "n = ?out k" by auto
      with output_of show "contribution ctx (map_of bound) (map_of resolved) n \<subseteq> ?C" by blast
    qed
    from closure_contribution [OF active(2) eval needed fixed this]
    have "contribution ctx (map_of bound) (map_of resolved) (expression_name e) \<subseteq> ?C" .
    moreover from fixed e r have "contribution ctx (map_of bound) (map_of resolved) r \<subseteq>
        contribution ctx (map_of bound) (map_of resolved) (expression_name e)"
      by (fastforce simp: contribution_def [of _ _ _ "expression_name e"])
    ultimately have "set (leaf_inputs ctx b) \<subseteq> ?C" by (simp add: leaf)
    from leaf_available [OF facts projection b this] show ?thesis by simp
  qed
  ultimately show ?thesis using task ir' by (auto simp: list_all_iff)
qed

section \<open>The columns of a fingerprint as a run\<close>

text \<open>
  Deriving the columns of fingerprints is itself a run of the document, on sets of columns. So the
  subset a task is given has the same physical inputs as the whole document.
\<close>

definition column_engine :: "pydict \<Rightarrow> (string \<Rightarrow> string set) \<Rightarrow> string set" where
  "column_engine node columns = (\<Union>r \<in> set (column_names node). columns r)"

interpretation inputs_run: reference_engine column_engine
  by unfold_locales (auto simp: column_engine_def)

lemma subset_same_columns:
  "distinct_names es \<Longrightarrow> evaluable es \<Longrightarrow> n \<in> dependency_closure (named_expressions es) outputs \<Longrightarrow>
   run_expressions column_engine
     (filter (\<lambda>e. text_at e ''name'' \<in> dependency_closure (named_expressions es) outputs) es) columns n =
   run_expressions column_engine es columns n"
  by (rule inputs_run.closure_run)


text \<open>
  The sample: \<open>a\<close> reads a source column, \<open>b\<close> a column of the lookup \<open>rates\<close> that is keyed by an aliased
  source column, \<open>c\<close> both of them, and \<open>d\<close> a column that nothing provides.
\<close>

definition sample_lookup :: lookup_file where
  "sample_lookup = \<lparr>lf_alias = ''rates'', lf_checksum = ''s1'', lf_source_keys = [''unit''], lf_lookup_keys = [''code''],
     lf_schema = [(''code'', ''string''), (''rate'', ''double'')],
     lf_rows = [[(''code'', VStr ''m''), (''rate'', VFloat ''1.5'')]]\<rparr>"

definition sample_alias_file :: alias_file where
  "sample_alias_file = \<lparr>af_rows = [[(''col'', VStr ''u0''), (''name'', VStr '' unit '')]],
     af_source_field = ''col'', af_alias_field = ''name''\<rparr>"

definition sample_spec :: calc_spec where
  "sample_spec = \<lparr>cs_identity = [''id''], cs_partition = [''id''], cs_include = [], cs_lookups = [sample_lookup],
     cs_alias_files = [sample_alias_file], cs_expand = [], cs_compact = [], cs_wide = False\<rparr>"

definition sample_columns :: "(string \<times> string) list" where
  "sample_columns = [(''id'', ''string''), (''x'', ''int64''), (''u0'', ''string'')]"

definition sample_document :: pydict where
  "sample_document = [(''layers'', VList [VDict [(''expressions'', VList
      [sample_expression ''a'' (column_node ''x''), sample_expression ''b'' (column_node ''rates.rate''),
       sample_expression ''d'' (column_node ''gone'')])],
     VDict [(''expressions'', VList [sample_expression ''c'' (sum_node (column_node ''a'') (column_node ''b''))])]])]"

definition sample_plan :: "calc_plan result" where
  "sample_plan = build_calculated_fact_plan (\<lambda>_. ''h'') sample_spec sample_columns sample_document"

definition sample_document_expressions :: "pydict list" where
  "sample_document_expressions = map dict_of
      [sample_expression ''a'' (column_node ''x''), sample_expression ''b'' (column_node ''rates.rate''),
       sample_expression ''d'' (column_node ''gone''), sample_expression ''c'' (sum_node (column_node ''a'') (column_node ''b''))]"

lemma sample_document_facts:
  "ir_expressions sample_document = Inr sample_document_expressions"
  "well_formed_inputs sample_spec sample_document_expressions"
  by code_simp+

lemma sample_plan_facts:
  "\<exists>plan. sample_plan = Inr plan \<and>
     map (\<lambda>f. (fp_name f, fp_columns f)) (cp_fingerprints plan) = [(''a'', [''x'']), (''b'', [''u0'']), (''c'', [''u0'', ''x''])]"
  "\<exists>plan. sample_plan = Inr plan \<and> set [''c''] \<subseteq> set (segment_expression_names (cp_fingerprints plan) [''id'', ''u0'', ''x''])"
  unfolding sample_plan_def by (rule res_evaluated, code_simp)+

theorem fingerprints_cover_inputs_witness:
  "\<exists>plan. sample_plan = Inr plan \<and>
     map (\<lambda>f. (fp_name f, fp_columns f)) (cp_fingerprints plan) = [(''a'', [''x'']), (''b'', [''u0'']), (''c'', [''u0'', ''x''])] \<and>
     list_all (\<lambda>f. set (fp_columns f) \<subseteq> set (bp_projection (cp_binding plan)) \<and>
       list_all (has_column sample_columns) (fp_columns f)) (cp_fingerprints plan)"
proof -
  from sample_plan_facts(1) obtain plan where p: "sample_plan = Inr plan"
    and f: "map (\<lambda>f. (fp_name f, fp_columns f)) (cp_fingerprints plan) = [(''a'', [''x'']), (''b'', [''u0'']), (''c'', [''u0'', ''x''])]"
    by (elim exE conjE)
  show ?thesis
    by (rule exI, rule conjI, rule p, rule conjI, rule f,
        rule fingerprints_cover_inputs [OF p [unfolded sample_plan_def] sample_document_facts])
qed


text \<open>
  Where it ends: every lookup of the plan is configured, also those that no expression of the task
  uses. The segment without the column \<open>u0\<close> can calculate \<open>a\<close>; its task configures \<open>rates\<close> and does
  not project the key the lookup joins on.
\<close>

lemma unused_lookup_without_key:
  "\<exists>task. res_bind sample_plan (\<lambda>plan. build_task_request sample_spec plan
       (segment_expression_names (cp_fingerprints plan) [''id'', ''x'']) [''id'', ''x'']) = Inr task \<and>
     map fst (tr_projection task) = [''id'', ''x''] \<and> map lg_source_keys (tr_lookups task) = [[''unit'']]"
  unfolding sample_plan_def by (rule res_evaluated) code_simp

end
