(* ===== verification/SegmentAppend.thy ===== *)
theory SegmentAppend
  imports PublishedDatasets CalculatedPlan
begin

text \<open>
  \<open>assets/a0102_calculated_fact/segment_append.py\<close>: appending one generation of part files to the
  dataset of a 0102 asset. The module's transaction is a record that its operations (begin, adopt,
  commit) return updated, next to the files of the dataset root. The second half states what the
  manifest promises its readers, an append-only log of generations in which each run key occurs once,
  and proves it of every interleaving of the operations of several processes.
\<close>

section \<open>The files of the dataset\<close>

text \<open>
  The dataset root of a 0102 asset: its manifest, the file that remembers the last reserved
  sequence number, and the part files in place. The lock makes each operation below a step of its
  own; the manifest and the sequence file are replaced atomically. Of a part file the model keeps its
  path and its Arrow schema.
\<close>

record field =
  fd_name :: string
  fd_type :: string
  fd_nullable :: bool

record append_disk =
  ad_manifest :: "stored_file option"
  ad_sequence :: "stored_file option"
  ad_files :: "(string \<times> field list) list"

definition APPEND_MANIFEST_VERSION :: string where
  "APPEND_MANIFEST_VERSION = ''smoking-data.calculated-fact-manifest.v1''"

definition LONG_FACT :: string where "LONG_FACT = ''long_fact_v1''"
definition WIDE_FACT :: string where "WIDE_FACT = ''wide_calculated_v1''"

definition append_error :: "string \<Rightarrow> py_error" where
  "append_error what = ValidationError (''append.'' @ what)"

definition empty_append_manifest :: "string \<Rightarrow> pydict" where
  "empty_append_manifest contract =
     [(''schema_version'', VStr APPEND_MANIFEST_VERSION), (''contract'', VStr contract),
      (''output_schema'', VNone), (''active_generation_seq'', VNone), (''generations'', VList [])]"

definition read_append_manifest :: "string \<Rightarrow> stored_file option \<Rightarrow> pydict result" where
  "read_append_manifest contract f =
     (case f of
        None \<Rightarrow> Inr (empty_append_manifest contract)
      | Some f \<Rightarrow>
          (case load_json f of
             Some (VDict d) \<Rightarrow>
               raise_if (get_key d ''schema_version'' \<noteq> VStr APPEND_MANIFEST_VERSION \<or>
                         get_key d ''contract'' \<noteq> VStr contract \<or> \<not> is_list (get_key d ''generations''))
                 (append_error ''invalid_manifest'') (Inr d)
           | _ \<Rightarrow> Inl (append_error ''invalid_manifest'')))"

text \<open>\<open>next((item for item in generations if item.get("run_key") == run_key), None)\<close>.\<close>

fun existing_generation :: "string \<Rightarrow> pyval list \<Rightarrow> pydict option result" where
  "existing_generation key [] = Inr None"
| "existing_generation key (item # items) =
     (case item of
        VDict d \<Rightarrow> if get_key d ''run_key'' = VStr key then Inr (Some d) else existing_generation key items
      | _ \<Rightarrow> Inl (AttributeError ''get''))"

text \<open>\<open>d[key]\<close>.\<close>

definition item_at :: "pydict \<Rightarrow> string \<Rightarrow> pyval result" where
  "item_at d k = (case map_of d k of None \<Rightarrow> Inl (KeyError k) | Some v \<Rightarrow> Inr v)"

definition generation_seq_of :: "pyval \<Rightarrow> int result" where
  "generation_seq_of item = (case item of VDict d \<Rightarrow> int_or_zero d ''generation_seq'' | _ \<Rightarrow> Inl (AttributeError ''get''))"

definition max_or_zero :: "int list \<Rightarrow> int" where
  "max_or_zero xs = (case xs of [] \<Rightarrow> 0 | x # xs \<Rightarrow> fold max xs x)"

text \<open>The remembered sequence number; a file that cannot be read counts as 0.\<close>

definition reserved_seq :: "stored_file option \<Rightarrow> int" where
  "reserved_seq f =
     (case Option.bind f load_json of
        Some (VDict d) \<Rightarrow>
          (case map_of d ''last_seq'' of
             Some v \<Rightarrow> (case py_int v of Inr i \<Rightarrow> i | Inl _ \<Rightarrow> 0) | None \<Rightarrow> 0)
      | _ \<Rightarrow> 0)"

definition reserve_generation :: "string \<Rightarrow> string \<Rightarrow> append_disk \<Rightarrow> (int \<times> append_disk) result" where
  "reserve_generation contract key disk =
     res_bind (read_append_manifest contract (ad_manifest disk)) (\<lambda>manifest.
     let generations = items_of (get_key manifest ''generations'') in
     res_bind (existing_generation key generations) (\<lambda>existing.
     case existing of
       Some g \<Rightarrow> res_bind (item_at g ''generation_seq'') (\<lambda>v. res_bind (py_int v) (\<lambda>seq. Inr (seq, disk)))
     | None \<Rightarrow>
         res_bind (res_map generation_seq_of generations) (\<lambda>seqs.
         let seq = max (reserved_seq (ad_sequence disk)) (max_or_zero seqs) + 1 in
         Inr (seq, disk\<lparr>ad_sequence := Some (Json (VDict [(''last_seq'', VInt seq)]))\<rparr>))))"

section \<open>Schemas of wide outputs\<close>

text \<open>A field that was null throughout takes the other side's type.\<close>

definition merge_field :: "field \<times> field \<Rightarrow> field result" where
  "merge_field p = (case p of (expected, actual) \<Rightarrow>
     res_bind (if fd_type expected = ''null'' then Inr (fd_type actual)
               else if fd_type actual = ''null'' then Inr (fd_type expected)
               else if fd_type expected = fd_type actual then Inr (fd_type expected)
               else Inl (ValidationError ''wide_output.schema_mismatch'')) (\<lambda>dtype.
       Inr \<lparr>fd_name = fd_name expected, fd_type = dtype, fd_nullable = (fd_nullable expected \<or> fd_nullable actual)\<rparr>))"

definition merge_wide_schema :: "field list option \<Rightarrow> field list \<Rightarrow> field list result" where
  "merge_wide_schema expected actual =
     (case expected of
        None \<Rightarrow> Inr actual
      | Some known \<Rightarrow>
          raise_if (map fd_name known \<noteq> map fd_name actual) (ValidationError ''wide_output.schema_mismatch'')
            (res_map merge_field (zip known actual)))"

text \<open>
  \<open>_normalize_wide_parquet\<close>: a part whose schema differs from the dataset's is rewritten to it; only
  a column that is null throughout changes its type.
\<close>

definition normalize_field :: "field \<times> field \<Rightarrow> unit result" where
  "normalize_field p = (case p of (field, actual) \<Rightarrow>
     raise_if (\<not> (fd_type actual = ''null'' \<and> fd_type field \<noteq> ''null'') \<and> fd_type actual \<noteq> fd_type field)
       (ValidationError ''wide_output.schema_mismatch'') (Inr ()))"

definition normalize_wide :: "field list \<Rightarrow> field list \<Rightarrow> field list result" where
  "normalize_wide schema actual =
     (if actual = schema then Inr actual
      else res_bind (res_map (\<lambda>field. case find (\<lambda>a. fd_name a = fd_name field) actual of
               None \<Rightarrow> Inl (KeyError (fd_name field)) | Some a \<Rightarrow> normalize_field (field, a)) schema)
             (\<lambda>_. Inr schema))"

section \<open>The transaction\<close>

record staged_part =
  sp_path :: string
  sp_rows :: int
  sp_fields :: "field list"
  sp_segment :: string

record append_transaction =
  at_key :: string
  at_identity :: "string list"
  at_partition :: "string list"
  at_contract :: string
  at_columns :: "string list"
  at_expected :: "field list option"
  at_seq :: int
  at_staged :: "staged_part list"

text \<open>What a task wrote, as Parquet tells: fields, rows, and the distinct values of a column.\<close>

record task_output =
  to_fields :: "field list"
  to_rows :: int
  to_long_schema :: bool
  to_values :: "string \<Rightarrow> pyval list"

text \<open>\<open>_manifest_output_schema\<close>: the schema of the last generation's first part that is in place.\<close>

definition first_schema :: "append_disk \<Rightarrow> pyval list \<Rightarrow> field list option" where
  "first_schema disk files =
     (case List.map_filter (\<lambda>f. map_of (ad_files disk) (text_at (dict_of f) ''path'')) files of
        [] \<Rightarrow> None | schema # _ \<Rightarrow> Some schema)"

fun manifest_output_schema :: "append_disk \<Rightarrow> pyval list \<Rightarrow> field list option" where
  "manifest_output_schema disk [] = None"
| "manifest_output_schema disk (g # gs) =
     (case first_schema disk (items_of (get_key (dict_of g) ''files'')) of
        Some schema \<Rightarrow> Some schema | None \<Rightarrow> manifest_output_schema disk gs)"

definition begin_append ::
  "string \<Rightarrow> string list \<Rightarrow> string list \<Rightarrow> string \<Rightarrow> string list \<Rightarrow> append_disk \<Rightarrow>
   (append_transaction \<times> append_disk) result" where
  "begin_append run_key identity parts contract columns disk =
     (let key = py_strip run_key in
      raise_if (contract \<notin> {LONG_FACT, WIDE_FACT}) (append_error ''invalid_contract'') (
      raise_if (key = []) (append_error ''invalid_run_key'') (
      raise_if (parts = [] \<or> \<not> set parts \<subseteq> set identity) (ValidationError ''incremental.partition_mismatch'') (
      res_bind (read_append_manifest contract (ad_manifest disk)) (\<lambda>manifest.
      res_bind (reserve_generation contract key disk) (\<lambda>(seq, disk').
        Inr (\<lparr>at_key = key, at_identity = identity, at_partition = parts, at_contract = contract,
              at_columns = columns,
              at_expected = (if contract = WIDE_FACT
                then manifest_output_schema disk (rev (items_of (get_key manifest ''generations''))) else None),
              at_seq = seq, at_staged = []\<rparr>, disk')))))))"

text \<open>Percent encoding of a name or value that becomes part of a path.\<close>

definition unreserved :: "char \<Rightarrow> bool" where
  "unreserved c = (let n = code_point c in
     is_digit c \<or> (65 \<le> n \<and> n \<le> 90) \<or> (97 \<le> n \<and> n \<le> 122) \<or> n \<in> {45, 46, 95, 126})"

definition percent_byte :: "nat \<Rightarrow> string" where
  "percent_byte n = [CHR ''%'', upper_ascii_char (hex_digit (n div 16)), upper_ascii_char (hex_digit (n mod 16))]"

definition quote_char :: "char \<Rightarrow> string" where
  "quote_char c = (let n = code_point c in
     if unreserved c then [c]
     else if n < 128 then percent_byte n
     else percent_byte (192 + n div 64) @ percent_byte (128 + n mod 64))"

definition url_quote :: "string \<Rightarrow> string" where
  "url_quote s = concat (map quote_char s)"

definition generation_root :: "int \<Rightarrow> string" where
  "generation_root seq = ''_generations/'' @ padded 20 (nat seq)"

definition part_path :: "int \<Rightarrow> (string \<times> pyval) list \<Rightarrow> nat \<Rightarrow> string" where
  "part_path seq values number =
     generation_root seq @ ''/'' @
     concat (map (\<lambda>(name, value). ''partition-'' @ url_quote name @ ''-'' @ url_quote (py_str value) @ ''/'') values) @
     ''part-'' @ padded 6 number @ ''.parquet''"

definition partition_value :: "task_output \<Rightarrow> string \<Rightarrow> (string \<times> pyval) result" where
  "partition_value out name =
     (case to_values out name of
        [v] \<Rightarrow> raise_if (v = VNone) (ValidationError ''incremental.partition_mismatch'') (Inr (name, v))
      | _ \<Rightarrow> Inl (ValidationError ''incremental.partition_mismatch''))"

definition adopt_parquet_file :: "task_output \<Rightarrow> string \<Rightarrow> append_transaction \<Rightarrow> append_transaction result" where
  "adopt_parquet_file out segment tx =
     raise_if (\<not> set (at_identity tx) \<subseteq> set (map fd_name (to_fields out))) (append_error ''invalid_task_output'') (
     raise_if (at_contract tx = LONG_FACT \<and> \<not> to_long_schema out) (ValidationError ''long_fact.schema_mismatch'') (
     raise_if (at_contract tx \<noteq> LONG_FACT \<and> map fd_name (to_fields out) \<noteq> at_columns tx)
       (ValidationError ''wide_output.schema_mismatch'') (
     res_bind (if at_contract tx = WIDE_FACT
               then res_bind (merge_wide_schema (at_expected tx) (to_fields out)) (\<lambda>s. Inr (Some s))
               else Inr (at_expected tx)) (\<lambda>expected.
     res_bind (res_map (partition_value out) (at_partition tx)) (\<lambda>values.
       Inr (tx\<lparr>at_expected := expected,
               at_staged := at_staged tx @ [\<lparr>sp_path = part_path (at_seq tx) values (length (at_staged tx)),
                 sp_rows = to_rows out, sp_fields = to_fields out, sp_segment = segment\<rparr>]\<rparr>))))))"

section \<open>Committing\<close>

definition file_record :: "(string \<Rightarrow> string) \<Rightarrow> staged_part \<Rightarrow> pyval" where
  "file_record checksum p =
     VDict [(''path'', VStr (sp_path p)), (''rows'', VInt (sp_rows p)), (''sha256'', VStr (checksum (sp_path p))),
            (''source_segment_id'', VStr (sp_segment p))]"

definition generation_record :: "(string \<Rightarrow> string) \<Rightarrow> append_transaction \<Rightarrow> string \<Rightarrow> pydict \<Rightarrow> pydict" where
  "generation_record checksum tx committed_at metadata =
     [(''generation_seq'', VInt (at_seq tx)), (''run_key'', VStr (at_key tx)), (''committed_at'', VStr committed_at),
      (''files'', VList (map (file_record checksum) (at_staged tx))), (''metadata'', VDict metadata)]"

text \<open>\<open>str(schema)\<close> of an Arrow schema is the parameter \<open>show\<close>.\<close>

definition appended_manifest :: "(field list \<Rightarrow> string) \<Rightarrow> append_transaction \<Rightarrow> pydict \<Rightarrow> pydict \<Rightarrow> pydict" where
  "appended_manifest show tx g manifest =
     (let m = dict_put ''generations'' (VList (items_of (get_key manifest ''generations'') @ [VDict g])) manifest;
          m = dict_put ''active_generation_seq'' (VInt (at_seq tx)) m
      in dict_put ''output_schema''
           (case at_expected tx of Some s \<Rightarrow> VStr (show s) | None \<Rightarrow> get_key manifest ''output_schema'') m)"

definition group_part :: "pyval \<Rightarrow> (string \<times> string list) list \<Rightarrow> (string \<times> string list) list result" where
  "group_part item grouped =
     (case item of
        VDict d \<Rightarrow>
          (if py_truthy (get_key d ''source_segment_id'')
           then res_bind (item_at d ''path'') (\<lambda>path.
                  let key = py_str (get_key d ''source_segment_id'') in
                  Inr (dict_put key ((case map_of grouped key of None \<Rightarrow> [] | Some ps \<Rightarrow> ps) @ [py_str path]) grouped))
           else Inr grouped)
      | _ \<Rightarrow> Inl (AttributeError ''get''))"

definition parts_by_segment :: "pyval list \<Rightarrow> (string \<times> string list) list result" where
  "parts_by_segment files = res_fold group_part files []"

record appended_generation =
  ag_seq :: int
  ag_files :: "string list"
  ag_reused :: bool
  ag_parts :: "(string \<times> string list) list"

definition file_path :: "pyval \<Rightarrow> string result" where
  "file_path item =
     (case item of VDict d \<Rightarrow> res_bind (item_at d ''path'') (\<lambda>v. Inr (py_str v)) | _ \<Rightarrow> Inl (TypeError ''index''))"

definition reused_generation :: "pydict \<Rightarrow> appended_generation result" where
  "reused_generation g =
     res_bind (item_at g ''files'') (\<lambda>files.
     res_bind (py_iter files) (\<lambda>files.
     res_bind (res_map file_path files) (\<lambda>paths.
     res_bind (item_at g ''generation_seq'') (\<lambda>v.
     res_bind (py_int v) (\<lambda>seq.
     res_bind (parts_by_segment files) (\<lambda>parts.
       Inr \<lparr>ag_seq = seq, ag_files = paths, ag_reused = True, ag_parts = parts\<rparr>))))))"

text \<open>A part moves into place; in a wide dataset it takes the dataset's schema first.\<close>

definition place_part :: "append_transaction \<Rightarrow> staged_part \<Rightarrow> (string \<times> field list) result" where
  "place_part tx p =
     (if at_contract tx = WIDE_FACT
      then (case at_expected tx of
              None \<Rightarrow> Inl (ValidationError ''assert'')
            | Some schema \<Rightarrow> res_bind (normalize_wide schema (sp_fields p)) (\<lambda>fields. Inr (sp_path p, fields)))
      else Inr (sp_path p, sp_fields p))"

definition commit_append ::
  "(field list \<Rightarrow> string) \<Rightarrow> (string \<Rightarrow> string) \<Rightarrow> string \<Rightarrow> pydict \<Rightarrow> append_transaction \<Rightarrow> append_disk \<Rightarrow>
   (appended_generation \<times> append_disk) result" where
  "commit_append show checksum committed_at metadata tx disk =
     raise_if (at_staged tx = []) (append_error ''empty_generation'') (
     res_bind (read_append_manifest (at_contract tx) (ad_manifest disk)) (\<lambda>manifest.
     res_bind (existing_generation (at_key tx) (items_of (get_key manifest ''generations''))) (\<lambda>existing.
     case existing of
       Some g \<Rightarrow> res_bind (reused_generation g) (\<lambda>reused. Inr (reused, disk))
     | None \<Rightarrow>
         (let g = generation_record checksum tx committed_at metadata;
              paths = map sp_path (at_staged tx)
          in res_bind (res_map (place_part tx) (at_staged tx)) (\<lambda>placed.
             res_bind (parts_by_segment (map (file_record checksum) (at_staged tx))) (\<lambda>parts.
             Inr (\<lparr>ag_seq = at_seq tx, ag_files = paths, ag_reused = False, ag_parts = parts\<rparr>,
                  disk\<lparr>ad_manifest := Some (Json (VDict (appended_manifest show tx g manifest))),
                       ad_files := ad_files disk @ placed\<rparr>)))))))"

text \<open>
  A commit that is killed after it moved \<open>n\<close> parts leaves them in place, without a generation that
  names them; one that raises removes them again and leaves the dataset as it was.
\<close>

definition killed_commit :: "nat \<Rightarrow> append_transaction \<Rightarrow> append_disk \<Rightarrow> append_disk" where
  "killed_commit n tx disk =
     (case res_bind (read_append_manifest (at_contract tx) (ad_manifest disk))
             (\<lambda>manifest. existing_generation (at_key tx) (items_of (get_key manifest ''generations''))) of
        Inr None \<Rightarrow>
          (case res_map (place_part tx) (take n (at_staged tx)) of
             Inr placed \<Rightarrow> disk\<lparr>ad_files := ad_files disk @ placed\<rparr> | Inl _ \<Rightarrow> disk)
      | _ \<Rightarrow> disk)"

section \<open>The log a dataset holds\<close>

record file_entry =
  fe_path :: string
  fe_rows :: int
  fe_sha :: string
  fe_segment :: string

record generation =
  ge_seq :: int
  ge_key :: string
  ge_at :: string
  ge_files :: "file_entry list"
  ge_metadata :: pydict

definition file_document :: "file_entry \<Rightarrow> pyval" where
  "file_document f = VDict [(''path'', VStr (fe_path f)), (''rows'', VInt (fe_rows f)), (''sha256'', VStr (fe_sha f)),
     (''source_segment_id'', VStr (fe_segment f))]"

definition generation_to_dict :: "generation \<Rightarrow> pydict" where
  "generation_to_dict g =
     [(''generation_seq'', VInt (ge_seq g)), (''run_key'', VStr (ge_key g)), (''committed_at'', VStr (ge_at g)),
      (''files'', VList (map file_document (ge_files g))), (''metadata'', VDict (ge_metadata g))]"

definition log_items :: "generation list \<Rightarrow> pyval list" where
  "log_items gens = map (\<lambda>g. VDict (generation_to_dict g)) gens"

text \<open>The manifest file holds exactly the log \<open>gens\<close>; a dataset without one holds the empty log.\<close>

definition holds_log :: "string \<Rightarrow> stored_file option \<Rightarrow> generation list \<Rightarrow> bool" where
  "holds_log contract f gens \<longleftrightarrow>
     (f = None \<and> gens = []) \<or>
     (\<exists>m. f = Some (Json (VDict m)) \<and> json_plain (VDict m) \<and>
        get_key m ''schema_version'' = VStr APPEND_MANIFEST_VERSION \<and> get_key m ''contract'' = VStr contract \<and>
        get_key m ''generations'' = VList (log_items gens))"

lemma plain_file_document [simp]: "json_plain (file_document f)"
  by (simp add: file_document_def)

lemma log_items_plain: "list_all json_plain (log_items gens) = list_all (\<lambda>g. json_plain (VDict (ge_metadata g))) gens"
  by (induction gens) (auto simp: log_items_def generation_to_dict_def list_all_iff)

lemma read_log:
  assumes "holds_log contract f gens"
  shows "\<exists>m. read_append_manifest contract f = Inr m \<and> items_of (get_key m ''generations'') = log_items gens \<and>
    get_key m ''schema_version'' = VStr APPEND_MANIFEST_VERSION \<and> get_key m ''contract'' = VStr contract \<and> json_plain (VDict m)"
proof (cases f)
  case None
  with assms have "gens = []" by (auto simp: holds_log_def)
  with None show ?thesis
    by (simp add: read_append_manifest_def empty_append_manifest_def get_key_def log_items_def)
next
  case (Some g)
  with assms obtain m where m: "g = Json (VDict m)" "json_plain (VDict m)"
    "get_key m ''schema_version'' = VStr APPEND_MANIFEST_VERSION" "get_key m ''contract'' = VStr contract"
    "get_key m ''generations'' = VList (log_items gens)" by (auto simp: holds_log_def)
  have "load_json g = Some (VDict m)" using m(1) json_safe_plain [OF m(2)] by (simp add: load_json_def)
  then have "read_append_manifest contract f = Inr m"
    unfolding read_append_manifest_def Some using m(3-5) by simp
  with m show ?thesis by simp
qed

lemma find_generation:
  "existing_generation key (log_items gens) = Inr (map_option generation_to_dict (find (\<lambda>g. ge_key g = key) gens))"
  by (induction gens) (simp_all add: log_items_def generation_to_dict_def get_key_def)

lemma seqs_of_log: "res_map generation_seq_of (log_items gens) = Inr (map ge_seq gens)"
  by (induction gens)
    (auto simp: log_items_def generation_seq_of_def int_or_zero_def generation_to_dict_def get_key_def py_or_def)

lemma fold_max_start: "(y :: int) \<le> fold max ys y"
proof (induction ys arbitrary: y)
  case (Cons a ys)
  have "y \<le> max a y" by simp
  also have "\<dots> \<le> fold max ys (max a y)" by (rule Cons.IH)
  finally show ?case by simp
qed simp

lemma fold_max_upper: "x \<in> set ys \<Longrightarrow> (x :: int) \<le> fold max ys y"
proof (induction ys arbitrary: y)
  case (Cons a ys)
  have "a \<le> max a y" by simp
  also have "\<dots> \<le> fold max ys (max a y)" by (rule fold_max_start)
  finally show ?case using Cons by auto
qed simp

lemma max_or_zero_upper: "x \<in> set xs \<Longrightarrow> x \<le> max_or_zero xs"
  by (auto simp: max_or_zero_def fold_max_start fold_max_upper split: list.splits)

definition last_seq :: "append_disk \<Rightarrow> generation list \<Rightarrow> int" where
  "last_seq disk gens = max (reserved_seq (ad_sequence disk)) (max_or_zero (map ge_seq gens))"

lemma reserve_log:
  assumes "holds_log contract (ad_manifest disk) gens"
  shows "reserve_generation contract key disk =
    Inr (case find (\<lambda>g. ge_key g = key) gens of
           Some g \<Rightarrow> (ge_seq g, disk)
         | None \<Rightarrow> (last_seq disk gens + 1, disk\<lparr>ad_sequence := Some (Json (VDict [(''last_seq'', VInt (last_seq disk gens + 1))]))\<rparr>))"
proof -
  from read_log [OF assms] obtain m where m: "read_append_manifest contract (ad_manifest disk) = Inr m"
    "items_of (get_key m ''generations'') = log_items gens" by blast
  show ?thesis
  proof (cases "find (\<lambda>g. ge_key g = key) gens")
    case None
    then show ?thesis by (simp add: reserve_generation_def m find_generation seqs_of_log last_seq_def Let_def)
  next
    case (Some g)
    then show ?thesis
      by (simp add: reserve_generation_def m find_generation item_at_def generation_to_dict_def Let_def)
  qed
qed

lemma reserved_after: "reserved_seq (Some (Json (VDict [(''last_seq'', VInt s)]))) = s"
  by (simp add: reserved_seq_def load_json_def)

definition group_staged :: "staged_part list \<Rightarrow> (string \<times> string list) list" where
  "group_staged parts =
     fold (\<lambda>p grouped. if sp_segment p = [] then grouped
        else dict_put (sp_segment p) ((case map_of grouped (sp_segment p) of None \<Rightarrow> [] | Some ps \<Rightarrow> ps) @ [sp_path p]) grouped)
       parts []"

lemma parts_of_staged: "parts_by_segment (map (file_record checksum) parts) = Inr (group_staged parts)"
proof -
  have "res_fold group_part (map (file_record checksum) parts) grouped = Inr (fold (\<lambda>p grouped. if sp_segment p = [] then grouped
        else dict_put (sp_segment p) ((case map_of grouped (sp_segment p) of None \<Rightarrow> [] | Some ps \<Rightarrow> ps) @ [sp_path p]) grouped)
       parts grouped)" for grouped
    by (induction parts arbitrary: grouped)
      (simp_all add: group_part_def file_record_def get_key_def item_at_def Let_def)
  then show ?thesis by (simp add: parts_by_segment_def group_staged_def)
qed

definition committed_generation :: "(string \<Rightarrow> string) \<Rightarrow> append_transaction \<Rightarrow> string \<Rightarrow> pydict \<Rightarrow> generation" where
  "committed_generation checksum tx committed_at metadata =
     \<lparr>ge_seq = at_seq tx, ge_key = at_key tx, ge_at = committed_at,
      ge_files = map (\<lambda>p. \<lparr>fe_path = sp_path p, fe_rows = sp_rows p, fe_sha = checksum (sp_path p), fe_segment = sp_segment p\<rparr>)
        (at_staged tx),
      ge_metadata = metadata\<rparr>"

lemma committed_record:
  "generation_record checksum tx at metadata = generation_to_dict (committed_generation checksum tx at metadata)"
  by (simp add: generation_record_def generation_to_dict_def committed_generation_def file_record_def file_document_def comp_def)

lemma placed_paths: "res_map (place_part tx) parts = Inr placed \<Longrightarrow> map fst placed = map sp_path parts"
  by (induction parts arbitrary: placed) (auto simp: place_part_def res_simps split: if_splits option.splits)

text \<open>A commit appends one generation, or finds its run key in the log and changes nothing.\<close>

lemma commit_log:
  assumes "holds_log (at_contract tx) (ad_manifest disk) gens" and "at_staged tx \<noteq> []"
    and "find (\<lambda>g. ge_key g = at_key tx) gens = None" and "json_plain (VDict metadata)"
    and "res_map (place_part tx) (at_staged tx) = Inr placed"
  shows "\<exists>f. commit_append show checksum at metadata tx disk =
      Inr (\<lparr>ag_seq = at_seq tx, ag_files = map sp_path (at_staged tx), ag_reused = False, ag_parts = group_staged (at_staged tx)\<rparr>,
           disk\<lparr>ad_manifest := f, ad_files := ad_files disk @ placed\<rparr>) \<and>
    holds_log (at_contract tx) f (gens @ [committed_generation checksum tx at metadata])"
proof -
  from read_log [OF assms(1)] obtain m where m: "read_append_manifest (at_contract tx) (ad_manifest disk) = Inr m"
    "items_of (get_key m ''generations'') = log_items gens" "json_plain (VDict m)"
    "get_key m ''schema_version'' = VStr APPEND_MANIFEST_VERSION" "get_key m ''contract'' = VStr (at_contract tx)" by blast
  let ?g = "committed_generation checksum tx at metadata"
  let ?m = "appended_manifest show tx (generation_to_dict ?g) m"
  have items: "log_items gens @ [VDict (generation_to_dict ?g)] = log_items (gens @ [?g])" by (simp add: log_items_def)
  have "list_all json_plain (log_items gens)"
  proof (cases "get_key m ''generations''")
    case (VList xs)
    then have "(''generations'', VList xs) \<in> set m" by (auto simp: get_key_def split: option.splits dest: map_of_SomeD)
    then have "json_plain (VList xs)" using m(3) by (auto simp: list_all_iff)
    with VList m(2) show ?thesis by simp
  next
    case (VTuple xs)
    then have "(''generations'', VTuple xs) \<in> set m" by (auto simp: get_key_def split: option.splits dest: map_of_SomeD)
    then show ?thesis using m(3) by (auto simp: list_all_iff)
  next
    case (VDict d)
    with m(2) show ?thesis by (cases gens) (auto simp: log_items_def Cons_eq_map_conv)
  next
    case (VStr s)
    with m(2) show ?thesis by (cases gens) (auto simp: log_items_def Cons_eq_map_conv)
  qed (use m(2) in \<open>auto simp: log_items_def\<close>)
  then have plain: "json_plain (VList (log_items (gens @ [?g])))"
    using assms(4) by (simp add: log_items_plain committed_generation_def)
  have "json_plain (get_key m ''output_schema'')"
    using m(3) by (auto simp: get_key_def list_all_iff split: option.splits dest!: map_of_SomeD)
  then have "json_plain (VDict ?m)"
    using m(3) plain by (auto simp del: json_plain.simps simp: appended_manifest_def Let_def m(2) items
        intro!: plain_dict_put split: option.split) (simp_all add: json_plain.simps)
  moreover have "get_key ?m ''schema_version'' = VStr APPEND_MANIFEST_VERSION" "get_key ?m ''contract'' = VStr (at_contract tx)"
    "get_key ?m ''generations'' = VList (log_items (gens @ [?g]))"
    using m(4,5) by (simp_all add: appended_manifest_def get_key_def dict_simps Let_def m(2) [unfolded get_key_def] items)
  ultimately have "holds_log (at_contract tx) (Some (Json (VDict ?m))) (gens @ [?g])"
    unfolding holds_log_def by blast
  moreover have "commit_append show checksum at metadata tx disk =
      Inr (\<lparr>ag_seq = at_seq tx, ag_files = map sp_path (at_staged tx), ag_reused = False, ag_parts = group_staged (at_staged tx)\<rparr>,
           disk\<lparr>ad_manifest := Some (Json (VDict ?m)), ad_files := ad_files disk @ placed\<rparr>)"
    using assms(2,3,5) by (simp add: commit_append_def m find_generation parts_of_staged committed_record Let_def)
  ultimately show ?thesis by blast
qed

definition group_files :: "file_entry list \<Rightarrow> (string \<times> string list) list" where
  "group_files files = group_staged (map (\<lambda>f. \<lparr>sp_path = fe_path f, sp_rows = fe_rows f, sp_fields = [], sp_segment = fe_segment f\<rparr>) files)"

lemma parts_of_files: "parts_by_segment (map file_document files) = Inr (group_files files)"
proof -
  have "res_fold group_part (map file_document files) grouped =
      res_fold group_part (map (file_record (\<lambda>_. [])) (map (\<lambda>f. \<lparr>sp_path = fe_path f, sp_rows = fe_rows f, sp_fields = [], sp_segment = fe_segment f\<rparr>) files)) grouped" for grouped
    by (induction files arbitrary: grouped)
      (auto simp: group_part_def file_record_def file_document_def get_key_def item_at_def res_bind_def split: sum.split)
  from this [of "[]"] show ?thesis
    unfolding parts_by_segment_def [symmetric] parts_of_staged group_files_def .
qed

lemma commit_reuses:
  assumes "holds_log (at_contract tx) (ad_manifest disk) gens" and "at_staged tx \<noteq> []"
    and "find (\<lambda>g. ge_key g = at_key tx) gens = Some g"
  shows "commit_append show checksum at metadata tx disk =
    Inr (\<lparr>ag_seq = ge_seq g, ag_files = map fe_path (ge_files g), ag_reused = True, ag_parts = group_files (ge_files g)\<rparr>, disk)"
proof -
  from read_log [OF assms(1)] obtain m where m: "read_append_manifest (at_contract tx) (ad_manifest disk) = Inr m"
    "items_of (get_key m ''generations'') = log_items gens" by blast
  have "res_map file_path (map file_document fs) = Inr (map fe_path fs)" for fs
    by (induction fs) (simp_all add: file_path_def file_document_def item_at_def)
  then have "reused_generation (generation_to_dict g) =
    Inr \<lparr>ag_seq = ge_seq g, ag_files = map fe_path (ge_files g), ag_reused = True, ag_parts = group_files (ge_files g)\<rparr>"
    by (simp add: reused_generation_def item_at_def generation_to_dict_def parts_of_files)
  with assms(2,3) show ?thesis by (simp add: commit_append_def m find_generation)
qed

section \<open>Processes that append to one dataset\<close>

text \<open>
  Every operation holds the dataset lock, so the processes that write to one dataset interleave at
  the granularity of whole operations: \<open>open_txs\<close> are the transactions they have begun, in any order.
  A transaction ends with its commit, with a rollback, or when its process is killed.
\<close>

record append_state =
  as_disk :: append_disk
  as_open :: "append_transaction list"

inductive append_step :: "(field list \<Rightarrow> string) \<Rightarrow> (string \<Rightarrow> string) \<Rightarrow> append_state \<Rightarrow> append_state \<Rightarrow> bool"
  for show_schema :: "field list \<Rightarrow> string" and checksum :: "string \<Rightarrow> string" where
  Begin: "begin_append key identity parts contract columns disk = Inr (tx, disk') \<Longrightarrow>
    append_step show_schema checksum \<lparr>as_disk = disk, as_open = txs\<rparr> \<lparr>as_disk = disk', as_open = txs @ [tx]\<rparr>"
| Adopt: "adopt_parquet_file out segment tx = Inr tx' \<Longrightarrow>
    append_step show_schema checksum \<lparr>as_disk = disk, as_open = before @ tx # behind\<rparr>
      \<lparr>as_disk = disk, as_open = before @ tx' # behind\<rparr>"
| Commit: "commit_append show_schema checksum committed_at metadata tx disk = Inr (g, disk') \<Longrightarrow> json_plain (VDict metadata) \<Longrightarrow>
    append_step show_schema checksum \<lparr>as_disk = disk, as_open = before @ tx # behind\<rparr>
      \<lparr>as_disk = disk', as_open = before @ behind\<rparr>"
| Kill: "append_step show_schema checksum \<lparr>as_disk = disk, as_open = before @ tx # behind\<rparr>
      \<lparr>as_disk = killed_commit n tx disk, as_open = before @ behind\<rparr>"
| Rollback: "append_step show_schema checksum \<lparr>as_disk = disk, as_open = before @ tx # behind\<rparr>
      \<lparr>as_disk = disk, as_open = before @ behind\<rparr>"

definition empty_dataset :: append_state where
  "empty_dataset = \<lparr>as_disk = \<lparr>ad_manifest = None, ad_sequence = None, ad_files = []\<rparr>, as_open = []\<rparr>"

section \<open>Part paths\<close>

lemma part_path_unique:
  assumes "part_path s vs i = part_path s' vs' i'" and "0 \<le> s" and "0 \<le> s'"
  shows "s = s' \<and> i = i'"
proof -
  define dirs where "dirs = (\<lambda>vs :: (string \<times> pyval) list.
    concat (map (\<lambda>(name, value). ''partition-'' @ url_quote name @ ''-'' @ url_quote (py_str value) @ ''/'') vs))"
  have split: "part_path s vs i = ''_generations/'' @ padded 20 (nat s) @ CHR ''/'' #
      (((dirs vs @ ''part'') @ CHR ''-'' # padded 6 i) @ ''.parquet'')" for s vs i
    by (simp add: part_path_def generation_root_def dirs_def)
  have digits: "CHR ''/'' \<notin> set (padded w n)" for w n
  proof
    assume "CHR ''/'' \<in> set (padded w n)"
    then have "is_digit (CHR ''/'')" using padded_digits [of w n] by (auto simp: list_all_iff)
    moreover have "\<not> is_digit (CHR ''/'')" by code_simp
    ultimately show False by simp
  qed
  from assms(1) have *: "padded 20 (nat s) @ CHR ''/'' # (((dirs vs @ ''part'') @ CHR ''-'' # padded 6 i) @ ''.parquet'')
    = padded 20 (nat s') @ CHR ''/'' # (((dirs vs' @ ''part'') @ CHR ''-'' # padded 6 i') @ ''.parquet'')"
    unfolding split by (simp only: same_append_eq)
  from split_at_char [OF * digits digits]
  have seq: "padded 20 (nat s) = padded 20 (nat s')"
    and rest: "(dirs vs @ ''part'') @ CHR ''-'' # padded 6 i = (dirs vs' @ ''part'') @ CHR ''-'' # padded 6 i'"
    by (simp_all only: append_same_eq)
  have "\<not> is_digit (CHR ''-'')" by code_simp
  from digit_suffix_unique [OF rest padded_digits padded_digits this] have "i = i'" using padded_inj by blast
  moreover from padded_inj [OF seq] assms(2,3) have "s = s'" by simp
  ultimately show ?thesis by simp
qed

text \<open>The parts a transaction has staged are numbered from 0 under its own generation.\<close>

definition own_part :: "int \<Rightarrow> string \<Rightarrow> bool" where
  "own_part seq p \<longleftrightarrow> (\<exists>values number. p = part_path seq values number)"

definition staged_ok :: "append_transaction \<Rightarrow> bool" where
  "staged_ok tx \<longleftrightarrow> (\<forall>i<length (at_staged tx). \<exists>values. sp_path (at_staged tx ! i) = part_path (at_seq tx) values i)"

lemma own_part_unique: "own_part s p \<Longrightarrow> own_part s' p \<Longrightarrow> 0 \<le> s \<Longrightarrow> 0 \<le> s' \<Longrightarrow> s = s'"
  unfolding own_part_def using part_path_unique by blast

lemma staged_parts:
  assumes "staged_ok tx" and "0 \<le> at_seq tx"
  shows "distinct (map sp_path (at_staged tx))" and "\<forall>p\<in>set (map sp_path (at_staged tx)). own_part (at_seq tx) p"
proof -
  show "\<forall>p\<in>set (map sp_path (at_staged tx)). own_part (at_seq tx) p"
  proof
    fix p
    assume "p \<in> set (map sp_path (at_staged tx))"
    then obtain i where "i < length (at_staged tx)" "p = sp_path (at_staged tx ! i)"
      by (auto simp: in_set_conv_nth)
    with assms(1) show "own_part (at_seq tx) p" unfolding staged_ok_def own_part_def by blast
  qed
  show "distinct (map sp_path (at_staged tx))"
    unfolding distinct_conv_nth length_map
  proof (intro allI impI)
    fix i j
    assume ij: "i < length (at_staged tx)" "j < length (at_staged tx)" "i \<noteq> j"
    from assms(1) ij obtain vs ws where "sp_path (at_staged tx ! i) = part_path (at_seq tx) vs i"
      "sp_path (at_staged tx ! j) = part_path (at_seq tx) ws j" unfolding staged_ok_def by blast
    with part_path_unique [of "at_seq tx" vs i "at_seq tx" ws j] ij assms(2)
    show "map sp_path (at_staged tx) ! i \<noteq> map sp_path (at_staged tx) ! j" by auto
  qed
qed

section \<open>The invariant of the dataset\<close>

definition logged :: "append_disk \<Rightarrow> generation list \<Rightarrow> bool" where
  "logged disk gens \<longleftrightarrow> (\<exists>contract. holds_log contract (ad_manifest disk) gens)"

definition log_keys :: "generation list \<Rightarrow> string set" where
  "log_keys gens = set (map ge_key gens)"

abbreviation log_paths :: "generation list \<Rightarrow> string list" where
  "log_paths gens \<equiv> concat (map (\<lambda>g. map fe_path (ge_files g)) gens)"

definition log_ok :: "append_disk \<Rightarrow> generation list \<Rightarrow> bool" where
  "log_ok disk gens \<longleftrightarrow>
     logged disk gens \<and> distinct (map ge_key gens) \<and> distinct (map ge_seq gens) \<and>
     (\<forall>g\<in>set gens. 1 \<le> ge_seq g) \<and>
     distinct (map fst (ad_files disk)) \<and> set (log_paths gens) \<subseteq> fst ` set (ad_files disk) \<and>
     distinct (log_paths gens) \<and>
     (\<forall>g\<in>set gens. \<forall>p\<in>set (map fe_path (ge_files g)). own_part (ge_seq g) p) \<and>
     (\<forall>p\<in>fst ` set (ad_files disk). \<exists>s. 1 \<le> s \<and> s \<le> last_seq disk gens \<and> own_part s p)"

text \<open>
  Open transactions: each has a sequence number that was reserved; a sequence number stands for one
  run key, in the log and in the open transactions; and the transactions whose run key is not in
  the log have numbers and part paths of their own.
\<close>

definition numbers :: "generation list \<Rightarrow> append_transaction list \<Rightarrow> (int \<times> string) set" where
  "numbers gens txs = (\<lambda>g. (ge_seq g, ge_key g)) ` set gens \<union> (\<lambda>tx. (at_seq tx, at_key tx)) ` set txs"

definition fresh_txs :: "generation list \<Rightarrow> append_transaction list \<Rightarrow> append_transaction list" where
  "fresh_txs gens txs = filter (\<lambda>tx. at_key tx \<notin> log_keys gens) txs"

definition tx_ok :: "append_disk \<Rightarrow> generation list \<Rightarrow> append_transaction \<Rightarrow> bool" where
  "tx_ok disk gens tx \<longleftrightarrow> 1 \<le> at_seq tx \<and> at_seq tx \<le> last_seq disk gens \<and> staged_ok tx"

definition txs_ok :: "append_disk \<Rightarrow> generation list \<Rightarrow> append_transaction list \<Rightarrow> bool" where
  "txs_ok disk gens txs \<longleftrightarrow>
     (\<forall>tx\<in>set txs. tx_ok disk gens tx) \<and> single_valued (numbers gens txs) \<and>
     distinct (map at_seq (fresh_txs gens txs)) \<and>
     (\<forall>tx\<in>set (fresh_txs gens txs). \<forall>p\<in>fst ` set (ad_files disk). \<not> own_part (at_seq tx) p)"

definition append_ok :: "append_state \<Rightarrow> generation list \<Rightarrow> bool" where
  "append_ok s gens \<longleftrightarrow> log_ok (as_disk s) gens \<and> txs_ok (as_disk s) gens (as_open s)"

lemma find_key: "find (\<lambda>g. ge_key g = key) gens = None \<longleftrightarrow> key \<notin> log_keys gens"
  by (auto simp: find_None_iff log_keys_def)

lemma logged_contract:
  assumes "logged disk gens" and "read_append_manifest contract (ad_manifest disk) = Inr m"
  shows "holds_log contract (ad_manifest disk) gens"
proof (cases "ad_manifest disk")
  case None
  with assms(1) show ?thesis by (auto simp: logged_def holds_log_def)
next
  case (Some f)
  from assms(1) Some obtain c d where d: "f = Json (VDict d)" "json_plain (VDict d)"
    "get_key d ''schema_version'' = VStr APPEND_MANIFEST_VERSION" "get_key d ''contract'' = VStr c"
    "get_key d ''generations'' = VList (log_items gens)" by (auto simp: logged_def holds_log_def)
  have "load_json f = Some (VDict d)" using d(1) json_safe_plain [OF d(2)] by (simp add: load_json_def)
  with assms(2) Some have "get_key d ''contract'' = VStr contract"
    by (auto simp: read_append_manifest_def res_simps)
  with d Some show ?thesis by (auto simp: holds_log_def)
qed

lemma log_seq_le: "g \<in> set gens \<Longrightarrow> ge_seq g \<le> last_seq disk gens"
  unfolding last_seq_def using max_or_zero_upper [of "ge_seq g" "map ge_seq gens"] by auto

lemma empty_dataset_ok: "append_ok empty_dataset []"
  by (simp add: append_ok_def empty_dataset_def log_ok_def logged_def holds_log_def txs_ok_def fresh_txs_def numbers_def)

lemma begin_facts:
  assumes "begin_append run_key identity parts contract columns disk = Inr (tx, disk')"
    and "logged disk gens"
  shows "at_staged tx = [] \<and>
    ((disk' = disk \<and> (\<exists>g\<in>set gens. ge_key g = at_key tx \<and> ge_seq g = at_seq tx)) \<or>
     (at_key tx \<notin> log_keys gens \<and> at_seq tx = last_seq disk gens + 1 \<and>
      disk' = disk\<lparr>ad_sequence := Some (Json (VDict [(''last_seq'', VInt (at_seq tx))]))\<rparr>))"
proof -
  from assms(1) obtain m where m: "read_append_manifest contract (ad_manifest disk) = Inr m"
    unfolding begin_append_def Let_def by (auto simp: res_simps)
  note holds = logged_contract [OF assms(2) m]
  from assms(1) obtain seq where res: "reserve_generation contract (py_strip run_key) disk = Inr (seq, disk')"
    and tx: "at_key tx = py_strip run_key" "at_seq tx = seq" "at_staged tx = []"
    unfolding begin_append_def Let_def by (auto simp: res_simps split: prod.splits)
  show ?thesis
  proof (cases "find (\<lambda>g. ge_key g = py_strip run_key) gens")
    case None
    with res tx reserve_log [OF holds] show ?thesis by (auto simp: find_key)
  next
    case (Some g)
    then have "g \<in> set gens" "ge_key g = py_strip run_key" by (auto simp: find_Some_iff)
    with Some res tx reserve_log [OF holds] show ?thesis by auto
  qed
qed

lemma adopt_facts:
  assumes "adopt_parquet_file out segment tx = Inr tx'" and "staged_ok tx"
  shows "at_key tx' = at_key tx \<and> at_seq tx' = at_seq tx \<and> staged_ok tx'"
proof -
  from assms(1) obtain expected vals where tx': "tx' = tx\<lparr>at_expected := expected,
      at_staged := at_staged tx @ [\<lparr>sp_path = part_path (at_seq tx) vals (length (at_staged tx)),
        sp_rows = to_rows out, sp_fields = to_fields out, sp_segment = segment\<rparr>]\<rparr>"
    unfolding adopt_parquet_file_def by (auto simp: res_simps)
  with assms(2) show ?thesis by (auto simp: staged_ok_def nth_append less_Suc_eq)
qed

lemma commit_facts:
  assumes "commit_append show_schema checksum at metadata tx disk = Inr (a, disk')"
    and "logged disk gens" and "json_plain (VDict metadata)"
  shows "(at_key tx \<in> log_keys gens \<and> disk' = disk) \<or>
    (at_key tx \<notin> log_keys gens \<and> logged disk' (gens @ [committed_generation checksum tx at metadata]) \<and>
     ad_sequence disk' = ad_sequence disk \<and> map fst (ad_files disk') = map fst (ad_files disk) @ map sp_path (at_staged tx))"
proof -
  from assms(1) obtain m where m: "read_append_manifest (at_contract tx) (ad_manifest disk) = Inr m"
    and staged: "at_staged tx \<noteq> []" unfolding commit_append_def by (auto simp: res_simps)
  note holds = logged_contract [OF assms(2) m]
  show ?thesis
  proof (cases "find (\<lambda>g. ge_key g = at_key tx) gens")
    case None
    with assms(1) m staged read_log [OF holds] obtain placed
      where placed: "res_map (place_part tx) (at_staged tx) = Inr placed"
      by (auto simp: commit_append_def find_generation res_simps Let_def)
    from commit_log [OF holds staged None assms(3) placed, of show_schema checksum at] assms(1) None
    show ?thesis by (auto simp: find_key logged_def placed_paths [OF placed])
  next
    case (Some g)
    then have "g \<in> set gens" "ge_key g = at_key tx" by (auto simp: find_Some_iff)
    then have "at_key tx \<in> log_keys gens" by (force simp: log_keys_def)
    with commit_reuses [OF holds staged Some, of show_schema checksum at metadata] assms(1) show ?thesis by simp
  qed
qed

lemma committed_paths: "map fe_path (ge_files (committed_generation checksum tx at metadata)) = map sp_path (at_staged tx)"
  by (simp add: committed_generation_def comp_def)

lemma last_seq_commit:
  assumes "1 \<le> at_seq tx" and "at_seq tx \<le> last_seq disk gens" and "ad_sequence disk' = ad_sequence disk"
  shows "last_seq disk' (gens @ [committed_generation checksum tx at metadata]) = last_seq disk gens"
proof -
  have "max_or_zero (xs @ [x]) = (if xs = [] then x else max x (max_or_zero xs))" for x xs
    by (cases xs) (simp_all add: max_or_zero_def)
  then show ?thesis using assms by (auto simp: last_seq_def committed_generation_def max_or_zero_def)
qed

lemma last_seq_nonneg: "log_ok disk gens \<Longrightarrow> 0 \<le> last_seq disk gens"
proof (cases gens)
  case Nil
  then show ?thesis by (simp add: last_seq_def max_or_zero_def)
next
  case (Cons g gs)
  assume "log_ok disk gens"
  with Cons have "1 \<le> ge_seq g" by (simp add: log_ok_def)
  with log_seq_le [of g gens disk] Cons show ?thesis by simp
qed

lemma numbers_le: "log_ok disk gens \<Longrightarrow> txs_ok disk gens txs \<Longrightarrow> (s, k) \<in> numbers gens txs \<Longrightarrow> s \<le> last_seq disk gens"
  by (auto simp: numbers_def txs_ok_def tx_ok_def log_seq_le)

lemma numbers_append: "numbers gens (txs @ [tx]) = insert (at_seq tx, at_key tx) (numbers gens txs)"
  by (auto simp: numbers_def)

lemma fresh_append: "fresh_txs gens (txs @ [tx]) = fresh_txs gens txs @ (if at_key tx \<in> log_keys gens then [] else [tx])"
  by (simp add: fresh_txs_def)

lemma single_valued_new:
  assumes "single_valued r" and "\<And>k'. (s, k') \<notin> r"
  shows "single_valued (insert (s, k) r)"
  using assms unfolding single_valued_def by blast

lemma append_ok_begin:
  assumes "append_ok \<lparr>as_disk = disk, as_open = txs\<rparr> gens"
    and "begin_append run_key identity parts contract columns disk = Inr (tx, disk')"
  shows "append_ok \<lparr>as_disk = disk', as_open = txs @ [tx]\<rparr> gens"
proof -
  from assms(1) have log: "log_ok disk gens" and txs: "txs_ok disk gens txs" by (simp_all add: append_ok_def)
  then have "logged disk gens" by (simp add: log_ok_def)
  note facts = begin_facts [OF assms(2) this]
  then have staged: "staged_ok tx" by (simp add: staged_ok_def)
  from facts consider
    (again) g where "disk' = disk" "g \<in> set gens" "ge_key g = at_key tx" "ge_seq g = at_seq tx"
  | (fresh) "at_key tx \<notin> log_keys gens" "at_seq tx = last_seq disk gens + 1"
      "disk' = disk\<lparr>ad_sequence := Some (Json (VDict [(''last_seq'', VInt (at_seq tx))]))\<rparr>" by blast
  then show ?thesis
  proof cases
    case again
    have pos: "1 \<le> at_seq tx" using log again by (auto simp: log_ok_def)
    have le: "at_seq tx \<le> last_seq disk gens" using log_seq_le [OF again(2)] again(4) by simp
    have "at_key tx \<in> log_keys gens" using again(2,3) by (force simp: log_keys_def)
    then have fresh: "fresh_txs gens (txs @ [tx]) = fresh_txs gens txs" by (simp add: fresh_append)
    have "(at_seq tx, at_key tx) \<in> numbers gens txs" using again(2-4) by (force simp: numbers_def)
    then have "numbers gens (txs @ [tx]) = numbers gens txs" by (simp add: numbers_append insert_absorb)
    with pos le staged log txs fresh show ?thesis
      unfolding append_ok_def again(1) by (simp add: txs_ok_def tx_ok_def)
  next
    case fresh
    have last: "last_seq disk' gens = at_seq tx"
      using fresh(2,3) by (simp add: last_seq_def reserved_after)
    have le: "last_seq disk gens \<le> last_seq disk' gens" using last fresh(2) by simp
    have files: "ad_files disk' = ad_files disk" using fresh(3) by simp
    have "logged disk' gens" using log fresh(3) by (simp add: log_ok_def logged_def)
    then have log': "log_ok disk' gens" using log le unfolding log_ok_def files by (simp only:) (meson order_trans)
    have new: "(at_seq tx, k) \<notin> numbers gens txs" for k using numbers_le [OF log txs] fresh(2) by fastforce
    have "single_valued (numbers gens (txs @ [tx]))"
      unfolding numbers_append using txs new by (intro single_valued_new) (auto simp: txs_ok_def)
    moreover have "distinct (map at_seq (fresh_txs gens (txs @ [tx])))"
    proof -
      have "at_seq tx \<notin> at_seq ` set (fresh_txs gens txs)" using new by (force simp: fresh_txs_def numbers_def)
      then show ?thesis using txs fresh(1) by (simp add: fresh_append txs_ok_def)
    qed
    moreover have "\<not> own_part (at_seq tx) p" if "p \<in> fst ` set (ad_files disk)" for p
    proof
      assume own: "own_part (at_seq tx) p"
      from log that obtain s where s: "1 \<le> s" "s \<le> last_seq disk gens" "own_part s p" unfolding log_ok_def by blast
      from own_part_unique [OF own s(3)] s(1,2) fresh(2) show False by simp
    qed
    moreover have "tx_ok disk' gens t" if "t \<in> set (txs @ [tx])" for t
      using that txs le last staged fresh(2) last_seq_nonneg [OF log] by (auto simp: txs_ok_def tx_ok_def)
    ultimately show ?thesis
      using log' txs files fresh(1) by (auto simp: append_ok_def txs_ok_def fresh_append)
  qed
qed

lemma append_ok_adopt:
  assumes "append_ok \<lparr>as_disk = disk, as_open = before @ tx # behind\<rparr> gens"
    and "adopt_parquet_file out segment tx = Inr tx'"
  shows "append_ok \<lparr>as_disk = disk, as_open = before @ tx' # behind\<rparr> gens"
proof -
  from assms(1) have log: "log_ok disk gens" and txs: "txs_ok disk gens (before @ tx # behind)"
    by (simp_all add: append_ok_def)
  from txs have "staged_ok tx" by (simp add: txs_ok_def tx_ok_def)
  from adopt_facts [OF assms(2) this]
  have same: "at_key tx' = at_key tx" "at_seq tx' = at_seq tx" "staged_ok tx'" by simp_all
  then have "numbers gens (before @ tx' # behind) = numbers gens (before @ tx # behind)" by (simp add: numbers_def)
  moreover have "map at_seq (fresh_txs gens (before @ tx' # behind)) = map at_seq (fresh_txs gens (before @ tx # behind))"
    using same by (simp add: fresh_txs_def)
  moreover have "\<not> own_part (at_seq t) p"
    if "t \<in> set (fresh_txs gens (before @ tx' # behind))" "p \<in> fst ` set (ad_files disk)" for t p
  proof -
    from that(1) same have "\<exists>t'\<in>set (fresh_txs gens (before @ tx # behind)). at_seq t' = at_seq t"
      by (auto simp: fresh_txs_def split: if_splits)
    with that(2) txs show ?thesis unfolding txs_ok_def by metis
  qed
  ultimately show ?thesis using log txs same by (auto simp: append_ok_def txs_ok_def tx_ok_def)
qed

lemma txs_ok_remove:
  assumes "txs_ok disk gens (before @ tx # behind)"
  shows "txs_ok disk gens (before @ behind)"
proof -
  have "numbers gens (before @ behind) \<subseteq> numbers gens (before @ tx # behind)" by (auto simp: numbers_def)
  with assms show ?thesis by (auto simp: txs_ok_def fresh_txs_def dest: single_valued_subset split: if_splits)
qed

text \<open>Parts that a commit moves into place are new: none lands on a part that is already there.\<close>

lemma moved_parts_new:
  assumes "txs_ok disk gens (before @ tx # behind)" and "at_key tx \<notin> log_keys gens"
    and "set ps \<subseteq> set (map sp_path (at_staged tx))"
  shows "set ps \<inter> fst ` set (ad_files disk) = {}" and "\<forall>p\<in>set ps. own_part (at_seq tx) p"
    and "\<forall>t\<in>set (fresh_txs gens (before @ behind)). \<forall>p\<in>set ps. \<not> own_part (at_seq t) p"
proof -
  have ok: "tx_ok disk gens tx" using assms(1) by (simp add: txs_ok_def)
  then show own: "\<forall>p\<in>set ps. own_part (at_seq tx) p"
    using staged_parts(2) [of tx] assms(3) unfolding tx_ok_def by (meson order_trans subsetD zero_le_one)
  have mem: "tx \<in> set (fresh_txs gens (before @ tx # behind))" using assms(2) by (simp add: fresh_txs_def)
  then show "set ps \<inter> fst ` set (ad_files disk) = {}" using own assms(1) unfolding txs_ok_def by blast
  show "\<forall>t\<in>set (fresh_txs gens (before @ behind)). \<forall>p\<in>set ps. \<not> own_part (at_seq t) p"
  proof (intro ballI notI)
    fix t p
    assume t: "t \<in> set (fresh_txs gens (before @ behind))" and p: "p \<in> set ps" "own_part (at_seq t) p"
    have "1 \<le> at_seq t" using t assms(1) by (auto simp: fresh_txs_def txs_ok_def tx_ok_def)
    with p own ok have "at_seq t = at_seq tx" using own_part_unique [of "at_seq t" p "at_seq tx"] by (auto simp: tx_ok_def)
    moreover have "at_seq t \<noteq> at_seq tx"
      using assms(1,2) t by (auto simp: txs_ok_def fresh_txs_def image_iff)
    ultimately show False by simp
  qed
qed

lemma append_ok_kill:
  assumes "append_ok \<lparr>as_disk = disk, as_open = before @ tx # behind\<rparr> gens"
  shows "append_ok \<lparr>as_disk = killed_commit n tx disk, as_open = before @ behind\<rparr> gens"
proof -
  from assms have log: "log_ok disk gens" and txs: "txs_ok disk gens (before @ tx # behind)"
    by (simp_all add: append_ok_def)
  then have logged: "logged disk gens" by (simp add: log_ok_def)
  show ?thesis
  proof (cases "\<exists>m placed. read_append_manifest (at_contract tx) (ad_manifest disk) = Inr m \<and> at_key tx \<notin> log_keys gens \<and>
      res_map (place_part tx) (take n (at_staged tx)) = Inr placed")
    case False
    have "killed_commit n tx disk = disk"
    proof (cases "read_append_manifest (at_contract tx) (ad_manifest disk)")
      case (Inr m)
      show ?thesis
      proof (cases "find (\<lambda>g. ge_key g = at_key tx) gens")
        case None
        with False Inr have "\<nexists>placed. res_map (place_part tx) (take n (at_staged tx)) = Inr placed" by (simp add: find_key)
        then show ?thesis by (auto simp: killed_commit_def split: sum.split option.split)
      next
        case (Some g)
        with read_log [OF logged_contract [OF logged Inr]] Inr show ?thesis
          by (auto simp: killed_commit_def find_generation)
      qed
    qed (simp add: killed_commit_def)
    with log txs show ?thesis by (simp add: append_ok_def txs_ok_remove)
  next
    case True
    let ?ps = "map sp_path (take n (at_staged tx))"
    from True obtain m placed where m: "read_append_manifest (at_contract tx) (ad_manifest disk) = Inr m"
      and fresh: "at_key tx \<notin> log_keys gens"
      and placed: "res_map (place_part tx) (take n (at_staged tx)) = Inr placed" by blast
    from fresh have "find (\<lambda>g. ge_key g = at_key tx) gens = None" by (simp add: find_key)
    then have disk': "killed_commit n tx disk = disk\<lparr>ad_files := ad_files disk @ placed\<rparr>"
      using read_log [OF logged_contract [OF logged m]] m placed by (auto simp: killed_commit_def find_generation)
    have names: "map fst placed = ?ps" by (rule placed_paths [OF placed])
    then have in_place: "map fst (ad_files (killed_commit n tx disk)) = map fst (ad_files disk) @ ?ps" by (simp add: disk')
    then have files: "fst ` set (ad_files (killed_commit n tx disk)) = fst ` set (ad_files disk) \<union> set ?ps"
      by (metis set_append set_map)
    have sub: "set ?ps \<subseteq> set (map sp_path (at_staged tx))" by (auto dest: in_set_takeD)
    note new = moved_parts_new [OF txs fresh sub]
    have ok: "tx_ok disk gens tx" using txs by (simp add: txs_ok_def)
    then have "distinct (map sp_path (at_staged tx))" using staged_parts(1) by (simp add: tx_ok_def)
    then have dist: "distinct ?ps" by (simp add: take_map [symmetric])
    have last: "last_seq (killed_commit n tx disk) gens = last_seq disk gens" by (simp add: disk' last_seq_def)
    have log': "log_ok (killed_commit n tx disk) gens" unfolding log_ok_def last
    proof (intro conjI)
      show "logged (killed_commit n tx disk) gens" using logged by (simp add: disk' logged_def)
      show "distinct (map fst (ad_files (killed_commit n tx disk)))"
        using log dist new(1) unfolding in_place log_ok_def by auto
      show "set (log_paths gens) \<subseteq> fst ` set (ad_files (killed_commit n tx disk))"
        using log unfolding files log_ok_def by blast
      show "\<forall>p\<in>fst ` set (ad_files (killed_commit n tx disk)). \<exists>s. 1 \<le> s \<and> s \<le> last_seq disk gens \<and> own_part s p"
        using log new(2) ok unfolding files log_ok_def tx_ok_def by blast
    qed (use log in \<open>simp_all add: log_ok_def\<close>)
    moreover have "txs_ok (killed_commit n tx disk) gens (before @ behind)"
      using txs_ok_remove [OF txs] new(3) unfolding txs_ok_def tx_ok_def last files by blast
    ultimately show ?thesis by (simp add: append_ok_def)
  qed
qed

lemma append_ok_commit:
  assumes "append_ok \<lparr>as_disk = disk, as_open = before @ tx # behind\<rparr> gens"
    and "commit_append show_schema checksum committed_at metadata tx disk = Inr (a, disk')" and "json_plain (VDict metadata)"
  shows "\<exists>more. append_ok \<lparr>as_disk = disk', as_open = before @ behind\<rparr> (gens @ more)"
proof -
  from assms(1) have log: "log_ok disk gens" and txs: "txs_ok disk gens (before @ tx # behind)"
    by (simp_all add: append_ok_def)
  then have "logged disk gens" by (simp add: log_ok_def)
  from commit_facts [OF assms(2) this assms(3)] show ?thesis
  proof (elim disjE conjE)
    assume "disk' = disk"
    with log txs_ok_remove [OF txs] have "append_ok \<lparr>as_disk = disk', as_open = before @ behind\<rparr> (gens @ [])"
      by (simp add: append_ok_def)
    then show ?thesis by blast
  next
    let ?g = "committed_generation checksum tx committed_at metadata"
    let ?ps = "map sp_path (at_staged tx)"
    assume fresh: "at_key tx \<notin> log_keys gens" and logged: "logged disk' (gens @ [?g])"
      and seqs: "ad_sequence disk' = ad_sequence disk" and in_place: "map fst (ad_files disk') = map fst (ad_files disk) @ ?ps"
    from in_place have files: "fst ` set (ad_files disk') = fst ` set (ad_files disk) \<union> set ?ps" by (metis set_append set_map)
    have ok: "tx_ok disk gens tx" using txs by (simp add: txs_ok_def)
    then have last: "last_seq disk' (gens @ [?g]) = last_seq disk gens"
      using last_seq_commit seqs by (simp add: tx_ok_def)
    note new = moved_parts_new [OF txs fresh order_refl]
    have key: "ge_key ?g = at_key tx" and seq: "ge_seq ?g = at_seq tx" by (simp_all add: committed_generation_def)
    have paths: "map fe_path (ge_files ?g) = ?ps" by (rule committed_paths)
    have sv: "single_valued (numbers gens (before @ tx # behind))" using txs by (simp add: txs_ok_def)
    have seq_new: "at_seq tx \<notin> ge_seq ` set gens"
    proof
      assume "at_seq tx \<in> ge_seq ` set gens"
      then obtain g where g: "g \<in> set gens" "ge_seq g = at_seq tx" by auto
      then have "(at_seq tx, ge_key g) \<in> numbers gens (before @ tx # behind)"
        "(at_seq tx, at_key tx) \<in> numbers gens (before @ tx # behind)" by (force simp: numbers_def)+
      with sv have "ge_key g = at_key tx" by (meson single_valuedD)
      with g fresh show False by (force simp: log_keys_def)
    qed
    have dist: "distinct ?ps" using ok staged_parts(1) by (simp add: tx_ok_def)
    have log': "log_ok disk' (gens @ [?g])" unfolding log_ok_def
    proof (intro conjI)
      show "logged disk' (gens @ [?g])" by (rule logged)
      show "distinct (map ge_key (gens @ [?g]))" using log fresh by (simp add: log_ok_def key log_keys_def)
      show "distinct (map ge_seq (gens @ [?g]))" using log seq_new by (simp add: log_ok_def seq)
      show "\<forall>g\<in>set (gens @ [?g]). 1 \<le> ge_seq g" using log ok by (simp add: log_ok_def seq tx_ok_def)
      show "distinct (map fst (ad_files disk'))" using log new(1) dist unfolding in_place log_ok_def by auto
      show "set (log_paths (gens @ [?g])) \<subseteq> fst ` set (ad_files disk')"
        using log paths unfolding log_ok_def files by (simp del: set_map) blast
      show "distinct (log_paths (gens @ [?g]))"
        using log new(1) dist paths unfolding log_ok_def by (simp del: set_map) blast
      show "\<forall>g\<in>set (gens @ [?g]). \<forall>p\<in>set (map fe_path (ge_files g)). own_part (ge_seq g) p"
        using log new(2) paths unfolding log_ok_def by (simp add: seq del: set_map)
      show "\<forall>p\<in>fst ` set (ad_files disk'). \<exists>s. 1 \<le> s \<and> s \<le> last_seq disk' (gens @ [?g]) \<and> own_part s p"
        using log new(2) ok unfolding log_ok_def last files tx_ok_def by (simp del: set_map) blast
    qed
    have "numbers (gens @ [?g]) (before @ behind) = numbers gens (before @ tx # behind)"
      by (auto simp: numbers_def key seq)
    moreover have sub: "set (fresh_txs (gens @ [?g]) (before @ behind)) \<subseteq> set (fresh_txs gens (before @ behind))"
      by (auto simp: fresh_txs_def log_keys_def)
    moreover have "distinct (map at_seq (fresh_txs (gens @ [?g]) (before @ behind)))"
    proof -
      have "fresh_txs (gens @ [?g]) ts = filter (\<lambda>t. at_key t \<noteq> at_key tx) (fresh_txs gens ts)" for ts
        by (auto simp: fresh_txs_def log_keys_def key intro!: filter_cong)
      with txs_ok_remove [OF txs] show ?thesis by (simp add: txs_ok_def distinct_map_filter)
    qed
    ultimately have "txs_ok disk' (gens @ [?g]) (before @ behind)"
      using txs_ok_remove [OF txs] sv new(3) unfolding txs_ok_def tx_ok_def last files
      by (simp del: set_map) blast
    with log' show ?thesis by (auto simp: append_ok_def)
  qed
qed

inductive_cases append_stepE: "append_step show_schema checksum s s'"

lemma append_step_ok:
  assumes "append_step show_schema checksum s s'" and "append_ok s gens"
  shows "\<exists>more. append_ok s' (gens @ more)"
  using assms
proof (cases rule: append_step.cases)
  case Begin
  with assms(2) append_ok_begin have "append_ok s' (gens @ [])" by (simp add: append_ok_begin)
  then show ?thesis by blast
next
  case Adopt
  with assms(2) have "append_ok s' (gens @ [])" by (simp add: append_ok_adopt)
  then show ?thesis by blast
next
  case Commit
  with assms(2) show ?thesis by (auto intro: append_ok_commit)
next
  case Kill
  with assms(2) have "append_ok s' (gens @ [])" by (simp add: append_ok_kill)
  then show ?thesis by blast
next
  case Rollback
  with assms(2) have "append_ok s' (gens @ [])" by (auto simp: append_ok_def dest: txs_ok_remove)
  then show ?thesis by blast
qed

lemma append_steps_ok:
  assumes "(append_step show_schema checksum)\<^sup>*\<^sup>* s s'" and "append_ok s gens"
  shows "\<exists>more. append_ok s' (gens @ more)"
  using assms
proof (induction rule: rtranclp_induct)
  case base
  then have "append_ok s (gens @ [])" by simp
  then show ?case by blast
next
  case (step t u)
  then obtain more where "append_ok t (gens @ more)" by blast
  from append_step_ok [OF step(2) this] show ?case by (metis append_assoc)
qed

text \<open>
  C6: appending is exactly once and append-only. However the operations of the processes that write
  to a dataset interleave, and wherever they are killed: the manifest holds a log of generations
  which a later state only extends; no run key and no sequence number occurs in it twice; every part
  a generation names is in place, belongs to that generation alone, and no part was ever moved onto
  another one.
\<close>

theorem appends_happen_once:
  assumes "(append_step show_schema checksum)\<^sup>*\<^sup>* empty_dataset s"
    and "(append_step show_schema checksum)\<^sup>*\<^sup>* s s'"
  shows "\<exists>gens more. logged (as_disk s) gens \<and> logged (as_disk s') (gens @ more) \<and>
    distinct (map ge_key (gens @ more)) \<and> distinct (map ge_seq (gens @ more)) \<and>
    set (log_paths (gens @ more)) \<subseteq> fst ` set (ad_files (as_disk s')) \<and> distinct (log_paths (gens @ more)) \<and>
    distinct (map fst (ad_files (as_disk s')))"
proof -
  from append_steps_ok [OF assms(1) empty_dataset_ok] obtain gens where s: "append_ok s gens" by auto
  with append_steps_ok [OF assms(2)] obtain more where "append_ok s' (gens @ more)" by blast
  then have log: "log_ok (as_disk s') (gens @ more)" by (simp only: append_ok_def)
  from s have "logged (as_disk s) gens" by (simp add: append_ok_def log_ok_def)
  with log show ?thesis unfolding log_ok_def by (intro exI [of _ gens] exI [of _ more]) simp
qed

definition appending_field :: "string \<Rightarrow> field" where
  "appending_field name = \<lparr>fd_name = name, fd_type = ''string'', fd_nullable = True\<rparr>"

definition appending_out :: task_output where
  "appending_out = \<lparr>to_fields = [appending_field ''day'', appending_field ''value''], to_rows = 4, to_long_schema = True,
     to_values = (\<lambda>_. [VStr ''a/b''])\<rparr>"

definition appending_begin :: "string \<Rightarrow> append_disk \<Rightarrow> (append_transaction \<times> append_disk) result" where
  "appending_begin key = begin_append key [''day''] [''day''] LONG_FACT []"

definition appending_commit :: "append_transaction \<Rightarrow> append_disk \<Rightarrow> (appended_generation \<times> append_disk) result" where
  "appending_commit = commit_append (\<lambda>_. []) (\<lambda>_. ''h'') ''now'' []"

definition appending_tx :: append_transaction where
  "appending_tx = fst (projr (appending_begin ''run-1'' (as_disk empty_dataset)))"

definition appending_disk :: append_disk where
  "appending_disk = snd (projr (appending_begin ''run-1'' (as_disk empty_dataset)))"

definition appending_staged :: append_transaction where
  "appending_staged = projr (adopt_parquet_file appending_out ''s1'' appending_tx)"

lemma appending_begun: "isl (appending_begin ''run-1'' (as_disk empty_dataset)) = False" by code_simp
lemma appending_adopted: "isl (adopt_parquet_file appending_out ''s1'' appending_tx) = False" by code_simp
lemma appending_committed: "isl (appending_commit appending_staged appending_disk) = False" by code_simp

definition appended_disk :: append_disk where
  "appended_disk = snd (projr (appending_commit appending_staged appending_disk))"

lemma appending_steps:
  "(append_step (\<lambda>_. []) (\<lambda>_. ''h''))\<^sup>*\<^sup>* empty_dataset \<lparr>as_disk = appended_disk, as_open = []\<rparr>"
proof -
  have "begin_append ''run-1'' [''day''] [''day''] LONG_FACT [] (as_disk empty_dataset) = Inr (appending_tx, appending_disk)"
    using appending_begun unfolding appending_begin_def appending_tx_def appending_disk_def by (cases rule: sum.exhaust) auto
  from append_step.Begin [OF this, of "\<lambda>_. []" "\<lambda>_. ''h''" "[]"]
  have b: "append_step (\<lambda>_. []) (\<lambda>_. ''h'') empty_dataset \<lparr>as_disk = appending_disk, as_open = [appending_tx]\<rparr>"
    by (simp add: empty_dataset_def)
  have "adopt_parquet_file appending_out ''s1'' appending_tx = Inr appending_staged"
    using appending_adopted unfolding appending_staged_def by (cases rule: sum.exhaust) auto
  from append_step.Adopt [OF this, of "\<lambda>_. []" "\<lambda>_. ''h''" appending_disk "[]" "[]"]
  have a: "append_step (\<lambda>_. []) (\<lambda>_. ''h'') \<lparr>as_disk = appending_disk, as_open = [appending_tx]\<rparr>
    \<lparr>as_disk = appending_disk, as_open = [appending_staged]\<rparr>" by simp
  obtain g where "appending_commit appending_staged appending_disk = Inr (g, appended_disk)"
    using appending_committed unfolding appended_disk_def
    by (cases "appending_commit appending_staged appending_disk") auto
  from append_step.Commit [OF this [unfolded appending_commit_def], of "[]" "[]"]
  have "append_step (\<lambda>_. []) (\<lambda>_. ''h'') \<lparr>as_disk = appending_disk, as_open = [appending_staged]\<rparr>
    \<lparr>as_disk = appended_disk, as_open = []\<rparr>" by simp
  with b a show ?thesis by (meson rtranclp.rtrancl_into_rtrancl rtranclp.rtrancl_refl)
qed

theorem appends_happen_once_witness:
  "\<exists>gens more. logged (as_disk empty_dataset) gens \<and> logged appended_disk (gens @ more) \<and>
    distinct (map ge_key (gens @ more)) \<and> distinct (map ge_seq (gens @ more)) \<and>
    set (log_paths (gens @ more)) \<subseteq> fst ` set (ad_files appended_disk) \<and> distinct (log_paths (gens @ more)) \<and>
    distinct (map fst (ad_files appended_disk))"
  using appends_happen_once [OF rtranclp.rtrancl_refl appending_steps] by simp

section \<open>Schemas of a wide dataset\<close>

text \<open>
  An order with a partial join: where two elements have a common upper bound the join is their
  least one. The schema of a wide dataset is such a join of the schemas of its parts.
\<close>

locale partial_join =
  fixes le :: "'a \<Rightarrow> 'a \<Rightarrow> bool" and join :: "'a \<Rightarrow> 'a \<Rightarrow> 'a result"
  assumes le_refl: "le x x"
    and le_antisym: "le x y \<Longrightarrow> le y x \<Longrightarrow> x = y"
    and le_trans: "le x y \<Longrightarrow> le y z \<Longrightarrow> le x z"
    and join_upper: "join x y = Inr z \<Longrightarrow> le x z \<and> le y z"
    and join_least: "le x u \<Longrightarrow> le y u \<Longrightarrow> \<exists>z. join x y = Inr z \<and> le z u"
begin

lemma join_absorbs: "le y x \<Longrightarrow> join x y = Inr x"
  using join_least [OF le_refl [of x]] join_upper le_antisym by blast

lemma join_all_upper: "res_fold (\<lambda>y acc. join acc y) ys x = Inr z \<Longrightarrow> le x z \<and> (\<forall>y\<in>set ys. le y z)"
proof (induction ys arbitrary: x)
  case Nil
  then show ?case by (simp add: le_refl)
next
  case (Cons y ys)
  then obtain w where w: "join x y = Inr w" "res_fold (\<lambda>y acc. join acc y) ys w = Inr z" by (auto simp: res_simps)
  from Cons.IH [OF w(2)] join_upper [OF w(1)] show ?case by (auto intro: le_trans)
qed

lemma join_all_absorbs: "(\<forall>y\<in>set ys. le y x) \<Longrightarrow> res_fold (\<lambda>y acc. join acc y) ys x = Inr x"
  by (induction ys) (simp_all add: join_absorbs)

end

definition field_le :: "field \<Rightarrow> field \<Rightarrow> bool" where
  "field_le a b \<longleftrightarrow> fd_name a = fd_name b \<and> (fd_type a = ''null'' \<or> fd_type a = fd_type b) \<and> (fd_nullable a \<longrightarrow> fd_nullable b)"

definition schema_le :: "field list \<Rightarrow> field list \<Rightarrow> bool" where
  "schema_le = list_all2 field_le"

definition merge_schemas :: "field list \<Rightarrow> field list \<Rightarrow> field list result" where
  "merge_schemas a b = merge_wide_schema (Some a) b"

lemma merge_field_upper: "merge_field (a, b) = Inr c \<Longrightarrow> fd_name a = fd_name b \<Longrightarrow> field_le a c \<and> field_le b c"
  by (auto simp: merge_field_def field_le_def res_simps split: if_splits)

lemma merge_field_least: "field_le a u \<Longrightarrow> field_le b u \<Longrightarrow> \<exists>c. merge_field (a, b) = Inr c \<and> field_le c u"
  by (auto simp: merge_field_def field_le_def)

lemma merge_fields_upper:
  "res_map merge_field (zip a b) = Inr c \<Longrightarrow> map fd_name a = map fd_name b \<Longrightarrow> list_all2 field_le a c \<and> list_all2 field_le b c"
proof (induction a arbitrary: b c)
  case (Cons x xs)
  then obtain y ys where b: "b = y # ys" "fd_name x = fd_name y" "map fd_name xs = map fd_name ys" by (cases b) auto
  with Cons.prems(1) obtain z zs where z: "merge_field (x, y) = Inr z" "res_map merge_field (zip xs ys) = Inr zs" "c = z # zs"
    by (auto simp: res_simps)
  from Cons.IH [OF z(2) b(3)] merge_field_upper [OF z(1) b(2)] show ?case by (simp add: b z)
qed simp

lemma merge_fields_least:
  "list_all2 field_le a u \<Longrightarrow> list_all2 field_le b u \<Longrightarrow> \<exists>c. res_map merge_field (zip a b) = Inr c \<and> list_all2 field_le c u"
proof (induction u arbitrary: a b)
  case (Cons w ws)
  then obtain x xs y ys where ab: "a = x # xs" "b = y # ys" "field_le x w" "field_le y w"
    "list_all2 field_le xs ws" "list_all2 field_le ys ws" by (auto simp: list_all2_Cons2)
  from merge_field_least [OF ab(3,4)] Cons.IH [OF ab(5,6)] obtain c cs
    where "merge_field (x, y) = Inr c" "field_le c w" "res_map merge_field (zip xs ys) = Inr cs" "list_all2 field_le cs ws" by blast
  then have "res_map merge_field (zip a b) = Inr (c # cs) \<and> list_all2 field_le (c # cs) (w # ws)" by (simp add: ab)
  then show ?case by blast
qed simp

lemma schema_le_names: "schema_le a b \<Longrightarrow> map fd_name a = map fd_name b"
  unfolding schema_le_def by (induction rule: list_all2_induct) (auto simp: field_le_def)

lemma field_le_refl: "field_le a a"
  by (simp add: field_le_def)

lemma field_le_antisym: "field_le a b \<Longrightarrow> field_le b a \<Longrightarrow> a = b"
  by (cases a; cases b) (auto simp: field_le_def)

lemma field_le_trans: "field_le a b \<Longrightarrow> field_le b c \<Longrightarrow> field_le a c"
  by (auto simp: field_le_def)

interpretation schemas: partial_join schema_le merge_schemas
proof
  show "schema_le x x" for x by (simp add: schema_le_def list_all2_refl field_le_refl)
  show "schema_le x y \<Longrightarrow> schema_le y x \<Longrightarrow> x = y" for x y
    unfolding schema_le_def by (rule list_all2_antisym [where P = field_le and Q = field_le]) (rule field_le_antisym)
  show "schema_le x y \<Longrightarrow> schema_le y z \<Longrightarrow> schema_le x z" for x y z
    unfolding schema_le_def by (rule list_all2_trans [where ?P1.0 = field_le and ?P2.0 = field_le]) (rule field_le_trans)
  show "merge_schemas x y = Inr z \<Longrightarrow> schema_le x z \<and> schema_le y z" for x y z
    using merge_fields_upper [of x y z] by (auto simp: merge_schemas_def merge_wide_schema_def schema_le_def res_simps)
  show "\<exists>z. merge_schemas x y = Inr z \<and> schema_le z u" if "schema_le x u" "schema_le y u" for x y u
    using merge_fields_least [of x u y] schema_le_names [OF that(1)] schema_le_names [OF that(2)] that
    by (simp add: merge_schemas_def merge_wide_schema_def schema_le_def)
qed

text \<open>A part below the schema of its dataset is rewritten to it without an error.\<close>

lemma find_named:
  "list_all2 field_le actual s \<Longrightarrow> distinct (map fd_name actual) \<Longrightarrow> f \<in> set s \<Longrightarrow>
   \<exists>a. find (\<lambda>a. fd_name a = fd_name f) actual = Some a \<and> field_le a f"
proof (induction rule: list_all2_induct)
  case (Cons x xs y ys)
  show ?case
  proof (cases "fd_name x = fd_name f")
    case True
    have "f \<notin> set ys"
    proof
      assume "f \<in> set ys"
      then have "fd_name f \<in> set (map fd_name ys)" by simp
      also have "map fd_name ys = map fd_name xs" using Cons(2) schema_le_names by (simp add: schema_le_def)
      finally show False using Cons.prems(1) True by simp
    qed
    with Cons True show ?thesis by simp
  next
    case False
    with Cons have "f \<in> set ys" by (auto simp: field_le_def)
    with Cons False show ?thesis by simp
  qed
qed simp

lemma normalize_below:
  assumes "schema_le actual schema" and "distinct (map fd_name actual)"
  shows "normalize_wide schema actual = Inr schema"
proof -
  have "(case find (\<lambda>a. fd_name a = fd_name f) actual of None \<Rightarrow> Inl (KeyError (fd_name f)) | Some a \<Rightarrow> normalize_field (f, a)) = Inr ()"
    if "f \<in> set schema" for f
    using find_named [OF assms(1) [unfolded schema_le_def] assms(2) that]
    by (auto simp: normalize_field_def field_le_def raise_if_def)
  then have "res_map (\<lambda>f. case find (\<lambda>a. fd_name a = fd_name f) actual of None \<Rightarrow> Inl (KeyError (fd_name f))
      | Some a \<Rightarrow> normalize_field (f, a)) fs = Inr (map (\<lambda>_. ()) fs)" if "set fs \<subseteq> set schema" for fs
    using that by (induction fs) auto
  then show ?thesis by (simp add: normalize_wide_def)
qed

text \<open>What a dataset's schema, if it has one, is below.\<close>

definition below :: "field list option \<Rightarrow> field list \<Rightarrow> bool" where
  "below s e \<longleftrightarrow> (case s of None \<Rightarrow> True | Some s \<Rightarrow> schema_le s e)"

lemma wide_not_long [simp]: "WIDE_FACT \<noteq> LONG_FACT" "LONG_FACT \<noteq> WIDE_FACT"
  by code_simp+

lemma merge_wide_cases:
  assumes "merge_wide_schema expected actual = Inr s"
  shows "below expected s \<and> schema_le actual s"
proof (cases expected)
  case None
  with assms show ?thesis by (simp add: merge_wide_schema_def below_def schemas.le_refl)
next
  case (Some x)
  with assms schemas.join_upper [of x actual s] show ?thesis by (simp add: merge_schemas_def below_def)
qed

lemma below_trans: "below s e \<Longrightarrow> schema_le e u \<Longrightarrow> below s u"
  by (auto simp: below_def intro: schemas.le_trans split: option.splits)

lemma adopt_wide:
  assumes "adopt_parquet_file out segment tx = Inr tx'" and "at_contract tx = WIDE_FACT"
  shows "\<exists>s p. merge_wide_schema (at_expected tx) (to_fields out) = Inr s \<and> at_expected tx' = Some s \<and>
    at_staged tx' = at_staged tx @ [p] \<and> sp_fields p = to_fields out \<and> map fd_name (to_fields out) = at_columns tx \<and>
    at_contract tx' = WIDE_FACT \<and> at_columns tx' = at_columns tx \<and> at_key tx' = at_key tx"
  using assms unfolding adopt_parquet_file_def by (auto simp: res_simps)

definition adopt_all :: "(task_output \<times> string) list \<Rightarrow> append_transaction \<Rightarrow> append_transaction result" where
  "adopt_all outs = res_fold (\<lambda>(out, segment). adopt_parquet_file out segment) outs"

text \<open>After adopting outputs a wide transaction expects their least common schema.\<close>

lemma adopt_all_wide:
  assumes "adopt_all outs tx = Inr tx'" and "at_contract tx = WIDE_FACT" and "outs \<noteq> []"
  shows "\<exists>e. at_expected tx' = Some e \<and> below (at_expected tx) e \<and> (\<forall>(out, segment)\<in>set outs. schema_le (to_fields out) e) \<and>
    (\<forall>u. below (at_expected tx) u \<and> (\<forall>(out, segment)\<in>set outs. schema_le (to_fields out) u) \<longrightarrow> schema_le e u) \<and>
    map sp_fields (at_staged tx') = map sp_fields (at_staged tx) @ map (\<lambda>(out, segment). to_fields out) outs \<and>
    at_contract tx' = WIDE_FACT \<and> at_columns tx' = at_columns tx \<and> at_key tx' = at_key tx \<and>
    (\<forall>(out, segment)\<in>set outs. map fd_name (to_fields out) = at_columns tx)"
  using assms
proof (induction outs arbitrary: tx)
  case (Cons one outs)
  obtain out segment where one: "one = (out, segment)" by (cases one)
  from Cons.prems(1) obtain t where t: "adopt_parquet_file out segment tx = Inr t" "adopt_all outs t = Inr tx'"
    by (auto simp: adopt_all_def one res_simps)
  from adopt_wide [OF t(1) Cons.prems(2)] obtain s p where s: "merge_wide_schema (at_expected tx) (to_fields out) = Inr s"
    "at_expected t = Some s" "at_staged t = at_staged tx @ [p]" "sp_fields p = to_fields out"
    "map fd_name (to_fields out) = at_columns tx" "at_contract t = WIDE_FACT" "at_columns t = at_columns tx" "at_key t = at_key tx"
    by blast
  have upper: "below (at_expected tx) s" "schema_le (to_fields out) s" using merge_wide_cases [OF s(1)] by simp_all
  have least: "schema_le s u" if "below (at_expected tx) u" "schema_le (to_fields out) u" for u
  proof (cases "at_expected tx")
    case None
    with s(1) that show ?thesis by (simp add: merge_wide_schema_def)
  next
    case (Some x)
    with that(1) schemas.join_least [of x u "to_fields out"] that(2) s(1) show ?thesis
      by (auto simp: below_def merge_schemas_def)
  qed
  show ?case
  proof (cases "outs = []")
    case True
    with t(2) have "tx' = t" by (simp add: adopt_all_def)
    with upper least s show ?thesis by (simp add: True one)
  next
    case False
    from Cons.IH [OF t(2) s(6) False] obtain e where e: "at_expected tx' = Some e" "schema_le s e"
      "\<forall>(out, segment)\<in>set outs. schema_le (to_fields out) e"
      "\<forall>u. schema_le s u \<and> (\<forall>(out, segment)\<in>set outs. schema_le (to_fields out) u) \<longrightarrow> schema_le e u"
      "map sp_fields (at_staged tx') = map sp_fields (at_staged t) @ map (\<lambda>(out, segment). to_fields out) outs"
      "at_contract tx' = WIDE_FACT" "at_columns tx' = at_columns t" "at_key tx' = at_key t"
      "\<forall>(out, segment)\<in>set outs. map fd_name (to_fields out) = at_columns t" by (auto simp: s(2) below_def)
    show ?thesis
    proof (intro exI [of _ e] conjI)
      show "below (at_expected tx) e" using upper(1) e(2) by (rule below_trans)
      show "\<forall>(out, segment)\<in>set (one # outs). schema_le (to_fields out) e"
        using e(3) schemas.le_trans [OF upper(2) e(2)] by (simp add: one)
      show "\<forall>u. below (at_expected tx) u \<and> (\<forall>(out, segment)\<in>set (one # outs). schema_le (to_fields out) u) \<longrightarrow> schema_le e u"
        using e(4) least by (simp add: one)
    qed (use e s in \<open>simp_all add: one\<close>)
  qed
qed simp


text \<open>Of two outputs the first has no value at all in the column \<open>amount\<close>.\<close>

definition wide_out :: "string \<Rightarrow> task_output" where
  "wide_out t = \<lparr>to_fields = [\<lparr>fd_name = ''id'', fd_type = ''string'', fd_nullable = False\<rparr>,
       \<lparr>fd_name = ''amount'', fd_type = t, fd_nullable = True\<rparr>],
     to_rows = 2, to_long_schema = False, to_values = (\<lambda>_. [VStr ''7''])\<rparr>"

definition wide_outs :: "(task_output \<times> string) list" where
  "wide_outs = [(wide_out ''null'', ''s1''), (wide_out ''double'', ''s2'')]"

definition wide_tx :: append_transaction where
  "wide_tx = fst (projr (begin_append ''run-1'' [''id''] [''id''] WIDE_FACT [''id'', ''amount''] (as_disk empty_dataset)))"

lemma wide_adopted: "isl (adopt_all wide_outs wide_tx) = False"
  by code_simp

lemma wide_tx_facts: "at_contract wide_tx = WIDE_FACT" "at_staged wide_tx = []" "distinct (at_columns wide_tx)"
  by code_simp+


end
