(* ===== verification/Incremental.thy ===== *)
theory Incremental
  imports SegmentAppend
begin

text \<open>
  Incremental runs of a 0102 asset: \<open>calculation_manifest.py\<close> (which source segments count as
  calculated), \<open>upstream_delta.py\<close> (what the upstream's change receipt leaves to do) and the run of
  \<open>segment_runtime.py\<close> with the bounded executor of \<open>segment_runner.py\<close>. Telemetry, reports and the
  calls that write them are left out; the native planner and tasks are fields of the environment.
\<close>

section \<open>The calculation manifest\<close>

record calculated_segment =
  sd_id :: string
  sd_path :: string
  sd_sha :: string
  sd_rows :: int
  sd_seq :: "int option"
  sd_parts :: "string list"

record calculation_manifest =
  cm_dataset :: "string option"
  cm_generation :: "string option"
  cm_contract :: "string option"
  cm_segments :: "calculated_segment list"

definition CALCULATION_MANIFEST_VERSION :: string where
  "CALCULATION_MANIFEST_VERSION = ''smoking-data.calculated-fact-calculation-manifest.v1''"

definition invalid_calculation_manifest :: py_error where
  "invalid_calculation_manifest = ValidationError ''incremental.invalid_calculation_manifest''"

definition segments_by_path :: "calculated_segment list \<Rightarrow> (string \<times> calculated_segment) list" where
  "segments_by_path segments = dict_of_pairs (map (\<lambda>s. (sd_path s, s)) segments)"

definition optional_string :: "pyval \<Rightarrow> string option" where
  "optional_string v = (if v = VNone \<or> v = VStr [] then None else Some (py_str v))"

text \<open>\<open>str(item[key])\<close>.\<close>

definition str_item :: "pydict \<Rightarrow> string \<Rightarrow> string result" where
  "str_item d k = res_bind (item_at d k) (\<lambda>v. Inr (py_str v))"

definition segment_item :: "pydict \<Rightarrow> calculated_segment result" where
  "segment_item d =
     res_bind (py_iter (py_or (get_key d ''output_parts'') (VTuple []))) (\<lambda>parts.
     res_bind (str_item d ''segment_id'') (\<lambda>sid.
     res_bind (str_item d ''relative_path'') (\<lambda>path.
     res_bind (str_item d ''sha256'') (\<lambda>digest.
     res_bind (item_at d ''rows'') (\<lambda>rows. res_bind (py_int rows) (\<lambda>rows.
     res_bind (if get_key d ''output_generation_seq'' = VNone then Inr None
               else res_bind (py_int (get_key d ''output_generation_seq'')) (\<lambda>i. Inr (Some i))) (\<lambda>seq.
       Inr \<lparr>sd_id = sid, sd_path = path, sd_sha = digest, sd_rows = rows, sd_seq = seq,
            sd_parts = map py_str parts\<rparr>)))))))"

definition read_segment :: "pyval \<Rightarrow> calculated_segment result" where
  "read_segment item =
     (case item of
        VDict d \<Rightarrow> (case segment_item d of Inr s \<Rightarrow> Inr s | Inl _ \<Rightarrow> Inl invalid_calculation_manifest)
      | _ \<Rightarrow> Inl invalid_calculation_manifest)"

definition read_calculation_manifest :: "stored_file option \<Rightarrow> calculation_manifest option result" where
  "read_calculation_manifest f =
     (case f of
        None \<Rightarrow> Inr None
      | Some f \<Rightarrow>
          (case load_json f of
             Some (VDict d) \<Rightarrow>
               raise_if (get_key d ''schema_version'' \<noteq> VStr CALCULATION_MANIFEST_VERSION) invalid_calculation_manifest (
               raise_if (\<not> is_list (get_key d ''active_segments'')) invalid_calculation_manifest (
               res_bind (res_map read_segment (items_of (get_key d ''active_segments''))) (\<lambda>segments.
               raise_if (\<not> distinct (map sd_path segments)) invalid_calculation_manifest (
                 Inr (Some \<lparr>cm_dataset = optional_string (get_key d ''dataset_id''),
                            cm_generation = optional_string (get_key d ''upstream_generation_id''),
                            cm_contract = optional_string (get_key d ''calculation_contract_hash''),
                            cm_segments = segments\<rparr>)))))
           | _ \<Rightarrow> Inl invalid_calculation_manifest))"

definition segment_document :: "calculated_segment \<Rightarrow> pyval" where
  "segment_document s =
     VDict [(''segment_id'', VStr (sd_id s)), (''relative_path'', VStr (sd_path s)), (''sha256'', VStr (sd_sha s)),
            (''rows'', VInt (sd_rows s)),
            (''output_generation_seq'', case sd_seq s of None \<Rightarrow> VNone | Some i \<Rightarrow> VInt i),
            (''output_parts'', VList (map VStr (sd_parts s)))]"

definition write_calculation_manifest ::
  "string option \<Rightarrow> string option \<Rightarrow> string \<Rightarrow> calculated_segment list \<Rightarrow> stored_file" where
  "write_calculation_manifest dataset generation contract active =
     Json (VDict [(''schema_version'', VStr CALCULATION_MANIFEST_VERSION), (''dataset_id'', optional_text dataset),
       (''upstream_generation_id'', optional_text generation), (''calculation_contract_hash'', VStr contract),
       (''active_segments'', VList (map segment_document (sort_key sd_path active)))])"

section \<open>Planning from the upstream's change receipt\<close>

text \<open>Resolved absolute paths, as their components.\<close>

type_synonym path = "string list"

definition path_text :: "path \<Rightarrow> string" where
  "path_text p = (if p = [] then ''/'' else concat (map (\<lambda>c. CHR ''/'' # c) p))"

definition resolve_step :: "string \<Rightarrow> path \<Rightarrow> path" where
  "resolve_step c p = (if c = [] \<or> c = ''.'' then p else if c = ''..'' then butlast p else p @ [c])"

text \<open>\<open>(root / relative).resolve()\<close>.\<close>

definition join_path :: "path \<Rightarrow> string \<Rightarrow> path" where
  "join_path root relative =
     fold resolve_step (split_on (CHR ''/'') relative) (if starts_with relative ''/'' then [] else root)"

record upstream_segment =
  us_id :: string
  us_relative :: string
  us_path :: path
  us_sha :: string
  us_rows :: int

datatype delta_mode = FullScan | Initial | FullContractChange | Unchanged | Delta

record delta_plan =
  dp_mode :: delta_mode
  dp_root :: "path option"
  dp_dataset :: "string option"
  dp_generation :: "string option"
  dp_contract :: string
  dp_files :: "path list"
  dp_current :: "upstream_segment list"
  dp_selected :: "upstream_segment list"
  dp_removed :: "string list"
  dp_previous :: "string list"
  dp_reason :: string

text \<open>
  What a run sees outside its output: SHA-256, the definition and its plan, the upstream files with
  their status, the directories of datasets, the native planner and tasks, and the workers admitted.
\<close>

record coordinate_batch =
  cb_sources :: "path list"
  cb_columns :: "string list"
  cb_rows :: int

record run_env =
  rn_sha :: "string \<Rightarrow> string"
  rn_spec :: calc_spec
  rn_plan :: calc_plan
  rn_files :: "path list"
  rn_dataset :: "path \<Rightarrow> dir"
  rn_stat :: "path \<Rightarrow> int \<times> int"
  rn_coordinates :: "upstream_segment list \<Rightarrow> coordinate_batch list result"
  rn_execute :: "task_request \<Rightarrow> coordinate_batch \<Rightarrow> int \<Rightarrow> string \<Rightarrow> task_output list result"
  rn_columns :: "string list"
  rn_workers :: nat
  rn_show :: "field list \<Rightarrow> string"
  rn_checksum :: "string \<Rightarrow> string"
  rn_now :: string
  rn_metadata :: "nat \<Rightarrow> pydict"

definition fingerprint_document :: "fingerprint \<Rightarrow> pyval" where
  "fingerprint_document f =
     VDict [(''name'', VStr (fp_name f)), (''expression_hash'', VStr (fp_expression_hash f)),
            (''binding_hash'', VStr (fp_binding_hash f)), (''source_columns'', VTuple (map VStr (fp_columns f))),
            (''constants'', VTuple (map VStr (fp_constants f)))]"

definition calculation_contract_hash :: "run_env \<Rightarrow> string" where
  "calculation_contract_hash env =
     rn_sha env (json_compact (VDict
       [(''identity_columns'', VTuple (map VStr (cs_identity (rn_spec env)))),
        (''binding_hash'', VStr (bp_hash (cp_binding (rn_plan env)))),
        (''fingerprints'', VList (map fingerprint_document (cp_fingerprints (rn_plan env))))]))"

definition full_without_receipt :: "run_env \<Rightarrow> string \<Rightarrow> delta_plan" where
  "full_without_receipt env reason =
     \<lparr>dp_mode = FullScan, dp_root = None, dp_dataset = None, dp_generation = None,
      dp_contract = calculation_contract_hash env, dp_files = rn_files env, dp_current = [], dp_selected = [],
      dp_removed = [], dp_previous = [], dp_reason = reason\<rparr>"

definition parents :: "path \<Rightarrow> path list" where
  "parents p = map (\<lambda>n. take n p) (rev [0..<length p])"

definition dataset_above :: "run_env \<Rightarrow> path \<Rightarrow> path option" where
  "dataset_above env p = find (\<lambda>d. map_of (rn_dataset env d) MANIFEST \<noteq> None) (parents p)"

definition dataset_root :: "run_env \<Rightarrow> path option" where
  "dataset_root env =
     (let roots = map (dataset_above env) (rn_files env) in
      if None \<in> set roots then None
      else (case remdups roots of [Some root] \<Rightarrow> Some root | _ \<Rightarrow> None))"

definition upstream_segments :: "run_env \<Rightarrow> path \<Rightarrow> pydict \<Rightarrow> upstream_segment list result" where
  "upstream_segments env root manifest =
     res_bind (normalized_parts (rn_sha env) manifest) (\<lambda>segments.
       Inr (map (\<lambda>s. \<lparr>us_id = sg_id s, us_relative = sg_path s, us_path = join_path root (sg_path s),
                       us_sha = sg_sha s, us_rows = sg_rows s\<rparr>) segments))"

text \<open>A segment is selected when the previous manifest has no segment of its path and content.\<close>

definition is_new :: "(string \<times> calculated_segment) list \<Rightarrow> upstream_segment \<Rightarrow> bool" where
  "is_new previous s =
     (case map_of previous (us_relative s) of None \<Rightarrow> True | Some old \<Rightarrow> sd_sha old \<noteq> us_sha s)"

definition compare_segments ::
  "run_env \<Rightarrow> path \<Rightarrow> string \<Rightarrow> string \<Rightarrow> upstream_segment list \<Rightarrow> calculation_manifest option \<Rightarrow> delta_plan" where
  "compare_segments env root dataset generation segments previous =
     (let contract = calculation_contract_hash env;
          plan = (\<lambda>mode selected removed ids reason.
            \<lparr>dp_mode = mode, dp_root = Some root, dp_dataset = Some dataset, dp_generation = Some generation,
             dp_contract = contract, dp_files = map us_path selected, dp_current = segments, dp_selected = selected,
             dp_removed = removed, dp_previous = ids, dp_reason = reason\<rparr>)
      in case previous of
           None \<Rightarrow> plan Initial segments [] [] ''calculation_manifest_missing''
         | Some m \<Rightarrow>
             (let ids = map sd_id (cm_segments m) in
              if cm_dataset m \<noteq> Some dataset \<or> cm_contract m \<noteq> Some contract
              then plan FullContractChange segments ids ids ''dataset_or_calculation_contract_changed''
              else
                (let by_path = segments_by_path (cm_segments m);
                     selected = filter (is_new by_path) segments;
                     removed = map (\<lambda>(p, s). sd_id s) (filter (\<lambda>(p, s). p \<notin> set (map us_relative segments)) by_path)
                 in if selected = [] \<and> removed = []
                    then plan Unchanged selected removed ids ''upstream_generation_already_consumed''
                    else plan Delta selected removed ids ''manifest_segment_delta'')))"

definition plan_upstream_delta :: "run_env \<Rightarrow> stored_file option \<Rightarrow> delta_plan result" where
  "plan_upstream_delta env calculation =
     (case dataset_root env of
        None \<Rightarrow> Inr (full_without_receipt env ''upstream_manifest_unavailable'')
      | Some root \<Rightarrow>
          (case (read_manifest (rn_dataset env root), read_dataset_change_receipt (rn_dataset env root)) of
             (Some manifest, Some (VDict receipt)) \<Rightarrow>
               (let generation = str_or (get_key manifest ''generation_id'') [] in
                if generation = [] \<or> get_key receipt ''generation_id'' \<noteq> VStr generation
                then Inr (full_without_receipt env ''upstream_receipt_generation_mismatch'')
                else res_bind (upstream_segments env root manifest) (\<lambda>segments.
                  if set (map us_path segments) \<noteq> set (rn_files env)
                  then Inr (full_without_receipt env ''upstream_manifest_file_mismatch'')
                  else res_bind (read_calculation_manifest calculation) (\<lambda>previous.
                    Inr (compare_segments env root (str_or (get_key receipt ''dataset_id'') []) generation segments previous))))
           | _ \<Rightarrow> Inr (full_without_receipt env ''upstream_receipt_unavailable'')))"

section \<open>The segments a run calculates\<close>

definition stat_text :: "int \<times> int \<Rightarrow> string" where
  "stat_text s = int_str (fst s) @ '':'' @ int_str (snd s)"

definition selected_segments :: "run_env \<Rightarrow> delta_plan \<Rightarrow> upstream_segment list" where
  "selected_segments env delta =
     (if dp_selected delta \<noteq> [] then dp_selected delta
      else map (\<lambda>p. \<lparr>us_id = rn_sha env (path_text p), us_relative = path_text p, us_path = p,
                     us_sha = rn_sha env (stat_text (rn_stat env p)), us_rows = 0\<rparr>) (dp_files delta))"

definition run_key :: "run_env \<Rightarrow> delta_plan \<Rightarrow> string" where
  "run_key env delta =
     rn_sha env (json_compact (VDict
       [(''dataset_id'', optional_text (dp_dataset delta)), (''generation_id'', optional_text (dp_generation delta)),
        (''calculation_contract_hash'', VStr (dp_contract delta)),
        (''selected'', VList (map (\<lambda>s. VList [VStr (us_relative s), VStr (us_sha s)]) (selected_segments env delta))),
        (''removed'', VList (map VStr (sort (dp_removed delta))))]))"

definition segment_fingerprint :: "run_env \<Rightarrow> upstream_segment \<Rightarrow> string \<Rightarrow> string" where
  "segment_fingerprint env s contract = rn_sha env (us_id s @ '':'' @ us_sha s @ '':'' @ contract)"

text \<open>The segments that count as calculated after a run.\<close>

definition next_segment ::
  "(string \<times> calculated_segment) list \<Rightarrow> string list \<Rightarrow> int option \<Rightarrow> (string \<times> string list) list \<Rightarrow> upstream_segment \<Rightarrow>
   calculated_segment option" where
  "next_segment old selected_ids seq parts s =
     (if us_id s \<in> set selected_ids
      then Some \<lparr>sd_id = us_id s, sd_path = us_relative s, sd_sha = us_sha s, sd_rows = us_rows s, sd_seq = seq,
                 sd_parts = (case map_of parts (us_id s) of None \<Rightarrow> [] | Some ps \<Rightarrow> ps)\<rparr>
      else (case map_of old (us_relative s) of
              Some prior \<Rightarrow> if sd_sha prior = us_sha s then Some prior else None | None \<Rightarrow> None))"

definition next_active_segments ::
  "calculation_manifest option \<Rightarrow> delta_plan \<Rightarrow> int option \<Rightarrow> (string \<times> string list) list \<Rightarrow> calculated_segment list" where
  "next_active_segments previous delta seq parts =
     (let old = (case previous of None \<Rightarrow> [] | Some m \<Rightarrow> segments_by_path (cm_segments m))
      in List.map_filter (next_segment old (map us_id (dp_selected delta)) seq parts) (dp_current delta))"

section \<open>The bounded executor\<close>

text \<open>
  Tasks run at once, up to the number of workers; what they wrote is adopted in the order they were
  submitted. A task's future is its result.
\<close>

record pending_task =
  pt_result :: "task_output list result"
  pt_segment :: string

type_synonym executor = "pending_task list \<times> append_transaction"

definition adopt_task :: "pending_task \<Rightarrow> append_transaction \<Rightarrow> append_transaction result" where
  "adopt_task t tx =
     res_bind (pt_result t) (\<lambda>outs.
     raise_if (outs = []) (append_error ''invalid_task_output'')
       (res_fold (\<lambda>out tx. adopt_parquet_file out (pt_segment t) tx) outs tx))"

fun adopt_first :: "executor \<Rightarrow> executor result" where
  "adopt_first ([], tx) = Inl (IndexError ''pop from empty list'')"
| "adopt_first (t # ts, tx) = res_bind (adopt_task t tx) (\<lambda>tx. Inr (ts, tx))"

definition submit_task :: "nat \<Rightarrow> pending_task \<Rightarrow> executor \<Rightarrow> executor result" where
  "submit_task workers t ex =
     (let pending = fst ex @ [t]
      in if workers \<le> length pending then adopt_first (pending, snd ex) else Inr (pending, snd ex))"

fun finish_tasks :: "executor \<Rightarrow> append_transaction result" where
  "finish_tasks ([], tx) = Inr tx"
| "finish_tasks (t # ts, tx) = res_bind (adopt_task t tx) (\<lambda>tx. finish_tasks (ts, tx))"

section \<open>A run\<close>

definition segment_at_path :: "upstream_segment list \<Rightarrow> path \<Rightarrow> upstream_segment option" where
  "segment_at_path selected p = map_of (dict_of_pairs (map (\<lambda>s. (us_path s, s)) selected)) p"

text \<open>One coordinate file: a task, or nothing when none of its outputs can be calculated.\<close>

definition coordinate_task ::
  "run_env \<Rightarrow> delta_plan \<Rightarrow> upstream_segment list \<Rightarrow> int \<Rightarrow> coordinate_batch \<Rightarrow> pending_task option result" where
  "coordinate_task env delta selected seq c =
     (case remdups (cb_sources c) of
        [source] \<Rightarrow>
          (case segment_at_path selected source of
             None \<Rightarrow> Inl (ValidationError ''incremental.segment_mismatch'')
           | Some segment \<Rightarrow>
               (let names = segment_expression_names (cp_fingerprints (rn_plan env)) (cb_columns c)
                in if names = [] \<and> \<not> cs_wide (rn_spec env) then Inr None
                   else res_bind (build_task_request (rn_spec env) (rn_plan env) names (cb_columns c)) (\<lambda>request.
                     Inr (Some \<lparr>pt_result = rn_execute env request c seq (segment_fingerprint env segment (dp_contract delta)),
                                pt_segment = us_id segment\<rparr>))))
      | _ \<Rightarrow> Inl (ValidationError ''incremental.ambiguous_segment_lineage''))"

definition run_coordinate ::
  "run_env \<Rightarrow> delta_plan \<Rightarrow> upstream_segment list \<Rightarrow> int \<Rightarrow> coordinate_batch \<Rightarrow> nat \<times> executor \<Rightarrow> (nat \<times> executor) result" where
  "run_coordinate env delta selected seq c st =
     res_bind (coordinate_task env delta selected seq c) (\<lambda>task.
     case task of
       None \<Rightarrow> Inr st
     | Some t \<Rightarrow> res_bind (submit_task (rn_workers env) t (snd st)) (\<lambda>ex. Inr (fst st + 1, ex)))"

definition run_coordinates ::
  "run_env \<Rightarrow> delta_plan \<Rightarrow> upstream_segment list \<Rightarrow> coordinate_batch list \<Rightarrow> append_transaction \<Rightarrow>
   (nat \<times> append_transaction) result" where
  "run_coordinates env delta selected coordinates tx =
     res_bind (res_fold (run_coordinate env delta selected (at_seq tx)) coordinates (0, [], tx)) (\<lambda>(n, ex).
     res_bind (finish_tasks ex) (\<lambda>tx. Inr (n, tx)))"

definition output_mode :: "run_env \<Rightarrow> string" where
  "output_mode env = (if cs_wide (rn_spec env) then WIDE_FACT else LONG_FACT)"

text \<open>
  The transaction of a run: the generation it appended, if it submitted a task, and the dataset it
  leaves. A failure rolls the transaction back; its sequence number stays reserved.
\<close>

definition append_generation ::
  "run_env \<Rightarrow> delta_plan \<Rightarrow> upstream_segment list \<Rightarrow> coordinate_batch list \<Rightarrow> append_disk \<Rightarrow>
   appended_generation option result \<times> append_disk" where
  "append_generation env delta selected coordinates disk =
     (case begin_append (run_key env delta) (cs_identity (rn_spec env)) (cs_partition (rn_spec env)) (output_mode env)
             (if cs_wide (rn_spec env) then rn_columns env else []) disk of
        Inl e \<Rightarrow> (Inl e, disk)
      | Inr (tx, reserved) \<Rightarrow>
          (case run_coordinates env delta selected coordinates tx of
             Inl e \<Rightarrow> (Inl e, reserved)
           | Inr (n, tx) \<Rightarrow>
               if n = 0 then (Inr None, reserved)
               else (case commit_append (rn_show env) (rn_checksum env) (rn_now env) (rn_metadata env n) tx reserved of
                       Inl e \<Rightarrow> (Inl e, reserved)
                     | Inr (g, committed) \<Rightarrow> (Inr (Some g), committed))))"

record run_state =
  rs_disk :: append_disk
  rs_calculation :: "stored_file option"

definition run_selection :: "run_env \<Rightarrow> delta_plan \<Rightarrow> upstream_segment list" where
  "run_selection env delta = (if cp_fingerprints (rn_plan env) = [] then [] else selected_segments env delta)"

definition planned_coordinates :: "run_env \<Rightarrow> upstream_segment list \<Rightarrow> coordinate_batch list result" where
  "planned_coordinates env selected = (if selected = [] then Inr [] else rn_coordinates env selected)"

text \<open>Everything up to the commit.\<close>

definition run_until_commit ::
  "run_env \<Rightarrow> delta_plan \<Rightarrow> append_disk \<Rightarrow> appended_generation option result \<times> append_disk" where
  "run_until_commit env delta disk =
     (let selected = run_selection env delta in
      case planned_coordinates env selected of
        Inl e \<Rightarrow> (Inl e, disk)
      | Inr coordinates \<Rightarrow>
          if coordinates = [] then (Inr None, disk)
          else append_generation env delta selected coordinates disk)"

definition record_run ::
  "delta_plan \<Rightarrow> calculation_manifest option \<Rightarrow> appended_generation option \<Rightarrow> stored_file" where
  "record_run delta previous appended =
     write_calculation_manifest (dp_dataset delta) (dp_generation delta) (dp_contract delta)
       (next_active_segments previous delta (map_option ag_seq appended)
          (case appended of None \<Rightarrow> [] | Some g \<Rightarrow> ag_parts g))"

definition execute_segment_plan ::
  "run_env \<Rightarrow> run_state \<Rightarrow> (delta_plan \<times> appended_generation option) result \<times> run_state" where
  "execute_segment_plan env st =
     (case plan_upstream_delta env (rs_calculation st) of
        Inl e \<Rightarrow> (Inl e, st)
      | Inr delta \<Rightarrow>
          (case read_calculation_manifest (rs_calculation st) of
             Inl e \<Rightarrow> (Inl e, st)
           | Inr previous \<Rightarrow>
               (case run_until_commit env delta (rs_disk st) of
                  (Inl e, disk) \<Rightarrow> (Inl e, st\<lparr>rs_disk := disk\<rparr>)
                | (Inr appended, disk) \<Rightarrow>
                    (Inr (delta, appended),
                     \<lparr>rs_disk = disk, rs_calculation = Some (record_run delta previous appended)\<rparr>))))"

text \<open>A run that is killed after its commit, before it has recorded what it calculated.\<close>

definition killed_before_record :: "run_env \<Rightarrow> run_state \<Rightarrow> run_state" where
  "killed_before_record env st =
     (case plan_upstream_delta env (rs_calculation st) of
        Inl e \<Rightarrow> st
      | Inr delta \<Rightarrow> st\<lparr>rs_disk := snd (run_until_commit env delta (rs_disk st))\<rparr>)"

section \<open>The manifest is read back as it was written\<close>

definition nonempty :: "string option \<Rightarrow> string option" where
  "nonempty v = (if v = Some [] then None else v)"

lemma optional_roundtrip [simp]: "optional_string (optional_text v) = nonempty v"
  by (auto simp: optional_string_def optional_text_def nonempty_def split: option.split)

lemma optional_string_text [simp]: "optional_string (VStr s) = nonempty (Some s)"
  by (simp add: optional_string_def nonempty_def)

lemma segment_roundtrip: "read_segment (segment_document s) = Inr s"
proof -
  have "py_iter (py_or (VList (map VStr ps)) (VTuple [])) = Inr (map VStr ps)" for ps
    by (simp add: py_or_def)
  moreover have "map py_str (map VStr ps) = ps" for ps by (induction ps) simp_all
  ultimately show ?thesis
    by (cases s) (simp add: read_segment_def segment_document_def segment_item_def str_item_def item_at_def get_key_def
        split: option.split)
qed

lemma segments_roundtrip: "res_map read_segment (map segment_document ss) = Inr ss"
  by (induction ss) (simp_all add: segment_roundtrip)

lemma segment_document_plain: "json_plain (segment_document s)"
  by (auto simp: segment_document_def list_all_iff split: option.split)

lemma written_calculation_manifest:
  "read_calculation_manifest (Some (write_calculation_manifest dataset generation contract active)) =
    raise_if (\<not> distinct (map sd_path active)) invalid_calculation_manifest
      (Inr (Some \<lparr>cm_dataset = nonempty dataset, cm_generation = nonempty generation, cm_contract = nonempty (Some contract),
                  cm_segments = sort_key sd_path active\<rparr>))"
proof -
  define d where "d = [(''schema_version'', VStr CALCULATION_MANIFEST_VERSION), (''dataset_id'', optional_text dataset),
       (''upstream_generation_id'', optional_text generation), (''calculation_contract_hash'', VStr contract),
       (''active_segments'', VList (map segment_document (sort_key sd_path active)))]"
  have "json_plain (VDict d)"
    by (auto simp: d_def list_all_iff segment_document_plain optional_text_def split: option.split)
  then have "json_safe (VDict d) = VDict d" by (rule json_safe_plain)
  then have "load_json (Json (VDict d)) = Some (VDict d)" by (simp only: load_json_def stored_file.case)
  moreover have "get_key d ''schema_version'' = VStr CALCULATION_MANIFEST_VERSION" "get_key d ''dataset_id'' = optional_text dataset"
    "get_key d ''upstream_generation_id'' = optional_text generation" "get_key d ''calculation_contract_hash'' = VStr contract"
    "get_key d ''active_segments'' = VList (map segment_document (sort_key sd_path active))"
    by (simp_all add: d_def get_key_def)
  moreover have "distinct (map sd_path (sort_key sd_path active)) = distinct (map sd_path active)"
    by (metis distinct_map distinct_sort set_sort)
  ultimately show ?thesis
    unfolding write_calculation_manifest_def d_def [symmetric] read_calculation_manifest_def
    by (simp add: segments_roundtrip)
qed

lemma calculation_manifest_roundtrip:
  assumes "distinct (map sd_path active)"
  shows "read_calculation_manifest (Some (write_calculation_manifest dataset generation contract active)) =
    Inr (Some \<lparr>cm_dataset = nonempty dataset, cm_generation = nonempty generation, cm_contract = nonempty (Some contract),
               cm_segments = sort_key sd_path active\<rparr>)"
  using assms by (simp add: written_calculation_manifest)

text \<open>A document with two segments of one path is written without complaint and then refused.\<close>

lemma duplicate_paths_refused:
  assumes "\<not> distinct (map sd_path active)"
  shows "read_calculation_manifest (Some (write_calculation_manifest dataset generation contract active)) =
    Inl invalid_calculation_manifest"
  using assms by (simp add: written_calculation_manifest)

section \<open>The executor adopts in the order of submission\<close>

lemma finish_adopts: "finish_tasks (ts, tx) = res_fold adopt_task ts tx"
proof (induction ts arbitrary: tx)
  case (Cons t ts)
  have "(\<lambda>tx. finish_tasks (ts, tx)) = res_fold adopt_task ts" using Cons.IH by (rule ext)
  then show ?case by simp
qed simp

lemma submit_then_finish: "res_bind (submit_task workers t ex) finish_tasks = finish_tasks (fst ex @ [t], snd ex)"
proof (cases "fst ex @ [t]")
  case (Cons u us)
  then show ?thesis by (simp add: submit_task_def res_bind_assoc Let_def)
qed simp

text \<open>At no time more tasks are pending than there are workers.\<close>

lemma submit_bound:
  assumes "submit_task workers t ex = Inr ex'" and "length (fst ex) < workers"
  shows "length (fst ex') < workers"
  using assms by (cases ex; cases "fst ex") (auto simp: submit_task_def res_simps Let_def split: if_splits)

text \<open>The run of all coordinates is the adoption of their tasks in order, whatever the number of workers.\<close>

lemma run_coordinates_order:
  "run_coordinates env delta selected cs tx = Inr (n, tx') \<longleftrightarrow>
   (\<exists>tasks. res_map (coordinate_task env delta selected (at_seq tx)) cs = Inr tasks \<and>
      n = length (List.map_filter id tasks) \<and> res_fold adopt_task (List.map_filter id tasks) tx = Inr tx')"
proof -
  have step: "res_bind (res_fold (run_coordinate env delta selected seq) cs (k, ex))
        (\<lambda>(m, ex). res_bind (finish_tasks ex) (\<lambda>tx. Inr (m, tx))) = Inr (n, tx') \<longleftrightarrow>
      (\<exists>tasks. res_map (coordinate_task env delta selected seq) cs = Inr tasks \<and>
        n = k + length (List.map_filter id tasks) \<and> res_bind (finish_tasks ex) (res_fold adopt_task (List.map_filter id tasks)) = Inr tx')"
    for seq k ex
  proof (induction cs arbitrary: k ex)
    case Nil
    then show ?case by (auto simp: map_filter_simps res_simps)
  next
    case (Cons c cs)
    show ?case
    proof (cases "coordinate_task env delta selected seq c")
      case (Inl e)
      then show ?thesis by (simp add: run_coordinate_def)
    next
      case (Inr t)
      have tasks: "(\<exists>tasks. res_map (coordinate_task env delta selected seq) (c # cs) = Inr tasks \<and> P tasks) \<longleftrightarrow>
          (\<exists>ts. res_map (coordinate_task env delta selected seq) cs = Inr ts \<and> P (t # ts))" for P
        by (auto simp: res_simps Inr)
      show ?thesis
      proof (cases t)
        case None
        have "res_fold (run_coordinate env delta selected seq) (c # cs) (k, ex) =
            res_fold (run_coordinate env delta selected seq) cs (k, ex)"
          by (simp add: run_coordinate_def Inr None)
        moreover have "List.map_filter id (t # ts) = List.map_filter id ts" for ts by (simp add: None map_filter_simps)
        ultimately show ?thesis unfolding tasks by (simp only: Cons.IH)
      next
        case (Some task)
        have fin: "finish_tasks (fst ex @ [task], snd ex) = res_bind (finish_tasks ex) (adopt_task task)"
        proof -
          have "res_fold adopt_task [task] = adopt_task task" by (rule ext) (simp add: res_bind_def split: sum.split)
          then show ?thesis by (cases ex) (simp add: finish_adopts res_fold_append)
        qed
        have count: "List.map_filter id (t # ts) = task # List.map_filter id ts" for ts by (simp add: Some map_filter_simps)
        have rest: "res_bind (finish_tasks ex) (res_fold adopt_task (task # ts)) =
            res_bind (finish_tasks (fst ex @ [task], snd ex)) (res_fold adopt_task ts)" for ts
        proof -
          have "res_fold adopt_task (task # ts) = (\<lambda>x. res_bind (adopt_task task x) (res_fold adopt_task ts))" by (rule ext) simp
          then show ?thesis unfolding fin res_bind_assoc by simp
        qed
        have fold: "res_fold (run_coordinate env delta selected seq) (c # cs) (k, ex) =
            res_bind (submit_task (rn_workers env) task ex) (\<lambda>ex. res_fold (run_coordinate env delta selected seq) cs (k + 1, ex))"
          by (simp add: run_coordinate_def Inr Some res_bind_assoc)
        note submitted = submit_then_finish [of "rn_workers env" task ex, symmetric]
        show ?thesis
        proof (cases "submit_task (rn_workers env) task ex")
          case (Inl e)
          then show ?thesis unfolding tasks count rest fold submitted by simp
        next
          case (Inr ex')
          then show ?thesis unfolding tasks count rest fold submitted using Cons.IH [of "k + 1" ex'] by (simp add: id_def)
        qed
      qed
    qed
  qed
  show ?thesis unfolding run_coordinates_def using step [of "at_seq tx" 0 "([], tx)"] by simp
qed

section \<open>A consumed upstream is unchanged\<close>

lemma by_path_member: "map_of (segments_by_path ss) p = Some s \<Longrightarrow> sd_path s = p \<and> s \<in> set ss"
  unfolding segments_by_path_def map_of_dict_of_pairs by (auto dest: map_of_SomeD)

lemma by_path_distinct: "distinct (map sd_path ss) \<Longrightarrow> segments_by_path ss = map (\<lambda>s. (sd_path s, s)) ss"
  unfolding segments_by_path_def by (rule dict_of_distinct_pairs) (simp add: comp_def)

lemma calculated_lookup: "distinct (map sd_path ss) \<Longrightarrow> s \<in> set ss \<Longrightarrow> map_of (segments_by_path ss) (sd_path s) = Some s"
  by (simp add: by_path_distinct map_of_eq_Some_iff comp_def)

text \<open>A plan from a receipt covers every segment: it is selected, or was calculated with this content.\<close>

definition covered :: "calculation_manifest option \<Rightarrow> upstream_segment \<Rightarrow> bool" where
  "covered previous s \<longleftrightarrow> (\<exists>m old. previous = Some m \<and> map_of (segments_by_path (cm_segments m)) (us_relative s) = Some old \<and>
     sd_sha old = us_sha s)"

lemma compare_covers:
  assumes "s \<in> set segments"
  shows "s \<in> set (dp_selected (compare_segments env root dataset generation segments previous)) \<or> covered previous s"
  using assms by (auto simp: compare_segments_def covered_def Let_def is_new_def filter_empty_conv split: option.splits if_splits)

lemma compare_fields [simp]:
  "dp_current (compare_segments env root dataset generation segments previous) = segments"
  "dp_dataset (compare_segments env root dataset generation segments previous) = Some dataset"
  "dp_generation (compare_segments env root dataset generation segments previous) = Some generation"
  "dp_contract (compare_segments env root dataset generation segments previous) = calculation_contract_hash env"
  by (simp_all add: compare_segments_def Let_def split: option.split)

lemma plan_from_receipt:
  assumes "plan_upstream_delta env calculation = Inr delta" and "dp_mode delta \<noteq> FullScan"
  shows "\<exists>root dataset generation segments previous.
    read_calculation_manifest calculation = Inr previous \<and> dataset \<noteq> [] \<and>
    delta = compare_segments env root dataset generation segments previous \<and>
    (\<forall>f p. read_calculation_manifest f = Inr p \<longrightarrow>
       plan_upstream_delta env f = Inr (compare_segments env root dataset generation segments p))"
proof -
  from assms obtain root where root: "dataset_root env = Some root"
    by (auto simp: plan_upstream_delta_def full_without_receipt_def split: option.splits)
  from assms root obtain manifest receipt where docs: "read_manifest (rn_dataset env root) = Some manifest"
    "read_dataset_change_receipt (rn_dataset env root) = Some (VDict receipt)"
    by (auto simp: plan_upstream_delta_def full_without_receipt_def split: option.splits pyval.splits)
  define generation where "generation = str_or (get_key manifest ''generation_id'') []"
  have gen: "\<not> (generation = [] \<or> get_key receipt ''generation_id'' \<noteq> VStr generation)"
  proof (rule notI)
    assume "generation = [] \<or> get_key receipt ''generation_id'' \<noteq> VStr generation"
    then have "plan_upstream_delta env calculation = Inr (full_without_receipt env ''upstream_receipt_generation_mismatch'')"
      by (simp add: plan_upstream_delta_def root docs generation_def [symmetric] Let_def)
    with assms show False by (auto simp: full_without_receipt_def)
  qed
  with assms obtain segments where segments: "upstream_segments env root manifest = Inr segments"
    by (auto simp: plan_upstream_delta_def root docs full_without_receipt_def generation_def Let_def res_simps)
  have files: "set (map us_path segments) = set (rn_files env)"
  proof (rule ccontr)
    assume "set (map us_path segments) \<noteq> set (rn_files env)"
    with gen segments have "plan_upstream_delta env calculation = Inr (full_without_receipt env ''upstream_manifest_file_mismatch'')"
      by (simp add: plan_upstream_delta_def root docs generation_def [symmetric] Let_def)
    with assms show False by (auto simp: full_without_receipt_def)
  qed
  define dataset where "dataset = str_or (get_key receipt ''dataset_id'') []"
  have plan: "plan_upstream_delta env f =
      res_bind (read_calculation_manifest f) (\<lambda>p. Inr (compare_segments env root dataset generation segments p))" for f
    using gen files by (simp add: plan_upstream_delta_def root docs segments generation_def [symmetric] dataset_def [symmetric] Let_def)
  have "validate_dataset_change_receipt (VDict receipt) None"
    using docs(2) by (auto simp: read_dataset_change_receipt_def split: option.splits if_splits)
  then have "nonempty_text (get_key receipt ''dataset_id'')" by (simp add: validate_dataset_change_receipt_def Let_def)
  then have "dataset \<noteq> []"
    by (cases "get_key receipt ''dataset_id''") (simp_all add: dataset_def nonempty_text_def str_of_def)
  with assms(1) plan show ?thesis by (fastforce simp: res_simps)
qed

lemma next_segments_keep:
  assumes "\<forall>s\<in>set ss. \<exists>x. f s = Some x \<and> sd_path x = us_relative s \<and> sd_sha x = us_sha s"
  shows "map sd_path (List.map_filter f ss) = map us_relative ss \<and> map sd_sha (List.map_filter f ss) = map us_sha ss \<and> (\<forall>s\<in>set ss. \<exists>x\<in>set (List.map_filter f ss). f s = Some x)"
  using assms by (induction ss) (auto simp: map_filter_simps)

lemma next_segment_covered:
  assumes "s \<in> set (dp_selected delta) \<or> covered previous s"
  shows "\<exists>x. next_segment (case previous of None \<Rightarrow> [] | Some m \<Rightarrow> segments_by_path (cm_segments m))
      (map us_id (dp_selected delta)) seq parts s = Some x \<and> sd_path x = us_relative s \<and> sd_sha x = us_sha s"
  using assms by (auto simp: next_segment_def covered_def dest: by_path_member)


lemma next_active_covers:
  fixes seq :: "int option" and parts :: "(string \<times> string list) list"
  assumes "\<forall>s\<in>set (dp_current delta). s \<in> set (dp_selected delta) \<or> covered previous s"
    and "distinct (map us_relative (dp_current delta))"
  defines "active \<equiv> next_active_segments previous delta seq parts"
  shows "map sd_path active = map us_relative (dp_current delta)" and "map sd_sha active = map us_sha (dp_current delta)"
    and "distinct (map sd_path active)"
    and "\<forall>s\<in>set (dp_current delta). \<exists>x\<in>set active. sd_path x = us_relative s \<and> sd_sha x = us_sha s"
proof -
  let ?f = "next_segment (case previous of None \<Rightarrow> [] | Some m \<Rightarrow> segments_by_path (cm_segments m))
    (map us_id (dp_selected delta)) seq parts"
  have active: "active = List.map_filter ?f (dp_current delta)" by (simp add: active_def next_active_segments_def)
  have each: "\<forall>s\<in>set (dp_current delta). \<exists>x. ?f s = Some x \<and> sd_path x = us_relative s \<and> sd_sha x = us_sha s"
    using assms(1) next_segment_covered by blast
  from next_segments_keep [OF this] show "map sd_path active = map us_relative (dp_current delta)"
    and "map sd_sha active = map us_sha (dp_current delta)" by (simp_all add: active)
  then show "distinct (map sd_path active)" using assms(2) by simp
  show "\<forall>s\<in>set (dp_current delta). \<exists>x\<in>set active. sd_path x = us_relative s \<and> sd_sha x = us_sha s"
  proof
    fix s
    assume s: "s \<in> set (dp_current delta)"
    with next_segments_keep [OF each] obtain x where x: "x \<in> set active" "?f s = Some x" unfolding active by blast
    moreover from each s obtain y where "?f s = Some y" "sd_path y = us_relative s" "sd_sha y = us_sha s" by blast
    ultimately show "\<exists>x\<in>set active. sd_path x = us_relative s \<and> sd_sha x = us_sha s" by auto
  qed
qed

lemma compare_consumed:
  fixes root :: path and generation :: string
  assumes "cm_dataset m = Some dataset" and "cm_contract m = Some (calculation_contract_hash env)"
    and "distinct (map sd_path (cm_segments m))" and "sd_path ` set (cm_segments m) = us_relative ` set segments"
    and "\<forall>s\<in>set segments. \<exists>x\<in>set (cm_segments m). sd_path x = us_relative s \<and> sd_sha x = us_sha s"
  defines "d \<equiv> compare_segments env root dataset generation segments (Some m)"
  shows "dp_mode d = Unchanged \<and> dp_selected d = [] \<and> dp_removed d = [] \<and> dp_files d = []"
proof -
  have "\<not> is_new (segments_by_path (cm_segments m)) s" if "s \<in> set segments" for s
  proof -
    from assms(5) that obtain x where x: "x \<in> set (cm_segments m)" "sd_path x = us_relative s" "sd_sha x = us_sha s" by blast
    with calculated_lookup [OF assms(3) x(1)] show ?thesis by (simp add: is_new_def)
  qed
  then have selected: "filter (is_new (segments_by_path (cm_segments m))) segments = []" by (simp add: filter_empty_conv)
  have removed: "filter (\<lambda>(p, s). p \<notin> set (map us_relative segments)) (segments_by_path (cm_segments m)) = []"
    using assms(4) by (auto simp: by_path_distinct [OF assms(3)] filter_empty_conv)
  show ?thesis unfolding d_def compare_segments_def by (simp add: Let_def assms(1,2) selected removed del: set_map)
qed

lemma next_active_again:
  assumes "distinct (map sd_path active)" and "map sd_path active = map us_relative segments"
    and "map sd_sha active = map us_sha segments"
    and "dp_current d = segments" and "dp_selected d = []" and "cm_segments m = sort_key sd_path active"
  shows "next_active_segments (Some m) d seq parts = active"
proof -
  have dist: "distinct (map sd_path (cm_segments m))" using assms(1,6) by (metis distinct_map distinct_sort set_sort)
  have "List.map_filter (next_segment (segments_by_path (cm_segments m)) [] seq parts) ss = xs"
    if "map sd_path xs = map us_relative ss" "map sd_sha xs = map us_sha ss" "set xs \<subseteq> set active" for ss xs
    using that
  proof (induction ss arbitrary: xs)
    case (Cons s ss)
    then obtain x ys where x: "xs = x # ys" "sd_path x = us_relative s" "sd_sha x = us_sha s" "x \<in> set active"
      "map sd_path ys = map us_relative ss" "map sd_sha ys = map us_sha ss" "set ys \<subseteq> set active" by (cases xs) auto
    have "x \<in> set (cm_segments m)" using x(4) assms(6) by simp
    from calculated_lookup [OF dist this] x have "next_segment (segments_by_path (cm_segments m)) [] seq parts s = Some x"
      by (simp add: next_segment_def)
    with Cons.IH [OF x(5-7)] x(1) show ?case by (simp add: map_filter_simps)
  qed (simp add: map_filter_simps)
  from this [OF assms(2,3)] show ?thesis by (simp add: next_active_segments_def assms(4,5))
qed

text \<open>
  C8: after a run that planned from the upstream's change receipt, the same upstream state is consumed:
  the next plan finds it unchanged and selects nothing, and a further run appends nothing and leaves
  the dataset and the calculation manifest as they are.
\<close>

theorem consumed_upstream_is_unchanged:
  assumes "execute_segment_plan env st = (Inr (delta, appended), st')"
    and "dp_mode delta \<noteq> FullScan" and "distinct (map us_relative (dp_current delta))"
    and "calculation_contract_hash env \<noteq> []"
  shows "\<exists>following. plan_upstream_delta env (rs_calculation st') = Inr following \<and> dp_mode following = Unchanged \<and>
    dp_selected following = [] \<and> dp_removed following = [] \<and> execute_segment_plan env st' = (Inr (following, None), st')"
proof -
  from assms(1) obtain previous disk where plan: "plan_upstream_delta env (rs_calculation st) = Inr delta"
    and read: "read_calculation_manifest (rs_calculation st) = Inr previous"
    and st': "st' = \<lparr>rs_disk = disk, rs_calculation = Some (record_run delta previous appended)\<rparr>"
    by (auto simp: execute_segment_plan_def split: sum.splits prod.splits)
  from plan_from_receipt [OF plan assms(2)] obtain root dataset generation segments p
    where p: "read_calculation_manifest (rs_calculation st) = Inr p" and ne: "dataset \<noteq> []"
      and delta: "delta = compare_segments env root dataset generation segments p"
      and again: "\<And>f q. read_calculation_manifest f = Inr q \<Longrightarrow>
        plan_upstream_delta env f = Inr (compare_segments env root dataset generation segments q)" by blast
  have "p = previous" using p read by simp
  have current: "dp_current delta = segments" by (simp add: delta)
  define active where "active = next_active_segments previous delta (map_option ag_seq appended)
    (case appended of None \<Rightarrow> [] | Some g \<Rightarrow> ag_parts g)"
  have "\<forall>s\<in>set (dp_current delta). s \<in> set (dp_selected delta) \<or> covered previous s"
    using compare_covers [of _ segments env root dataset generation p] \<open>p = previous\<close> by (simp add: delta)
  note facts = next_active_covers [OF this assms(3), of "map_option ag_seq appended"
      "case appended of None \<Rightarrow> [] | Some g \<Rightarrow> ag_parts g", folded active_def, unfolded current]
  define m where "m = \<lparr>cm_dataset = Some dataset, cm_generation = nonempty (Some generation),
    cm_contract = Some (calculation_contract_hash env), cm_segments = sort_key sd_path active\<rparr>"
  define following where "following = compare_segments env root dataset generation segments (Some m)"
  have written: "rs_calculation st' = Some (write_calculation_manifest (Some dataset) (Some generation)
      (calculation_contract_hash env) active)"
    by (simp add: st' record_run_def active_def delta)
  have read': "read_calculation_manifest (rs_calculation st') = Inr (Some m)"
    unfolding written using calculation_manifest_roundtrip [OF facts(3)] ne assms(4) by (simp add: m_def nonempty_def)
  have m: "cm_dataset m = Some dataset" "cm_contract m = Some (calculation_contract_hash env)"
    "cm_segments m = sort_key sd_path active" by (simp_all add: m_def)
  have paths: "distinct (map sd_path (cm_segments m))" using facts(3) unfolding m(3) by (metis distinct_map distinct_sort set_sort)
  have same: "sd_path ` set (cm_segments m) = us_relative ` set segments"
    using arg_cong [OF facts(1), of set] by (simp add: m(3))
  have contents: "\<forall>s\<in>set segments. \<exists>x\<in>set (cm_segments m). sd_path x = us_relative s \<and> sd_sha x = us_sha s"
    using facts(4) by (simp add: m(3))
  have following: "dp_mode following = Unchanged" "dp_selected following = []" "dp_removed following = []" "dp_files following = []"
    using compare_consumed [OF m(1,2) paths same contents, of root generation, folded following_def] by simp_all
  have plan': "plan_upstream_delta env (rs_calculation st') = Inr following" unfolding following_def by (rule again [OF read'])
  have "run_selection env following = []" by (simp add: run_selection_def selected_segments_def following)
  then have run: "run_until_commit env following disk = (Inr None, disk)"
    by (simp add: run_until_commit_def planned_coordinates_def)
  have "next_active_segments (Some m) following None [] = active"
    by (rule next_active_again [OF facts(3,1,2)]) (simp_all add: following_def [symmetric] following m(3), simp add: following_def)
  then have "record_run following (Some m) None = write_calculation_manifest (Some dataset) (Some generation)
      (calculation_contract_hash env) active"
    by (simp add: record_run_def following_def)
  then have same: "st' = \<lparr>rs_disk = disk, rs_calculation = Some (record_run following (Some m) None)\<rparr>"
    using written by (simp add: st')
  have "rs_disk st' = disk" by (simp add: st')
  with run have "execute_segment_plan env st' =
      (Inr (following, None), \<lparr>rs_disk = disk, rs_calculation = Some (record_run following (Some m) None)\<rparr>)"
    by (simp add: execute_segment_plan_def plan' read')
  then have "execute_segment_plan env st' = (Inr (following, None), st')" by (simp only: same [symmetric])
  with plan' following show ?thesis by blast
qed

end
