(* ===== verification/IncrementalRuns.thy ===== *)
theory IncrementalRuns
  imports Incremental CalculatedTasks
begin

text \<open>
  What a run of \<open>Incremental\<close> and the log of \<open>SegmentAppend\<close> give together: killed between its commit
  and its calculation manifest, a run that is repeated finds its own generation and records the same.
\<close>

section \<open>A run that is killed after its commit\<close>

definition same_target :: "append_transaction \<Rightarrow> append_transaction \<Rightarrow> bool" where
  "same_target tx tx' \<longleftrightarrow> at_key tx' = at_key tx \<and> at_contract tx' = at_contract tx \<and> at_seq tx' = at_seq tx \<and>
     at_identity tx' = at_identity tx \<and> at_partition tx' = at_partition tx \<and> at_columns tx' = at_columns tx"

lemma same_target_trans: "same_target a b \<Longrightarrow> same_target b c \<Longrightarrow> same_target a c"
  by (simp add: same_target_def)

lemma same_target_refl: "same_target a a"
  by (simp add: same_target_def)

text \<open>
  In a wide transaction the expected schema only grows, so adopting against the final one gives
  the same parts.
\<close>

definition growing :: "(append_transaction \<Rightarrow> append_transaction result) \<Rightarrow> bool" where
  "growing f \<longleftrightarrow> (\<forall>tx tx'. f tx = Inr tx' \<longrightarrow>
     same_target tx tx' \<and> length (at_staged tx) \<le> length (at_staged tx') \<and> (staged_ok tx \<longrightarrow> staged_ok tx') \<and>
     (at_contract tx \<noteq> WIDE_FACT \<longrightarrow> at_expected tx' = at_expected tx) \<and>
     (at_contract tx = WIDE_FACT \<longrightarrow> (\<forall>e. below (at_expected tx') e \<longrightarrow>
        below (at_expected tx) e \<and> f (tx\<lparr>at_expected := Some e\<rparr>) = Inr (tx'\<lparr>at_expected := Some e\<rparr>))))"

lemma growing_adopt: "growing (adopt_parquet_file out segment)"
  unfolding growing_def
proof (intro allI impI)
  fix tx tx'
  assume adopt: "adopt_parquet_file out segment tx = Inr tx'"
  then obtain expected vals where
      expected: "(if at_contract tx = WIDE_FACT
         then res_bind (merge_wide_schema (at_expected tx) (to_fields out)) (\<lambda>s. Inr (Some s)) else Inr (at_expected tx)) = Inr expected"
    and vals: "res_map (partition_value out) (at_partition tx) = Inr vals"
    and tx': "tx' = tx\<lparr>at_expected := expected,
      at_staged := at_staged tx @ [\<lparr>sp_path = part_path (at_seq tx) vals (length (at_staged tx)),
        sp_rows = to_rows out, sp_fields = to_fields out, sp_segment = segment\<rparr>]\<rparr>"
    and checks: "set (at_identity tx) \<subseteq> set (map fd_name (to_fields out))"
      "\<not> (at_contract tx = LONG_FACT \<and> \<not> to_long_schema out)"
      "\<not> (at_contract tx \<noteq> LONG_FACT \<and> map fd_name (to_fields out) \<noteq> at_columns tx)"
    unfolding adopt_parquet_file_def by (auto simp: res_simps)
  have "below (at_expected tx) e \<and>
      adopt_parquet_file out segment (tx\<lparr>at_expected := Some e\<rparr>) = Inr (tx'\<lparr>at_expected := Some e\<rparr>)"
    if wide: "at_contract tx = WIDE_FACT" and e: "below (at_expected tx') e" for e
  proof -
    from expected wide obtain s where s: "merge_wide_schema (at_expected tx) (to_fields out) = Inr s" "expected = Some s"
      by (auto simp: res_simps)
    with e tx' have "schema_le s e" by (simp add: below_def)
    with merge_wide_cases [OF s(1)] have le: "below (at_expected tx) e" "schema_le (to_fields out) e"
      by (auto intro: below_trans schemas.le_trans)
    from schemas.join_absorbs [OF le(2)] have "merge_wide_schema (Some e) (to_fields out) = Inr e" by (simp add: merge_schemas_def)
    moreover have names: "map fd_name (to_fields out) = at_columns tx" using checks(3) wide by simp
    moreover have "set (at_identity tx) \<subseteq> set (at_columns tx)" using checks(1) unfolding names .
    ultimately show ?thesis using vals wide le(1) by (simp add: adopt_parquet_file_def tx' del: set_map)
  qed
  moreover have "at_expected tx' = at_expected tx" if "at_contract tx \<noteq> WIDE_FACT" using that expected tx' by simp
  moreover have "same_target tx tx'" "length (at_staged tx) \<le> length (at_staged tx')" by (simp_all add: tx' same_target_def)
  ultimately show "same_target tx tx' \<and> length (at_staged tx) \<le> length (at_staged tx') \<and> (staged_ok tx \<longrightarrow> staged_ok tx') \<and>
     (at_contract tx \<noteq> WIDE_FACT \<longrightarrow> at_expected tx' = at_expected tx) \<and>
     (at_contract tx = WIDE_FACT \<longrightarrow> (\<forall>e. below (at_expected tx') e \<longrightarrow>
        below (at_expected tx) e \<and> adopt_parquet_file out segment (tx\<lparr>at_expected := Some e\<rparr>) = Inr (tx'\<lparr>at_expected := Some e\<rparr>)))"
    using adopt_facts [OF adopt] by blast
qed

lemma growing_Inr: "growing Inr"
  by (simp add: growing_def same_target_refl)

lemma growing_bind:
  assumes "growing f" and "growing g"
  shows "growing (\<lambda>tx. res_bind (f tx) g)"
  unfolding growing_def
proof (intro allI impI)
  fix a c
  assume "res_bind (f a) g = Inr c"
  then obtain b where f: "f a = Inr b" and g: "g b = Inr c" by (auto simp: res_simps)
  have F: "same_target a b \<and> length (at_staged a) \<le> length (at_staged b) \<and> (staged_ok a \<longrightarrow> staged_ok b) \<and>
     (at_contract a \<noteq> WIDE_FACT \<longrightarrow> at_expected b = at_expected a) \<and>
     (at_contract a = WIDE_FACT \<longrightarrow> (\<forall>e. below (at_expected b) e \<longrightarrow>
        below (at_expected a) e \<and> f (a\<lparr>at_expected := Some e\<rparr>) = Inr (b\<lparr>at_expected := Some e\<rparr>)))"
    using assms(1) f unfolding growing_def by blast
  have G: "same_target b c \<and> length (at_staged b) \<le> length (at_staged c) \<and> (staged_ok b \<longrightarrow> staged_ok c) \<and>
     (at_contract b \<noteq> WIDE_FACT \<longrightarrow> at_expected c = at_expected b) \<and>
     (at_contract b = WIDE_FACT \<longrightarrow> (\<forall>e. below (at_expected c) e \<longrightarrow>
        below (at_expected b) e \<and> g (b\<lparr>at_expected := Some e\<rparr>) = Inr (c\<lparr>at_expected := Some e\<rparr>)))"
    using assms(2) g unfolding growing_def by blast
  have "at_contract b = at_contract a" using F by (simp add: same_target_def)
  with F G same_target_trans [of a b c]
  show "same_target a c \<and> length (at_staged a) \<le> length (at_staged c) \<and> (staged_ok a \<longrightarrow> staged_ok c) \<and>
     (at_contract a \<noteq> WIDE_FACT \<longrightarrow> at_expected c = at_expected a) \<and>
     (at_contract a = WIDE_FACT \<longrightarrow> (\<forall>e. below (at_expected c) e \<longrightarrow>
        below (at_expected a) e \<and> res_bind (f (a\<lparr>at_expected := Some e\<rparr>)) g = Inr (c\<lparr>at_expected := Some e\<rparr>)))"
    by simp
qed

lemma growing_fold: "(\<And>x. x \<in> set xs \<Longrightarrow> growing (f x)) \<Longrightarrow> growing (res_fold f xs)"
proof (induction xs)
  case Nil
  have "res_fold f [] = Inr" by (rule ext) simp
  then show ?case by (simp add: growing_Inr)
next
  case (Cons x xs)
  have "growing (\<lambda>tx. res_bind (f x tx) (res_fold f xs))" by (rule growing_bind) (use Cons in auto)
  moreover have "res_fold f (x # xs) = (\<lambda>tx. res_bind (f x tx) (res_fold f xs))" by (rule ext) simp
  ultimately show ?case by simp
qed

lemma growing_task: "growing (adopt_task t)"
proof (cases "pt_result t")
  case (Inl e)
  then show ?thesis by (simp add: growing_def adopt_task_def)
next
  case (Inr outs)
  have fold: "growing (res_fold (\<lambda>out tx. adopt_parquet_file out (pt_segment t) tx) outs)"
    by (rule growing_fold) (simp add: growing_adopt)
  show ?thesis
  proof (cases "outs = []")
    case True
    with Inr show ?thesis by (simp add: growing_def adopt_task_def)
  next
    case False
    then have "adopt_task t = res_fold (\<lambda>out tx. adopt_parquet_file out (pt_segment t) tx) outs"
      using Inr by (intro ext) (simp add: adopt_task_def)
    with fold show ?thesis by simp
  qed
qed

lemma begin_fields:
  assumes "begin_append key identity parts contract columns disk = Inr (tx, disk')"
  shows "at_key tx = py_strip key \<and> at_contract tx = contract \<and> at_staged tx = [] \<and>
    (contract \<noteq> WIDE_FACT \<longrightarrow> at_expected tx = None)"
  using assms unfolding begin_append_def Let_def by (auto simp: res_simps split: prod.splits)

lemma begin_again:
  assumes "begin_append key identity parts contract columns disk = Inr (tx, disk')"
    and "holds_log contract (ad_manifest later) gens" and "find (\<lambda>g. ge_key g = py_strip key) gens = Some g"
  shows "begin_append key identity parts contract columns later = Inr
    (tx\<lparr>at_seq := ge_seq g, at_expected := if contract = WIDE_FACT
        then manifest_output_schema later (rev (log_items gens)) else None\<rparr>, later)"
proof -
  from read_log [OF assms(2)] obtain m where m: "read_append_manifest contract (ad_manifest later) = Inr m"
    "items_of (get_key m ''generations'') = log_items gens" by blast
  have reserve: "reserve_generation contract (py_strip key) later = Inr (ge_seq g, later)"
    using reserve_log [OF assms(2), of "py_strip key"] assms(3) by simp
  from assms(1) obtain e s where checks: "contract \<in> {LONG_FACT, WIDE_FACT}" "py_strip key \<noteq> []" "parts \<noteq> []"
      "set parts \<subseteq> set identity"
    and tx: "tx = \<lparr>at_key = py_strip key, at_identity = identity, at_partition = parts, at_contract = contract,
      at_columns = columns, at_expected = e, at_seq = s, at_staged = []\<rparr>"
    unfolding begin_append_def Let_def by (auto simp: res_simps split: prod.splits)
  show ?thesis unfolding begin_append_def Let_def using checks by (simp add: tx m reserve)
qed

lemma begin_total:
  assumes "begin_append key identity parts contract columns disk = Inr (tx, disk')"
    and "ad_manifest later = ad_manifest disk" and "logged disk gens"
  shows "\<exists>tx' later'. begin_append key identity parts contract columns later = Inr (tx', later') \<and>
    ad_manifest later' = ad_manifest disk \<and> ad_files later' = ad_files later"
proof -
  from assms(1) obtain m where m: "read_append_manifest contract (ad_manifest disk) = Inr m"
    and checks: "contract \<in> {LONG_FACT, WIDE_FACT}" "py_strip key \<noteq> []" "parts \<noteq> []" "set parts \<subseteq> set identity"
    unfolding begin_append_def Let_def by (auto simp: res_simps split: prod.splits)
  from logged_contract [OF assms(3) m] have "holds_log contract (ad_manifest later) gens" by (simp add: assms(2))
  from reserve_log [OF this, of "py_strip key"] obtain s later' where
    "reserve_generation contract (py_strip key) later = Inr (s, later')" "ad_manifest later' = ad_manifest later"
    "ad_files later' = ad_files later" by (auto split: option.splits)
  with checks m assms(2) show ?thesis unfolding begin_append_def Let_def by simp
qed

lemma normalize_result: "normalize_wide schema actual = Inr s \<Longrightarrow> s = schema"
  by (auto simp: normalize_wide_def res_simps split: if_splits)

lemma placed_wide:
  assumes "at_contract tx = WIDE_FACT" and "at_expected tx = Some e"
  shows "res_map (place_part tx) ps = Inr placed \<Longrightarrow> placed = map (\<lambda>p. (sp_path p, e)) ps"
  by (induction ps arbitrary: placed) (auto simp: place_part_def assms res_simps dest: normalize_result)

lemma placed_expected:
  assumes "at_contract tx = WIDE_FACT" and "res_map (place_part tx) ps = Inr placed" and "ps \<noteq> []"
  shows "\<exists>e. at_expected tx = Some e"
  using assms by (cases ps) (auto simp: place_part_def res_simps split: option.splits)

lemma group_files_committed: "group_files (ge_files (committed_generation checksum tx at metadata)) = group_staged (at_staged tx)"
  by (simp add: group_files_def group_staged_def committed_generation_def fold_map comp_def cong: if_cong)

lemma schema_of_last:
  assumes "at_staged tx = p # ps" and "map_of (ad_files disk) (sp_path p) = Some e"
  shows "manifest_output_schema disk (rev (log_items (gens @ [committed_generation checksum tx at metadata]))) = Some e"
  using assms by (simp add: log_items_def first_schema_def committed_generation_def generation_to_dict_def get_key_def
      file_document_def text_at_def map_filter_simps)

text \<open>Of several transactions one is open here; it has adopted parts since it began.\<close>

lemma append_ok_adopted:
  assumes "append_ok \<lparr>as_disk = disk, as_open = [tx]\<rparr> gens" and "same_target tx tx'" and "staged_ok tx'"
  shows "append_ok \<lparr>as_disk = disk, as_open = [tx']\<rparr> gens"
  using assms by (auto simp: append_ok_def txs_ok_def tx_ok_def fresh_txs_def numbers_def same_target_def)


text \<open>Two results of a transaction that mean the same to the calculation manifest.\<close>

definition same_result :: "appended_generation option \<Rightarrow> appended_generation option \<Rightarrow> bool" where
  "same_result a b \<longleftrightarrow> map_option ag_seq a = map_option ag_seq b \<and> map_option ag_parts a = map_option ag_parts b"

definition same_data :: "append_disk \<Rightarrow> append_disk \<Rightarrow> bool" where
  "same_data a b \<longleftrightarrow> ad_manifest b = ad_manifest a \<and> ad_files b = ad_files a"

abbreviation idle_ok :: "append_disk \<Rightarrow> generation list \<Rightarrow> bool" where
  "idle_ok disk \<equiv> append_ok \<lparr>as_disk = disk, as_open = []\<rparr>"

lemma run_coordinates_grows:
  assumes "run_coordinates env delta selected cs tx = Inr (n, tx')"
  shows "same_target tx tx' \<and> (staged_ok tx \<longrightarrow> staged_ok tx') \<and> (at_contract tx \<noteq> WIDE_FACT \<longrightarrow> at_expected tx' = at_expected tx) \<and>
    (at_contract tx = WIDE_FACT \<longrightarrow> (\<forall>e. below (at_expected tx') e \<longrightarrow>
       run_coordinates env delta selected cs (tx\<lparr>at_expected := Some e\<rparr>) = Inr (n, tx'\<lparr>at_expected := Some e\<rparr>)))"
proof -
  from assms obtain tasks where tasks: "res_map (coordinate_task env delta selected (at_seq tx)) cs = Inr tasks"
    "n = length (List.map_filter id tasks)" "res_fold adopt_task (List.map_filter id tasks) tx = Inr tx'"
    unfolding run_coordinates_order by blast
  have "growing (res_fold adopt_task (List.map_filter id tasks))" by (rule growing_fold) (rule growing_task)
  with tasks(3) have facts: "same_target tx tx' \<and> (staged_ok tx \<longrightarrow> staged_ok tx') \<and> (at_contract tx \<noteq> WIDE_FACT \<longrightarrow> at_expected tx' = at_expected tx) \<and>
    (at_contract tx = WIDE_FACT \<longrightarrow> (\<forall>e. below (at_expected tx') e \<longrightarrow>
       res_fold adopt_task (List.map_filter id tasks) (tx\<lparr>at_expected := Some e\<rparr>) = Inr (tx'\<lparr>at_expected := Some e\<rparr>)))"
    unfolding growing_def by blast
  with tasks(1,2) show ?thesis unfolding run_coordinates_order by auto
qed

lemma nothing_submitted:
  assumes "run_coordinates env delta selected cs tx = Inr (0, tx')"
  shows "run_coordinates env delta selected cs other = Inr (0, other)"
proof -
  from assms obtain tasks where tasks: "res_map (coordinate_task env delta selected (at_seq tx)) cs = Inr tasks"
    "List.map_filter id tasks = []" unfolding run_coordinates_order by auto
  have none: "coordinate_task env delta selected s c = Inr None \<longleftrightarrow> coordinate_task env delta selected t c = Inr None" for s t c
    by (auto simp: coordinate_task_def Let_def res_simps split: list.splits option.splits if_splits)
  have "res_map (coordinate_task env delta selected s) cs = Inr ts \<Longrightarrow> List.map_filter id ts = [] \<Longrightarrow>
      res_map (coordinate_task env delta selected t) cs = Inr ts" for s t ts
  proof (induction cs arbitrary: ts)
    case (Cons c cs)
    then obtain us where us: "ts = None # us" "coordinate_task env delta selected s c = Inr None"
      "res_map (coordinate_task env delta selected s) cs = Inr us" "List.map_filter id us = []"
      by (auto simp: res_simps map_filter_simps id_def split: option.splits)
    with Cons.IH [OF us(3,4)] none [of s c t] show ?case by simp
  qed simp
  from this [OF tasks] tasks(2) show ?thesis unfolding run_coordinates_order by auto
qed


text \<open>What a transaction leaves when its process dies right after the commit is what the next attempt finds.\<close>

lemma append_again_after_commit:
  assumes "append_generation env delta selected cs disk = (Inr (Some g), disk')"
    and "idle_ok disk gens" and "\<And>n. json_plain (VDict (rn_metadata env n))"
  shows "\<exists>g' gens'. append_generation env delta selected cs disk' = (Inr (Some g'), disk') \<and>
    same_result (Some g) (Some g') \<and> idle_ok disk' gens'"
proof -
  let ?key = "run_key env delta" and ?mode = "output_mode env"
  let ?columns = "if cs_wide (rn_spec env) then rn_columns env else []"
  let ?start = "begin_append ?key (cs_identity (rn_spec env)) (cs_partition (rn_spec env)) ?mode ?columns"
  from assms(1) obtain tx reserved n tx' where b: "?start disk = Inr (tx, reserved)"
    and run: "run_coordinates env delta selected cs tx = Inr (n, tx')" and n: "n \<noteq> 0"
    and commit: "commit_append (rn_show env) (rn_checksum env) (rn_now env) (rn_metadata env n) tx' reserved = Inr (g, disk')"
    unfolding append_generation_def by (auto split: sum.splits prod.splits if_splits)
  note fields = begin_fields [OF b] and grows = run_coordinates_grows [OF run]
  have "staged_ok tx" using fields by (simp add: staged_ok_def)
  with grows have target: "same_target tx tx'" and staged: "staged_ok tx'" by blast+
  have open_tx: "append_ok \<lparr>as_disk = reserved, as_open = [tx']\<rparr> gens"
    using append_ok_begin [OF assms(2) b] target staged by (auto intro: append_ok_adopted)
  then obtain more where idle: "idle_ok disk' (gens @ more)"
    using append_ok_commit [of reserved "[]" tx' "[]", OF _ commit assms(3)] by auto
  have logged: "logged reserved gens" using open_tx by (simp add: append_ok_def log_ok_def)
  from commit obtain m where m: "read_append_manifest (at_contract tx') (ad_manifest reserved) = Inr m"
    and some: "at_staged tx' \<noteq> []" unfolding commit_append_def by (auto simp: res_simps)
  note holds = logged_contract [OF logged m]
  have same: "at_key tx' = at_key tx" "at_contract tx' = ?mode" "at_seq tx' = at_seq tx" "at_key tx = py_strip ?key"
    using target fields by (simp_all add: same_target_def)
  show ?thesis
  proof (cases "find (\<lambda>g. ge_key g = at_key tx') gens")
    case (Some old)
    have "logged disk gens" using assms(2) by (simp add: append_ok_def log_ok_def)
    moreover have "old \<in> set gens" "ge_key old = at_key tx" using Some same by (auto simp: find_Some_iff)
    ultimately have "reserved = disk" using begin_facts [OF b] by (force simp: log_keys_def)
    moreover have "disk' = reserved" using commit_reuses [OF holds some Some] commit by simp
    ultimately have "disk' = disk" by simp
    with assms(1) idle show ?thesis by (auto simp: same_result_def)
  next
    case None
    with commit m some read_log [OF holds] obtain placed where placed: "res_map (place_part tx') (at_staged tx') = Inr placed"
      by (auto simp: commit_append_def find_generation res_simps Let_def)
    let ?new = "committed_generation (rn_checksum env) tx' (rn_now env) (rn_metadata env n)"
    from commit_log [OF holds some None assms(3) [of n] placed, of "rn_show env" "rn_checksum env" "rn_now env"] commit obtain f where
      g: "g = \<lparr>ag_seq = at_seq tx', ag_files = map sp_path (at_staged tx'), ag_reused = False, ag_parts = group_staged (at_staged tx')\<rparr>"
      and disk': "disk' = reserved\<lparr>ad_manifest := f, ad_files := ad_files reserved @ placed\<rparr>"
      and holds': "holds_log (at_contract tx') f (gens @ [?new])" by auto
    have found: "find (\<lambda>g. ge_key g = at_key tx') (gens @ [?new]) = Some ?new"
      using find_append [OF None] by (simp add: committed_generation_def)
    let ?expected = "if ?mode = WIDE_FACT then manifest_output_schema disk' (rev (log_items (gens @ [?new]))) else None"
    have "?start disk' = Inr (tx\<lparr>at_seq := ge_seq ?new, at_expected := ?expected\<rparr>, disk')"
      using begin_again [OF b, of disk' "gens @ [?new]" ?new] holds' found same by (simp add: disk')
    moreover have "tx\<lparr>at_seq := ge_seq ?new, at_expected := ?expected\<rparr> = tx\<lparr>at_expected := ?expected\<rparr>"
      using same(3) by (cases tx) (simp add: committed_generation_def)
    ultimately have again: "?start disk' = Inr (tx\<lparr>at_expected := ?expected\<rparr>, disk')" by simp
    have rerun: "run_coordinates env delta selected cs (tx\<lparr>at_expected := ?expected\<rparr>) = Inr (n, tx')"
    proof (cases "?mode = WIDE_FACT")
      case False
      with fields have "tx\<lparr>at_expected := ?expected\<rparr> = tx" by (cases tx) simp
      with run show ?thesis by simp
    next
      case True
      then have wide: "at_contract tx' = WIDE_FACT" using same by simp
      from placed_expected [OF wide placed some] obtain e where e: "at_expected tx' = Some e" by blast
      obtain p ps where ps: "at_staged tx' = p # ps" using some by (cases "at_staged tx'") auto
      have new: "sp_path p \<notin> fst ` set (ad_files reserved)"
        using moved_parts_new(1) [of reserved gens "[]" tx' "[]" "map sp_path (at_staged tx')"] open_tx None ps
        by (auto simp: append_ok_def find_key)
      then have "map_of (ad_files disk') (sp_path p) = Some e"
        using placed_wide [OF wide e placed] ps by (auto simp: disk' map_add_def map_of_eq_None_iff [THEN iffD2])
      from schema_of_last [OF ps this] True have expected: "?expected = Some e" by simp
      have kept: "tx'\<lparr>at_expected := Some e\<rparr> = tx'" using e by (cases tx') simp
      have "below (at_expected tx') e" using e by (simp add: below_def schemas.le_refl)
      moreover have "at_contract tx = WIDE_FACT" using True fields by simp
      ultimately have "run_coordinates env delta selected cs (tx\<lparr>at_expected := Some e\<rparr>) = Inr (n, tx'\<lparr>at_expected := Some e\<rparr>)"
        using grows by blast
      then show ?thesis unfolding expected kept .
    qed
    have "commit_append (rn_show env) (rn_checksum env) (rn_now env) (rn_metadata env n) tx' disk' =
        Inr (\<lparr>ag_seq = at_seq tx', ag_files = map fe_path (ge_files ?new), ag_reused = True, ag_parts = group_staged (at_staged tx')\<rparr>, disk')"
      using commit_reuses [of tx' disk' "gens @ [?new]" ?new] holds' some found
      by (simp add: disk' group_files_committed) (simp add: committed_generation_def)
    with again rerun n have "append_generation env delta selected cs disk' =
        (Inr (Some \<lparr>ag_seq = at_seq tx', ag_files = map fe_path (ge_files ?new), ag_reused = True,
           ag_parts = group_staged (at_staged tx')\<rparr>), disk')"
      by (simp add: append_generation_def)
    with idle g show ?thesis by (fastforce simp: same_result_def)
  qed
qed

lemma append_nothing:
  assumes "append_generation env delta selected cs disk = (Inr None, disk')" and "idle_ok disk gens"
  shows "same_data disk disk' \<and> idle_ok disk' gens"
    and "same_data disk other \<Longrightarrow> \<exists>other'. append_generation env delta selected cs other = (Inr None, other') \<and> same_data disk other'"
proof -
  let ?start = "begin_append (run_key env delta) (cs_identity (rn_spec env)) (cs_partition (rn_spec env)) (output_mode env)
    (if cs_wide (rn_spec env) then rn_columns env else [])"
  from assms(1) obtain tx tx' where b: "?start disk = Inr (tx, disk')"
    and run: "run_coordinates env delta selected cs tx = Inr (0, tx')"
    unfolding append_generation_def by (auto split: sum.splits prod.splits if_splits)
  have logged: "logged disk gens" using assms(2) by (simp add: append_ok_def log_ok_def)
  have "txs_ok disk' gens ([] @ tx # [])" "log_ok disk' gens"
    using append_ok_begin [OF assms(2) b] by (simp_all add: append_ok_def)
  then have "idle_ok disk' gens" using txs_ok_remove [of disk' gens "[]" tx "[]"] by (simp add: append_ok_def)
  moreover have "same_data disk disk'" using begin_facts [OF b logged] by (auto simp: same_data_def)
  ultimately show "same_data disk disk' \<and> idle_ok disk' gens" by simp
  show "\<exists>other'. append_generation env delta selected cs other = (Inr None, other') \<and> same_data disk other'"
    if "same_data disk other"
  proof -
    from begin_total [OF b _ logged, of other] that obtain tx2 other' where
      "?start other = Inr (tx2, other')" "same_data disk other'" by (auto simp: same_data_def)
    then show ?thesis using nothing_submitted [OF run, of tx2] by (simp add: append_generation_def)
  qed
qed

lemma same_result_trans: "same_result a b \<Longrightarrow> same_result b c \<Longrightarrow> same_result a c"
  by (simp add: same_result_def)

lemma run_again:
  assumes "run_until_commit env delta disk = (Inr a, disk')" and "idle_ok disk gens"
    and "\<And>n. json_plain (VDict (rn_metadata env n))"
  shows "\<exists>b later gens'. run_until_commit env delta disk' = (Inr b, later) \<and> same_result a b \<and> same_data disk' later \<and>
    idle_ok disk' gens'"
proof -
  let ?selected = "run_selection env delta"
  from assms(1) obtain cs where cs: "planned_coordinates env ?selected = Inr cs"
    unfolding run_until_commit_def by (auto simp: Let_def split: sum.splits)
  show ?thesis
  proof (cases "cs = []")
    case True
    with assms cs show ?thesis by (auto simp: run_until_commit_def Let_def same_result_def same_data_def)
  next
    case False
    then have run: "run_until_commit env delta d = append_generation env delta ?selected cs d" for d
      using cs by (simp add: run_until_commit_def Let_def)
    show ?thesis
    proof (cases a)
      case (Some g)
      with append_again_after_commit [OF _ assms(2,3)] assms(1) show ?thesis unfolding run
        by (fastforce simp: same_data_def)
    next
      case None
      with assms(1) have idles: "append_generation env delta ?selected cs disk = (Inr None, disk')" by (simp add: run)
      from append_nothing(1) [OF idles assms(2)] have "same_data disk disk'" "idle_ok disk' gens" by simp_all
      with append_nothing(2) [OF idles assms(2), of disk'] None show ?thesis unfolding run
        by (auto simp: same_result_def same_data_def)
    qed
  qed
qed

lemma record_same: "same_result a b \<Longrightarrow> record_run delta previous a = record_run delta previous b"
  by (cases a; cases b) (simp_all add: same_result_def record_run_def)

text \<open>
  C7: a run that is killed between its commit and the writing of the calculation manifest, any number of
  times, and then runs through, records what an undisturbed run records, and the dataset holds the
  same generations and parts: nothing is appended twice. It holds for long and for wide outputs,
  whatever the number of workers, on every dataset that only these operations have written and to
  which nobody else is writing.
\<close>

theorem interrupted_run_appends_once:
  assumes "(append_step show_schema checksum)\<^sup>*\<^sup>* empty_dataset \<lparr>as_disk = rs_disk st, as_open = []\<rparr>"
    and "\<And>n. json_plain (VDict (rn_metadata env n))"
    and "execute_segment_plan env st = (Inr (delta, appended), st')"
  shows "\<exists>again later. execute_segment_plan env ((killed_before_record env ^^ k) st) = (Inr (delta, again), later) \<and>
    same_result appended again \<and> rs_calculation later = rs_calculation st' \<and> same_data (rs_disk st') (rs_disk later)"
proof -
  from append_steps_ok [OF assms(1) empty_dataset_ok] obtain gens where idle: "idle_ok (rs_disk st) gens" by auto
  from assms(3) obtain previous disk where plan: "plan_upstream_delta env (rs_calculation st) = Inr delta"
    and read: "read_calculation_manifest (rs_calculation st) = Inr previous"
    and run: "run_until_commit env delta (rs_disk st) = (Inr appended, disk)"
    and st': "st' = \<lparr>rs_disk = disk, rs_calculation = Some (record_run delta previous appended)\<rparr>"
    by (auto simp: execute_segment_plan_def split: sum.splits prod.splits)
  have killed: "killed_before_record env u = u\<lparr>rs_disk := snd (run_until_commit env delta (rs_disk u))\<rparr>"
    if "rs_calculation u = rs_calculation st" for u
    using plan that by (simp add: killed_before_record_def)
  have "\<exists>b d gens. rs_calculation ((killed_before_record env ^^ k) st) = rs_calculation st \<and>
      run_until_commit env delta (rs_disk ((killed_before_record env ^^ k) st)) = (Inr b, d) \<and>
      same_result appended b \<and> same_data disk d \<and> idle_ok (rs_disk ((killed_before_record env ^^ k) st)) gens"
  proof (induction k)
    case 0
    show ?case using run idle by (auto simp: same_result_def same_data_def)
  next
    case (Suc k)
    then obtain b d gens where IH: "rs_calculation ((killed_before_record env ^^ k) st) = rs_calculation st"
      "run_until_commit env delta (rs_disk ((killed_before_record env ^^ k) st)) = (Inr b, d)"
      "same_result appended b" "same_data disk d" "idle_ok (rs_disk ((killed_before_record env ^^ k) st)) gens" by blast
    have next_state: "(killed_before_record env ^^ Suc k) st = ((killed_before_record env ^^ k) st)\<lparr>rs_disk := d\<rparr>"
      using killed [OF IH(1)] IH(2) by simp
    from run_again [OF IH(2,5) assms(2)] obtain c later gens' where "run_until_commit env delta d = (Inr c, later)"
      "same_result b c" "same_data d later" "idle_ok d gens'" by blast
    with IH(1,3,4) show ?case unfolding next_state by (auto simp: same_result_def same_data_def)
  qed
  then obtain b d where "rs_calculation ((killed_before_record env ^^ k) st) = rs_calculation st"
    "run_until_commit env delta (rs_disk ((killed_before_record env ^^ k) st)) = (Inr b, d)"
    "same_result appended b" "same_data disk d" by blast
  then have "execute_segment_plan env ((killed_before_record env ^^ k) st) =
      (Inr (delta, b), \<lparr>rs_disk = d, rs_calculation = Some (record_run delta previous b)\<rparr>) \<and>
    same_result appended b \<and> record_run delta previous b = record_run delta previous appended \<and> same_data disk d"
    using plan read record_same by (simp add: execute_segment_plan_def)
  then show ?thesis by (simp add: st')
qed

definition run_part :: path where
  "run_part = [''data'', ''part.parquet'']"

definition run_out :: task_output where
  "run_out = \<lparr>to_fields = [\<lparr>fd_name = ''id'', fd_type = ''string'', fd_nullable = False\<rparr>,
       \<lparr>fd_name = ''value'', fd_type = ''double'', fd_nullable = True\<rparr>],
     to_rows = 4, to_long_schema = True, to_values = (\<lambda>_. [VStr ''7''])\<rparr>"

definition run_env_for :: "calc_plan \<Rightarrow> dir \<Rightarrow> run_env" where
  "run_env_for plan data =
     \<lparr>rn_sha = (\<lambda>_. replicate 64 CHR ''0''), rn_spec = sample_spec, rn_plan = plan, rn_files = [run_part],
      rn_dataset = (\<lambda>p. if p = [''data''] then data else []), rn_stat = (\<lambda>_. (0, 0)),
      rn_coordinates = (\<lambda>_. Inr [\<lparr>cb_sources = [run_part], cb_columns = [''id'', ''u0'', ''x''], cb_rows = 4\<rparr>]),
      rn_execute = (\<lambda>_ _ _ _. Inr [run_out]), rn_columns = [], rn_workers = 2, rn_show = (\<lambda>_. []),
      rn_checksum = (\<lambda>_. ''c''), rn_now = ''now'', rn_metadata = (\<lambda>_. [])\<rparr>"

definition first_state :: run_state where
  "first_state = \<lparr>rs_disk = as_disk empty_dataset, rs_calculation = None\<rparr>"

definition run_ok :: "run_env \<Rightarrow> bool" where
  "run_ok env =
     (case execute_segment_plan env first_state of
        (Inr (delta, appended), st) \<Rightarrow> dp_mode delta = Initial \<and> distinct (map us_relative (dp_current delta)) \<and>
          appended \<noteq> None \<and> calculation_contract_hash env \<noteq> []
      | _ \<Rightarrow> False)"

definition run_sample :: "run_env option" where
  "run_sample = (case (sample_plan, sample_sealed) of (Inr plan, Some data) \<Rightarrow> Some (run_env_for plan data) | _ \<Rightarrow> None)"

lemma run_sample_ok: "(case run_sample of Some env \<Rightarrow> run_ok env | None \<Rightarrow> False)"
  by code_simp

lemma run_sample_facts:
  "\<exists>env delta appended st. run_sample = Some env \<and> execute_segment_plan env first_state = (Inr (delta, appended), st) \<and>
     dp_mode delta \<noteq> FullScan \<and> distinct (map us_relative (dp_current delta)) \<and> appended \<noteq> None \<and>
     calculation_contract_hash env \<noteq> []"
proof -
  obtain env where env: "run_sample = Some env" "run_ok env"
  proof (cases run_sample)
    case None
    with run_sample_ok show ?thesis by simp
  next
    case (Some env)
    from run_sample_ok have "run_ok env" unfolding Some option.case .
    with Some show ?thesis by (rule that)
  qed
  then obtain delta appended st where "execute_segment_plan env first_state = (Inr (delta, appended), st)"
    "dp_mode delta = Initial" "distinct (map us_relative (dp_current delta))" "appended \<noteq> None"
    "calculation_contract_hash env \<noteq> []" unfolding run_ok_def by (auto split: prod.splits sum.splits)
  with env(1) show ?thesis by (metis delta_mode.distinct(1))
qed

theorem consumed_upstream_is_unchanged_witness:
  "\<exists>env delta appended st' following. run_sample = Some env \<and>
     execute_segment_plan env first_state = (Inr (delta, appended), st') \<and> appended \<noteq> None \<and>
     plan_upstream_delta env (rs_calculation st') = Inr following \<and> dp_mode following = Unchanged \<and>
     dp_selected following = [] \<and> dp_removed following = [] \<and>
     execute_segment_plan env st' = (Inr (following, None), st')"
proof -
  from run_sample_facts obtain env delta appended st where run: "run_sample = Some env"
    "execute_segment_plan env first_state = (Inr (delta, appended), st)" "dp_mode delta \<noteq> FullScan"
    "distinct (map us_relative (dp_current delta))" "appended \<noteq> None" "calculation_contract_hash env \<noteq> []" by blast
  from consumed_upstream_is_unchanged [OF run(2-4,6)] run show ?thesis by blast
qed

theorem interrupted_run_appends_once_witness:
  "\<exists>env delta appended st' again later. run_sample = Some env \<and>
     execute_segment_plan env first_state = (Inr (delta, appended), st') \<and> appended \<noteq> None \<and>
     execute_segment_plan env ((killed_before_record env ^^ 2) first_state) = (Inr (delta, again), later) \<and>
     same_result appended again \<and> rs_calculation later = rs_calculation st' \<and> same_data (rs_disk st') (rs_disk later)"
proof -
  from run_sample_facts obtain env delta appended st where run: "run_sample = Some env"
    "execute_segment_plan env first_state = (Inr (delta, appended), st)" "appended \<noteq> None" by blast
  have start: "(append_step (\<lambda>_. []) (\<lambda>_. []))\<^sup>*\<^sup>* empty_dataset \<lparr>as_disk = rs_disk first_state, as_open = []\<rparr>"
    by (simp add: first_state_def empty_dataset_def)
  have metadata: "json_plain (VDict (rn_metadata env n))" for n
    using run(1) by (auto simp: run_sample_def run_env_for_def split: sum.splits option.splits)
  from interrupted_run_appends_once [OF start metadata run(2), of 2] run show ?thesis by blast
qed

end
