(* ===== verification/Spec2Isabelle.thy ===== *)
theory Spec2Isabelle
  imports OptimizerMeaning PhysicalPlan Cohorts AssetChain Scheduler SpotfireRoundtrip PublishedDatasets
    CalculatedTasks SegmentAppend IncrementalRuns
begin

text \<open>
  A model of smoking-data, a Python program that builds datasets from YAML definitions: a definition
  is compiled into a logical plan, the plan is optimised and turned into tasks, tasks write parts
  that a transaction publishes, chains of definitions run in dependency order, and a scheduler
  starts them by cron expressions. Paths below are relative to \<open>src/smoking_data\<close> unless said
  otherwise.

  Conventions. A dataclass is a record, an enum a datatype, a dictionary an association list in
  insertion order, a JSON or YAML document a \<open>pyval\<close>. A raise is \<open>Inl\<close> of a \<open>py_error\<close>, which keeps
  the code of a \<open>ValidationError\<close> and drops messages. Everything outside the sources (SHA-256,
  file systems, clocks, the native engine) is an argument, and what is relied on is a hypothesis.

  Foundations: \<open>Prelude\<close> (results, dictionaries, the \<open>keyed_table\<close> interface) and \<open>PyValue\<close> (values
  of documents and Python's string and truth rules).

  Plans. \<open>Operations\<close> (\<open>core/operations.py\<close>) holds the operation contracts, \<open>YamlShape\<close>, \<open>LogicalPlan\<close>
  and \<open>PlanCompiler\<close> (\<open>core/logical_plan.py\<close>) the shape checks, the column lineage and the two
  compilers; \<open>Optimizer\<close> (\<open>core/optimizer.py\<close>) the rewrite rules and the bounded search, and
  \<open>OptimizerMeaning\<close> a meaning of plans under which every candidate is equivalent to the plan it
  came from. The theorems give the order and uniqueness of compiled stages, what a rewrite keeps,
  and where it does not (a filter moved over a window calculation).

  Tasks. \<open>Packing\<close> and \<open>CostModel\<close> (\<open>core/cost_model.py\<close>, \<open>core/barriers.py\<close>, \<open>planners/tasks.py\<close>,
  \<open>planners/dirty.py\<close>) pack groups under budgets; \<open>PhysicalPlan\<close> (\<open>core/physical_plan.py\<close>) ranks
  candidate plans and admits workers; \<open>Cohorts\<close> (\<open>planners/dataset_shard.py\<close>) splits sources into
  cohorts and keeps earlier ones. The theorems are partitions, bounds and optimality.

  Chains. \<open>TopoSort\<close> proves the queue-driven topological sort complete: it reports a cycle exactly
  when there is one. \<open>AssetChain\<close> (\<open>runtime/asset_chain.py\<close>) loads and runs a chain; a failure blocks
  exactly its dependents, and reuse is sound.

  Scheduling. \<open>Cron\<close> and \<open>Scheduler\<close> (\<open>runtime/scheduler.py\<close>) parse cron fields, find the due minute
  and claim occurrences in the database, whose transactions are a step relation: at most one
  occurrence of a schedule runs and none runs twice. \<open>tick_schedules\<close> is shown to take such steps.

  Publication. \<open>ChangeReceipt\<close> (\<open>runtime/change_receipt.py\<close>) compares manifests. \<open>Transactions\<close>
  (\<open>runtime/transactions.py\<close>) runs commit, abort and recovery over a disk whose operations may fail
  or die, each by the next outcome of a script; Hoare triples carry the phases (untouched, moved
  away, published) through them, and the locale \<open>restartable\<close> gives repeated interrupted recovery.
  \<open>PublishedDatasets\<close> shows that what is published passes the validation of its readers.

  Expressions. \<open>SpotfireAst\<close>, \<open>SpotfireParser\<close> and \<open>SpotfireRoundtrip\<close> (\<open>src/spotfire_expr_normalizer\<close>)
  hold trees, rendering, tokens and the precedence climbing parser. Every parser loop counts down
  from one more than the tokens in hand; \<open>parse_enough_fuel\<close> shows that this always suffices.
  Rendering and parsing are inverse on the trees \<open>renderable\<close> describes.

  Calculated facts (\<open>assets/a0102_calculated_fact\<close>). \<open>ExpressionIr\<close> (\<open>planner.py\<close>, \<open>invalidation.py\<close>) walks
  expression documents, chooses how list expressions run, and cuts out the part that some outputs
  need; the locale \<open>reference_engine\<close> says what is asked of an engine, and on any such engine the part
  computes what the whole does. The visit of dependencies recurses with one unit of fuel more than
  there are expressions, which \<open>visit_total\<close> shows to be enough. \<open>CalculatedPlan\<close> (\<open>binding.py\<close>,
  \<open>fingerprint.py\<close>, \<open>planning.py\<close>, \<open>task.py\<close>, \<open>external_files.py\<close>) binds references, skips what cannot be
  bound, derives physical inputs and builds task requests; \<open>CalculatedTasks\<close> shows that fingerprints
  lie within the projection and that a task provides every column its expressions read.
  \<open>SegmentAppend\<close> (\<open>segment_append.py\<close>) appends generations of part files to a dataset; the operations of
  several processes interleave as a step relation, and the manifest refines an append-only log; the
  locale \<open>partial_join\<close>, interpreted on the merging of schemas, shows that a wide dataset has the least
  schema its parts fit. \<open>Incremental\<close> (\<open>upstream_delta.py\<close>, \<open>calculation_manifest.py\<close>, \<open>segment_runtime.py\<close>)
  plans from the upstream's change receipt and runs the selected segments through the bounded
  executor, whose order of adoption does not depend on the number of workers (\<open>run_coordinates_order\<close>).
  \<open>IncrementalRuns\<close> shows that a run which is killed after its commit is repeated without appending twice.

  Bounds. Strings are code points below 256. Integers are unbounded as in Python. The optimizer's
  search is bounded by its own limits. A cron search looks at most a week of minutes back, as the
  code does.

  Not modelled: the producers of the assets, whose frames are computed by polars and the native
  engine; the pipeline runner and DAG, which start processes; clients of object stores, telemetry,
  advisors and the command line. The manifest lists each with its reason.
\<close>

end
